(* ===== verification/Hefest_Prelude.thy ===== *)
theory Hefest_Prelude
  imports Main "HOL-Library.Word" "HOL-Library.Multiset"
begin

text \<open>
  Shared vocabulary of the development: identifiers and their text form, instants and Python
  datetimes, the exceptions the program raises, tables as lists of rows with the query and update
  forms the program uses, transactions, and the first-in-first-out order that both the waitlist
  and the notification queue sort by. The collections \<open>table_simps\<close>, \<open>res_simps\<close> and
  \<open>key_simps\<close> carry the component proofs.
\<close>

named_theorems table_simps \<open>rewrite rules for queries and updates of tables\<close>
named_theorems res_simps \<open>rewrite rules for results, binding and transactions\<close>
named_theorems key_simps \<open>rewrite rules for identifiers and idempotency keys\<close>

section \<open>Instants and datetimes\<close>

text \<open>
  An instant is a number of microseconds since the Unix epoch, the resolution of Python's
  \<open>datetime\<close> and of PostgreSQL's \<open>timestamptz\<close>. A Python \<open>datetime\<close> is either aware (it
  denotes an instant) or naive (it carries no time zone); ordering the two kinds against each
  other raises \<open>TypeError\<close>.
\<close>

type_synonym instant = int

datatype datetime = Aware instant | Naive instant

fun replace_tzinfo_utc :: "datetime \<Rightarrow> instant" where
  "replace_tzinfo_utc (Aware t) = t"
| "replace_tzinfo_utc (Naive t) = t"

definition seconds :: "int \<Rightarrow> int" where
  "seconds n = n * 1000000"

definition hours :: "int \<Rightarrow> int" where
  "hours n = seconds (n * 3600)"

definition days :: "int \<Rightarrow> int" where
  "days n = hours (n * 24)"

lemma seconds_mono [simp]: "seconds a \<le> seconds b \<longleftrightarrow> a \<le> b"
  by (simp add: seconds_def)

lemma seconds_less [simp]: "seconds a < seconds b \<longleftrightarrow> a < b"
  by (simp add: seconds_def)

lemma seconds_pos [simp]: "0 < seconds a \<longleftrightarrow> 0 < a"
  by (simp add: seconds_def)

lemma seconds_nonneg [simp]: "0 \<le> seconds a \<longleftrightarrow> 0 \<le> a"
  by (simp add: seconds_def)

section \<open>Exceptions\<close>

text \<open>
  Every exception that crosses a function boundary of the program. \<open>HTTPException\<close> carries the
  status code, the detail and the extra headers; the others are the Python and ORM exceptions the
  source names.
\<close>

datatype exc =
    HTTPException nat string "(string \<times> string) list"
  | IntegrityError
  | DoesNotExist
  | OperationalError
  | TypeError
  | AttributeError
  | ValueError string
  | PermissionError string
  | KeyError string
  | MultipleObjectsReturned
  | ValidationError string
  | DataError

fun py_le :: "datetime \<Rightarrow> datetime \<Rightarrow> exc + bool" where
  "py_le (Aware a) (Aware b) = Inr (a \<le> b)"
| "py_le (Naive a) (Naive b) = Inr (a \<le> b)"
| "py_le _ _ = Inl TypeError"

section \<open>Results, binding and transactions\<close>

text \<open>
  A function that reads and writes a store and may raise is a map from the store to a result and
  the store afterwards; \<open>and_then\<close> sequences two of them, stopping at the first exception with the
  writes made so far. A transaction block commits when its body returns and restores the store it
  started from when its body raises.
\<close>

type_synonym ('s, 'a) prog = "'s \<Rightarrow> (exc + 'a) \<times> 's"

definition ret :: "'a \<Rightarrow> ('s, 'a) prog" where
  "ret x s = (Inr x, s)"

definition raise :: "exc \<Rightarrow> ('s, 'a) prog" where
  "raise e s = (Inl e, s)"

definition and_then :: "('s, 'a) prog \<Rightarrow> ('a \<Rightarrow> ('s, 'b) prog) \<Rightarrow> ('s, 'b) prog" where
  "and_then m k s = (case m s of (Inl e, s') \<Rightarrow> (Inl e, s') | (Inr x, s') \<Rightarrow> k x s')"

definition in_transaction :: "('s, 'a) prog \<Rightarrow> ('s, 'a) prog" where
  "in_transaction body s = (case body s of (Inl e, _) \<Rightarrow> (Inl e, s) | (Inr x, s') \<Rightarrow> (Inr x, s'))"

definition answering :: "('a \<Rightarrow> 'b) \<Rightarrow> ('s, 'a) prog \<Rightarrow> ('s, 'b) prog" where
  "answering f m s = (case m s of (res, s') \<Rightarrow> (map_sum id f res, s'))"

lemma ret_simp [res_simps]: "ret x s = (Inr x, s)"
  by (simp add: ret_def)

lemma raise_simp [res_simps]: "raise e s = (Inl e, s)"
  by (simp add: raise_def)

lemma and_then_ok [res_simps]: "m s = (Inr x, s') \<Longrightarrow> and_then m k s = k x s'"
  by (simp add: and_then_def)

lemma and_then_err [res_simps]: "m s = (Inl e, s') \<Longrightarrow> and_then m k s = (Inl e, s')"
  by (simp add: and_then_def)

lemma and_then_Inr_iff:
  "and_then m k s = (Inr y, s'') \<longleftrightarrow> (\<exists>x s'. m s = (Inr x, s') \<and> k x s' = (Inr y, s''))"
  by (auto simp: and_then_def split: prod.splits sum.splits)

lemma in_transaction_err: "in_transaction m s = (Inl e, s') \<Longrightarrow> s' = s"
  by (auto simp: in_transaction_def split: prod.splits sum.splits)

lemma in_transaction_ok [res_simps]:
  "in_transaction m s = (Inr x, s') \<longleftrightarrow> m s = (Inr x, s')"
  by (auto simp: in_transaction_def split: prod.splits sum.splits)

lemma in_transaction_Inl_iff [res_simps]:
  "in_transaction m s = (Inl e, s') \<longleftrightarrow> s' = s \<and> (\<exists>s''. m s = (Inl e, s''))"
  by (auto simp: in_transaction_def split: prod.splits sum.splits)

lemma answering_Inr: "answering f m s = (Inr x, s') \<longleftrightarrow> (\<exists>y. m s = (Inr y, s') \<and> x = f y)"
  by (cases "m s"; cases "fst (m s)") (auto simp: answering_def)

section \<open>Tables\<close>

text \<open>
  A table is the list of its rows. The query forms of the program are a filter that keeps at most
  one row (\<open>get_or_none\<close>), a count, an ordered first row, and an update of all rows that match a
  condition. Rows are inserted at the end; the position in the list stands for the physical scan
  order, which no statement of the program relies on.
\<close>

definition get_or_none :: "('r \<Rightarrow> bool) \<Rightarrow> 'r list \<Rightarrow> 'r option" where
  "get_or_none P rows = find P rows"

definition count_where :: "('r \<Rightarrow> bool) \<Rightarrow> 'r list \<Rightarrow> nat" where
  "count_where P rows = length (filter P rows)"

definition update_where :: "('r \<Rightarrow> bool) \<Rightarrow> ('r \<Rightarrow> 'r) \<Rightarrow> 'r list \<Rightarrow> 'r list" where
  "update_where P f rows = map (\<lambda>r. if P r then f r else r) rows"

definition first_by :: "('r \<Rightarrow> 'k::linorder) \<Rightarrow> 'r list \<Rightarrow> 'r option" where
  "first_by k rows = (case sort_key k rows of [] \<Rightarrow> None | r # _ \<Rightarrow> Some r)"

lemma get_or_none_Some: "get_or_none P rows = Some r \<Longrightarrow> r \<in> set rows \<and> P r"
  by (auto simp: get_or_none_def find_Some_iff)

lemma get_or_none_None [table_simps]: "get_or_none P rows = None \<longleftrightarrow> (\<forall>r\<in>set rows. \<not> P r)"
  by (auto simp: get_or_none_def find_None_iff)

lemma get_or_none_Nil [simp]: "get_or_none P [] = None"
  by (simp add: get_or_none_def)

lemma get_or_none_Cons [simp]:
  "get_or_none P (r # rows) = (if P r then Some r else get_or_none P rows)"
  by (simp add: get_or_none_def)

lemma get_or_none_append:
  "get_or_none P (xs @ ys) = (case get_or_none P xs of None \<Rightarrow> get_or_none P ys | Some r \<Rightarrow> Some r)"
  by (induction xs) auto

text \<open>A restriction that keeps every matching row does not change what a query finds.\<close>

lemma get_or_none_filter:
  "(\<And>r. r \<in> set rows \<Longrightarrow> P r \<Longrightarrow> Q r) \<Longrightarrow> get_or_none P (filter Q rows) = get_or_none P rows"
  by (induction rows) auto

lemma get_or_none_map:
  "(\<And>r. r \<in> set rows \<Longrightarrow> Q (f r) \<longleftrightarrow> P r) \<Longrightarrow> get_or_none Q (map f rows) = map_option f (get_or_none P rows)"
  by (induction rows) auto

lemma filter_filter_keeps:
  "(\<And>r. r \<in> set rows \<Longrightarrow> P r \<Longrightarrow> Q r) \<Longrightarrow> filter P (filter Q rows) = filter P rows"
  by (induction rows) auto

lemma map_sort_key: "(\<And>x. k' (f x) = k x) \<Longrightarrow> map f (sort_key k xs) = sort_key k' (map f xs)"
proof (induction xs)
  case (Cons x xs)
  have "map f (insort_key k x ys) = insort_key k' (f x) (map f ys)" for ys
    using Cons.prems by (induction ys) auto
  with Cons show ?case by simp
qed simp

lemma get_or_none_pk:
  assumes "distinct (map f rows)" "r \<in> set rows"
  shows "get_or_none (\<lambda>x. f x = f r) rows = Some r"
  using assms by (induction rows) (auto simp: image_iff)

lemma pk_unique:
  "distinct (map f rows) \<Longrightarrow> r \<in> set rows \<Longrightarrow> x \<in> set rows \<Longrightarrow> f x = f r \<Longrightarrow> x = r"
  by (auto simp: distinct_map dest: inj_onD)

lemma count_where_Nil [simp]: "count_where P [] = 0"
  by (simp add: count_where_def)

lemma count_where_Cons [simp]:
  "count_where P (r # rows) = (if P r then Suc (count_where P rows) else count_where P rows)"
  by (simp add: count_where_def)

lemma count_where_append [table_simps]:
  "count_where P (xs @ ys) = count_where P xs + count_where P ys"
  by (simp add: count_where_def)

lemma count_where_cong: "(\<And>r. r \<in> set rows \<Longrightarrow> P r = Q r) \<Longrightarrow> count_where P rows = count_where Q rows"
  by (simp add: count_where_def cong: filter_cong)

lemma count_where_pos [table_simps]: "0 < count_where P rows \<longleftrightarrow> (\<exists>r\<in>set rows. P r)"
  by (auto simp: count_where_def filter_empty_conv)

lemma count_where_mono:
  "(\<And>r. r \<in> set rows \<Longrightarrow> P r \<Longrightarrow> Q r) \<Longrightarrow> count_where P rows \<le> count_where Q rows"
proof (induction rows)
  case Nil
  then show ?case by simp
next
  case (Cons r rows)
  then have "count_where P rows \<le> count_where Q rows" by auto
  with Cons.prems show ?case by auto
qed

lemma count_where_strict:
  assumes "\<And>r. r \<in> set rows \<Longrightarrow> P r \<Longrightarrow> Q r" "x \<in> set rows" "Q x" "\<not> P x"
  shows "count_where P rows < count_where Q rows"
  using assms
proof (induction rows)
  case Nil
  then show ?case by simp
next
  case (Cons r rows)
  have "count_where P rows \<le> count_where Q rows" using Cons.prems(1) by (intro count_where_mono) auto
  with Cons show ?case by (cases "r = x") auto
qed

lemma update_where_Nil [simp]: "update_where P f [] = []"
  by (simp add: update_where_def)

lemma update_where_Cons [simp]:
  "update_where P f (r # rows) = (if P r then f r else r) # update_where P f rows"
  by (simp add: update_where_def)

lemma update_where_append [table_simps]:
  "update_where P f (xs @ ys) = update_where P f xs @ update_where P f ys"
  by (simp add: update_where_def)

lemma length_update_where [simp]: "length (update_where P f rows) = length rows"
  by (simp add: update_where_def)

lemma set_update_where: "set (update_where P f rows) = (\<lambda>r. if P r then f r else r) ` set rows"
  by (simp add: update_where_def)

lemma map_update_where:
  "(\<And>r. r \<in> set rows \<Longrightarrow> P r \<Longrightarrow> g (f r) = g r) \<Longrightarrow> map g (update_where P f rows) = map g rows"
  by (simp add: update_where_def comp_def)

lemma image_update_where:
  assumes "\<And>r. r \<in> set rows \<Longrightarrow> P r \<Longrightarrow> g (f r) = g r"
  shows "g ` set (update_where P f rows) = g ` set rows"
  using arg_cong[OF map_update_where[of rows P g f, OF assms], of set] by simp

lemma update_where_none: "(\<And>r. r \<in> set rows \<Longrightarrow> \<not> P r) \<Longrightarrow> update_where P f rows = rows"
  by (induction rows) auto

lemma count_update_where_same:
  assumes "\<And>r. r \<in> set rows \<Longrightarrow> P r \<Longrightarrow> Q (f r) = Q r"
  shows "count_where Q (update_where P f rows) = count_where Q rows"
  using assms by (induction rows) auto

text \<open>An update of the one row with a given key moves a count by what it does to that row.\<close>

lemma count_update_pk:
  assumes "distinct (map g rows)" "r \<in> set rows"
  shows "count_where Q (update_where (\<lambda>x. g x = g r) f rows) + (if Q r then 1 else 0)
       = count_where Q rows + (if Q (f r) then 1 else 0)"
  using assms
proof (induction rows)
  case Nil
  then show ?case by simp
next
  case (Cons x rows)
  show ?case
  proof (cases "x = r")
    case True
    with Cons.prems(1) have "\<And>y. y \<in> set rows \<Longrightarrow> g y \<noteq> g r" by (auto simp: image_iff)
    then have "update_where (\<lambda>x. g x = g r) f rows = rows" by (rule update_where_none)
    with True show ?thesis by simp
  next
    case False
    with Cons.prems have r: "r \<in> set rows" and d: "distinct (map g rows)" by auto
    with Cons.prems have "g x \<noteq> g r" by (auto simp: image_iff)
    with Cons.IH[OF d r] show ?thesis by simp
  qed
qed

lemma filter_update_pk_drop:
  assumes "distinct (map g rows)" "r \<in> set rows" "\<not> Q (f r)"
  shows "filter Q (update_where (\<lambda>x. g x = g r) f rows) = filter (\<lambda>x. Q x \<and> g x \<noteq> g r) rows"
  using assms
proof (induction rows)
  case Nil
  then show ?case by simp
next
  case (Cons x rows)
  show ?case
  proof (cases "x = r")
    case True
    with Cons.prems(1) have n: "\<And>y. y \<in> set rows \<Longrightarrow> g y \<noteq> g r" by (auto simp: image_iff)
    then have u: "update_where (\<lambda>x. g x = g r) f rows = rows" by (rule update_where_none)
    have "filter Q rows = filter (\<lambda>x. Q x \<and> g x \<noteq> g r) rows"
      using n by (intro filter_cong) auto
    with True u Cons.prems(3) show ?thesis by simp
  next
    case False
    with Cons.prems have r: "r \<in> set rows" and d: "distinct (map g rows)" by auto
    with Cons.prems False have "g x \<noteq> g r" by (auto simp: image_iff)
    with Cons.IH[OF d r] Cons.prems(3) show ?thesis by simp
  qed
qed

end
