(* ===== verification/Identifiers.thy ===== *)
theory Identifiers
  imports Hefest_Prelude
begin

text \<open>
  Primary keys are 128-bit UUIDs. Their canonical text (32 lower-case hexadecimal digits in five
  groups joined by dashes) is what the program writes into payloads and idempotency keys, and what
  the worker reads back. The first half of this theory shows that the text determines the UUID and
  that idempotency keys of different entities or event types never coincide. The second half is the
  order \<open>(timestamp, id)\<close> by which the waitlist and the notification queue are served.
\<close>

type_synonym uuid = "128 word"

section \<open>Canonical text of a UUID\<close>

definition hex_char :: "nat \<Rightarrow> char" where
  "hex_char d = ''0123456789abcdef'' ! d"

fun hex_digits :: "nat \<Rightarrow> nat \<Rightarrow> string" where
  "hex_digits 0 k = []"
| "hex_digits (Suc n) k = hex_digits n (k div 16) @ [hex_char (k mod 16)]"

definition hex_value :: "char \<Rightarrow> nat option" where
  "hex_value c = (let n = of_char c :: nat in
     if 48 \<le> n \<and> n \<le> 57 then Some (n - 48)
     else if 97 \<le> n \<and> n \<le> 102 then Some (n - 87)
     else if 65 \<le> n \<and> n \<le> 70 then Some (n - 55)
     else None)"

fun int_base16 :: "nat \<Rightarrow> string \<Rightarrow> nat option" where
  "int_base16 acc [] = Some acc"
| "int_base16 acc (c # cs) =
     (case hex_value c of None \<Rightarrow> None | Some d \<Rightarrow> int_base16 (acc * 16 + d) cs)"

definition str_uuid :: "uuid \<Rightarrow> string" where
  "str_uuid u = (let h = hex_digits 32 (unat u) in
     take 8 h @ ''-'' @ take 4 (drop 8 h) @ ''-'' @ take 4 (drop 12 h) @ ''-'' @
     take 4 (drop 16 h) @ ''-'' @ drop 20 h)"

text \<open>
  \<open>uuid.UUID(s)\<close> drops the dashes and requires 32 hexadecimal digits. The other decorations it
  tolerates (braces and the \<open>urn:uuid:\<close> prefix) are never written by the program and are
  rejected here.
\<close>

definition uuid_of_str :: "string \<Rightarrow> uuid option" where
  "uuid_of_str s = (let h = filter (\<lambda>c. c \<noteq> CHR ''-'') s in
     if length h = 32 then map_option of_nat (int_base16 0 h) else None)"

lemma length_hex_digits [simp]: "length (hex_digits n k) = n"
  by (induction n k rule: hex_digits.induct) auto

lemma less_16_cases:
  "d < 16 \<Longrightarrow> d = 0 \<or> d = 1 \<or> d = 2 \<or> d = 3 \<or> d = 4 \<or> d = 5 \<or> d = 6 \<or> d = 7 \<or> d = 8 \<or> d = 9
     \<or> d = 10 \<or> d = 11 \<or> d = 12 \<or> d = 13 \<or> d = 14 \<or> d = (15::nat)"
  by arith

lemma hex_value_char: "d < 16 \<Longrightarrow> hex_value (hex_char d) = Some d"
  by (drule less_16_cases) (auto simp: hex_value_def hex_char_def)

lemma hex_char_plain: "d < 16 \<Longrightarrow> hex_char d \<noteq> CHR ''-'' \<and> hex_char d \<noteq> CHR '':''"
  by (drule less_16_cases) (auto simp: hex_char_def)

lemma hex_digits_plain: "c \<in> set (hex_digits n k) \<Longrightarrow> c \<noteq> CHR ''-'' \<and> c \<noteq> CHR '':''"
  by (induction n k rule: hex_digits.induct) (auto simp: hex_char_plain)

lemma int_base16_append:
  "int_base16 acc (xs @ ys) = Option.bind (int_base16 acc xs) (\<lambda>a. int_base16 a ys)"
  by (induction xs arbitrary: acc) (auto split: option.splits)

lemma int_base16_hex_digits:
  "k < 16 ^ n \<Longrightarrow> int_base16 acc (hex_digits n k) = Some (acc * 16 ^ n + k)"
proof (induction n arbitrary: k)
  case 0
  then show ?case by simp
next
  case (Suc n)
  have "k div 16 < 16 ^ n" using Suc.prems by (simp add: less_mult_imp_div_less mult.commute)
  with Suc.IH have "int_base16 acc (hex_digits n (k div 16)) = Some (acc * 16 ^ n + k div 16)" by blast
  then have "int_base16 acc (hex_digits (Suc n) k) = Some ((acc * 16 ^ n + k div 16) * 16 + k mod 16)"
    by (simp add: int_base16_append hex_value_char)
  also have "(acc * 16 ^ n + k div 16) * 16 + k mod 16 = acc * 16 ^ Suc n + k"
    using div_mult_mod_eq[of k 16] by (simp add: algebra_simps)
  finally show ?case .
qed

lemma append_take_drop_groups:
  "take 8 h @ take 4 (drop 8 h) @ take 4 (drop 12 h) @ take 4 (drop 16 h) @ drop 20 h = h"
proof -
  have "take 4 (drop 16 h) @ drop 20 h = drop 16 h"
    using append_take_drop_id[of 4 "drop 16 h"] by (simp add: add.commute)
  moreover have "take 4 (drop 12 h) @ drop 16 h = drop 12 h"
    using append_take_drop_id[of 4 "drop 12 h"] by (simp add: add.commute)
  moreover have "take 4 (drop 8 h) @ drop 12 h = drop 8 h"
    using append_take_drop_id[of 4 "drop 8 h"] by (simp add: add.commute)
  ultimately show ?thesis by simp
qed

lemma filter_dash_hex: "(\<And>c. c \<in> set xs \<Longrightarrow> c \<noteq> CHR ''-'') \<Longrightarrow> filter (\<lambda>c. c \<noteq> CHR ''-'') xs = xs"
  by (simp add: filter_id_conv)

lemma filter_str_uuid: "filter (\<lambda>c. c \<noteq> CHR ''-'') (str_uuid u) = hex_digits 32 (unat u)"
proof -
  let ?h = "hex_digits 32 (unat u)"
  have sub: "filter (\<lambda>c. c \<noteq> CHR ''-'') xs = xs" if "set xs \<subseteq> set ?h" for xs
    using that by (auto intro!: filter_dash_hex dest: hex_digits_plain)
  have s: "set (take a (drop b ?h)) \<subseteq> set ?h" "set (drop b ?h) \<subseteq> set ?h" "set (take a ?h) \<subseteq> set ?h" for a b
    by (meson order_trans set_drop_subset set_take_subset)+
  show ?thesis
    by (simp only: str_uuid_def Let_def filter_append sub[OF s(1)] sub[OF s(2)] sub[OF s(3)])
      (simp add: append_take_drop_groups)
qed

lemma uuid_of_str_uuid [key_simps]: "uuid_of_str (str_uuid u) = Some u"
proof -
  have "unat u < 16 ^ 32" using unsigned_less[of u] by simp
  then have "int_base16 0 (hex_digits 32 (unat u)) = Some (unat u)"
    using int_base16_hex_digits by fastforce
  then show ?thesis by (simp add: uuid_of_str_def filter_str_uuid)
qed

lemma str_uuid_inject [simp]: "str_uuid u = str_uuid v \<longleftrightarrow> u = v"
  by (metis option.inject uuid_of_str_uuid)

lemma length_str_uuid [simp]: "length (str_uuid u) = 36"
  by (simp add: str_uuid_def Let_def)

section \<open>Idempotency keys\<close>

text \<open>The f-string \<open>f"{id}:{event_type}"\<close> that every outbox writer builds.\<close>

definition idempotency_key :: "uuid \<Rightarrow> string \<Rightarrow> string" where
  "idempotency_key i event_type = str_uuid i @ '':'' @ event_type"

lemma idempotency_key_inject [simp]:
  "idempotency_key i t = idempotency_key j u \<longleftrightarrow> i = j \<and> t = u"
  by (auto simp: idempotency_key_def append_eq_append_conv)

section \<open>The first-in-first-out order\<close>

datatype fifo_key = FifoKey instant uuid

instantiation fifo_key :: linorder
begin

fun less_eq_fifo_key :: "fifo_key \<Rightarrow> fifo_key \<Rightarrow> bool" where
  "FifoKey s i \<le> FifoKey t j \<longleftrightarrow> s < t \<or> (s = t \<and> i \<le> j)"

fun less_fifo_key :: "fifo_key \<Rightarrow> fifo_key \<Rightarrow> bool" where
  "FifoKey s i < FifoKey t j \<longleftrightarrow> s < t \<or> (s = t \<and> i < j)"

instance
proof
  fix x y z :: fifo_key
  show "(x < y) = (x \<le> y \<and> \<not> y \<le> x)" by (cases x; cases y) auto
  show "x \<le> x" by (cases x) auto
  show "x \<le> y \<Longrightarrow> y \<le> z \<Longrightarrow> x \<le> z" by (cases x; cases y; cases z) auto
  show "x \<le> y \<Longrightarrow> y \<le> x \<Longrightarrow> x = y" by (cases x; cases y) auto
  show "x \<le> y \<or> y \<le> x" by (cases x; cases y) auto
qed

end

section \<open>Queues ordered by an injective key\<close>

text \<open>
  The rank of a row among a set of rows is the number of rows at or before it. When the keys are
  distinct the row of rank one is the row an ordered \<open>first()\<close> returns, ranks are the positions in
  the sorted list, and removing the front row moves every other row forward by one.
\<close>

definition rank :: "('r \<Rightarrow> 'k::linorder) \<Rightarrow> 'r list \<Rightarrow> 'r \<Rightarrow> nat" where
  "rank k rows r = count_where (\<lambda>x. k x \<le> k r) rows"

lemma first_by_None [table_simps]: "first_by k rows = None \<longleftrightarrow> rows = []"
  by (auto simp: first_by_def split: list.splits)
    (metis length_0_conv length_sort list.size(3))

lemma first_by_Some:
  assumes "first_by k rows = Some r"
  shows "r \<in> set rows" and "\<And>x. x \<in> set rows \<Longrightarrow> k r \<le> k x"
proof -
  from assms obtain rs where s: "sort_key k rows = r # rs"
    by (auto simp: first_by_def split: list.splits)
  then show "r \<in> set rows" by (metis list.set_intros(1) set_sort)
  fix x assume "x \<in> set rows"
  then have "x \<in> set (r # rs)" by (metis s set_sort)
  moreover have "sorted (map k (r # rs))" by (metis s sorted_sort_key)
  ultimately show "k r \<le> k x" by auto
qed

lemma first_by_eq:
  assumes "r \<in> set rows" and "\<And>x. x \<in> set rows \<Longrightarrow> k r \<le> k x" and "inj_on k (set rows)"
  shows "first_by k rows = Some r"
proof (cases "first_by k rows")
  case None
  with assms(1) show ?thesis by (auto simp: first_by_None)
next
  case (Some x)
  note x = first_by_Some[OF Some]
  with assms have "k x = k r" by (metis order_antisym)
  with assms x have "x = r" by (auto dest: inj_onD)
  with Some show ?thesis by simp
qed

lemma rank_pos: "r \<in> set rows \<Longrightarrow> 1 \<le> rank k rows r"
  unfolding rank_def using count_where_pos[of "\<lambda>x. k x \<le> k r" rows] by force

lemma rank_le_length: "rank k rows r \<le> length rows"
  by (simp add: rank_def count_where_def)

lemma rank_one_iff_first:
  assumes "r \<in> set rows" "inj_on k (set rows)" "distinct rows"
  shows "rank k rows r = 1 \<longleftrightarrow> first_by k rows = Some r"
proof
  assume "rank k rows r = 1"
  then have one: "length (filter (\<lambda>x. k x \<le> k r) rows) = 1" by (simp add: rank_def count_where_def)
  have "k r \<le> k x" if "x \<in> set rows" for x
  proof (rule ccontr)
    assume "\<not> k r \<le> k x"
    with that assms(1) have "{x, r} \<subseteq> set (filter (\<lambda>x. k x \<le> k r) rows)" by auto
    moreover from \<open>\<not> k r \<le> k x\<close> have "card {x, r} = 2" by (auto simp: card_insert_if)
    ultimately have "2 \<le> length (filter (\<lambda>x. k x \<le> k r) rows)"
      by (metis card_length card_mono finite_set order_trans)
    with one show False by simp
  qed
  with assms show "first_by k rows = Some r" by (intro first_by_eq)
next
  assume "first_by k rows = Some r"
  note r = first_by_Some[OF this]
  have "filter (\<lambda>x. k x \<le> k r) rows = filter (\<lambda>x. x = r) rows"
    using r assms(2) by (intro filter_cong) (auto dest: inj_onD order_antisym)
  moreover have "length (filter (\<lambda>x. x = r) rows) = 1"
    using assms(1,3) by (induction rows) (auto simp: filter_empty_conv)
  ultimately show "rank k rows r = 1" by (simp add: rank_def count_where_def)
qed

lemma rank_strict_mono:
  assumes "x \<in> set rows" "k r < k x"
  shows "rank k rows r < rank k rows x"
  unfolding rank_def using assms by (intro count_where_strict[where x = x]) auto

lemma rank_inj:
  assumes "r \<in> set rows" "x \<in> set rows" "inj_on k (set rows)" "rank k rows r = rank k rows x"
  shows "r = x"
  using assms rank_strict_mono[of r rows k x] rank_strict_mono[of x rows k r]
  by (metis inj_onD less_irrefl linorder_neqE)

text \<open>The rank is the one-based index in the sorted queue.\<close>

lemma rank_sort_key: "rank k (sort_key k rows) r = rank k rows r"
proof -
  have "mset (filter (\<lambda>x. k x \<le> k r) (sort_key k rows)) = mset (filter (\<lambda>x. k x \<le> k r) rows)"
    by simp
  then show ?thesis unfolding rank_def count_where_def by (metis size_mset)
qed

lemma rank_sorted_nth:
  assumes "sorted (map k rows)" "distinct (map k rows)" "n < length rows"
  shows "rank k rows (rows ! n) = Suc n"
proof -
  have le: "k (rows ! i) \<le> k (rows ! n) \<longleftrightarrow> i \<le> n" if "i < length rows" for i
  proof
    assume "k (rows ! i) \<le> k (rows ! n)"
    show "i \<le> n"
    proof (rule ccontr)
      assume "\<not> i \<le> n"
      with assms(1) that have "k (rows ! n) \<le> k (rows ! i)"
        by (simp add: sorted_iff_nth_mono)
      with \<open>k (rows ! i) \<le> k (rows ! n)\<close> have "map k rows ! i = map k rows ! n"
        using that assms(3) by simp
      with assms(2,3) that \<open>\<not> i \<le> n\<close> show False by (metis length_map nth_eq_iff_index_eq order_refl)
    qed
  next
    assume "i \<le> n"
    with assms(1,3) show "k (rows ! i) \<le> k (rows ! n)" by (simp add: sorted_iff_nth_mono)
  qed
  have "rank k rows (rows ! n) = card {i. i < length rows \<and> k (rows ! i) \<le> k (rows ! n)}"
    by (simp add: rank_def count_where_def length_filter_conv_card)
  also have "{i. i < length rows \<and> k (rows ! i) \<le> k (rows ! n)} = {..n}"
    using le assms(3) by auto
  finally show ?thesis by simp
qed

text \<open>Dequeuing the front row moves every other row forward by exactly one.\<close>

lemma rank_remove_first:
  assumes "first_by k rows = Some r" "inj_on k (set rows)" "distinct rows" "x \<in> set rows" "x \<noteq> r"
  shows "rank k rows x = Suc (rank k (filter (\<lambda>y. y \<noteq> r) rows) x)"
proof -
  note r = first_by_Some[OF assms(1)]
  have "rank k rows x = count_where (\<lambda>y. k y \<le> k x) (filter (\<lambda>y. y \<noteq> r) rows)
      + count_where (\<lambda>y. k y \<le> k x) (filter (\<lambda>y. \<not> y \<noteq> r) rows)"
    by (simp add: rank_def count_where_def) (induction rows, auto)
  moreover have "count_where (\<lambda>y. k y \<le> k x) (filter (\<lambda>y. \<not> y \<noteq> r) rows) = 1"
  proof -
    have "filter (\<lambda>y. \<not> y \<noteq> r) rows = [r]"
      using assms(3) r(1) by (induction rows) (auto simp: filter_empty_conv)
    with r(2)[OF assms(4)] show ?thesis by simp
  qed
  ultimately show ?thesis by (simp add: rank_def)
qed

end
