(* ===== verification/Models.thy ===== *)
theory Models
  imports Identifiers
begin

text \<open>
  The data model of \<open>hefest/models\<close>: one record per Tortoise model with the columns the source
  declares, one datatype per enum, the database as a record of tables, and the row insertions with
  the constraints the schema enforces (primary keys, unique columns, the partial unique index on
  active registrations, foreign keys). A violated constraint is the value \<open>Inl IntegrityError\<close>
  and leaves the table unchanged.
\<close>

section \<open>Enums\<close>

datatype user_role = Student | Organizer

datatype event_status = Draft | Published | EventCancelled

datatype registration_status = Confirmed | Waitlisted | Cancelled

datatype job_status = Pending | Processing | Completed | Failed

datatype refresh_client = Web | Mobile

datatype device_platform = Ios | Android

section \<open>Rows\<close>

text \<open>
  A JSON payload is a dict from strings to strings and integers; the writers of the program store
  nothing else.
\<close>

datatype json_scalar = JStr string | JInt int

type_synonym payload = "string \<rightharpoonup> json_scalar"

record user =
  usr_id :: uuid
  usr_email :: string
  usr_password_hash :: "string option"
  usr_full_name :: string
  usr_role :: user_role
  usr_email_verified_at :: "instant option"
  usr_created_at :: instant

record event =
  evt_id :: uuid
  evt_organizer_id :: uuid
  evt_title :: string
  evt_description :: string
  evt_starts_at :: datetime
  evt_ends_at :: "datetime option"
  evt_location :: string
  evt_capacity :: int
  evt_status :: event_status
  evt_created_at :: instant
  evt_updated_at :: instant

record registration =
  reg_id :: uuid
  reg_event_id :: uuid
  reg_student_id :: uuid
  reg_status :: registration_status
  reg_registered_at :: instant
  reg_cancelled_at :: "instant option"

record notification_job =
  job_id :: uuid
  job_event_id :: "uuid option"
  job_event_type :: string
  job_payload :: payload
  job_status_of :: job_status
  job_idempotency_key :: string
  job_attempts :: int
  job_locked_by :: "string option"
  job_heartbeat_at :: "instant option"
  job_next_attempt_at :: instant
  job_last_error :: "string option"
  job_created_at :: instant
  job_updated_at :: instant

record refresh_token =
  tok_id :: uuid
  tok_user_id :: uuid
  tok_token_hash :: string
  tok_client :: refresh_client
  tok_expires_at :: instant
  tok_revoked_at :: "instant option"
  tok_created_at :: instant

record oauth_identity =
  oid_id :: uuid
  oid_user_id :: uuid
  oid_provider :: string
  oid_subject :: string
  oid_email :: string
  oid_created_at :: instant

record device =
  dev_id :: uuid
  dev_user_id :: uuid
  dev_expo_push_token :: string
  dev_platform :: device_platform
  dev_created_at :: instant
  dev_updated_at :: instant

record db =
  users :: "user list"
  events :: "event list"
  registrations :: "registration list"
  notification_jobs :: "notification_job list"
  refresh_tokens :: "refresh_token list"
  oauth_identities :: "oauth_identity list"
  devices :: "device list"

definition empty_db :: db where
  "empty_db = \<lparr>users = [], events = [], registrations = [], notification_jobs = [],
     refresh_tokens = [], oauth_identities = [], devices = []\<rparr>"

section \<open>Lookups by primary key\<close>

definition user_by_id :: "uuid \<Rightarrow> db \<Rightarrow> user option" where
  "user_by_id i d = get_or_none (\<lambda>u. usr_id u = i) (users d)"

definition event_by_id :: "uuid \<Rightarrow> db \<Rightarrow> event option" where
  "event_by_id i d = get_or_none (\<lambda>e. evt_id e = i) (events d)"

definition registration_by_id :: "uuid \<Rightarrow> db \<Rightarrow> registration option" where
  "registration_by_id i d = get_or_none (\<lambda>r. reg_id r = i) (registrations d)"

section \<open>Insertions and their constraints\<close>

definition active :: "registration \<Rightarrow> bool" where
  "active r \<longleftrightarrow> reg_status r = Confirmed \<or> reg_status r = Waitlisted"

definition has_user :: "uuid \<Rightarrow> db \<Rightarrow> bool" where
  "has_user i d \<longleftrightarrow> i \<in> usr_id ` set (users d)"

definition has_event :: "uuid \<Rightarrow> db \<Rightarrow> bool" where
  "has_event i d \<longleftrightarrow> i \<in> evt_id ` set (events d)"

text \<open>
  Column limits. The ORM checks the length of a \<open>CharField\<close> before it sends the statement; the driver
  refuses an integer that does not fit the 32 bits of an \<open>IntField\<close>.
\<close>

definition fits :: "nat \<Rightarrow> string \<Rightarrow> bool" where
  "fits n s \<longleftrightarrow> length s \<le> n"

definition too_long :: exc where
  "too_long = ValidationError ''Length of value is greater than the maximum''"

definition int32 :: "int \<Rightarrow> bool" where
  "int32 n \<longleftrightarrow> - 2147483648 \<le> n \<and> n \<le> 2147483647"

definition create_user :: "user \<Rightarrow> (db, user) prog" where
  "create_user u d =
     (if \<not> fits 254 (usr_email u) \<or> \<not> fits 255 (usr_full_name u) then (Inl too_long, d)
      else if usr_id u \<in> usr_id ` set (users d) \<or> usr_email u \<in> usr_email ` set (users d)
      then (Inl IntegrityError, d)
      else (Inr u, d\<lparr>users := users d @ [u]\<rparr>))"

definition create_event_row :: "event \<Rightarrow> (db, event) prog" where
  "create_event_row e d =
     (if \<not> int32 (evt_capacity e) then (Inl DataError, d)
      else if evt_id e \<in> evt_id ` set (events d) \<or> \<not> has_user (evt_organizer_id e) d
      then (Inl IntegrityError, d)
      else (Inr e, d\<lparr>events := events d @ [e]\<rparr>))"

text \<open>The partial unique constraint \<open>uq_one_active_registration_per_student\<close>.\<close>

definition create_registration :: "registration \<Rightarrow> (db, registration) prog" where
  "create_registration r d =
     (if reg_id r \<in> reg_id ` set (registrations d)
         \<or> (active r \<and> (\<exists>x\<in>set (registrations d). active x
              \<and> reg_event_id x = reg_event_id r \<and> reg_student_id x = reg_student_id r))
         \<or> \<not> has_event (reg_event_id r) d \<or> \<not> has_user (reg_student_id r) d
      then (Inl IntegrityError, d)
      else (Inr r, d\<lparr>registrations := registrations d @ [r]\<rparr>))"

definition event_fk_ok :: "uuid option \<Rightarrow> db \<Rightarrow> bool" where
  "event_fk_ok eo d = (case eo of None \<Rightarrow> True | Some i \<Rightarrow> has_event i d)"

definition create_job :: "notification_job \<Rightarrow> (db, notification_job) prog" where
  "create_job j d =
     (if job_id j \<in> job_id ` set (notification_jobs d)
         \<or> job_idempotency_key j \<in> job_idempotency_key ` set (notification_jobs d)
         \<or> \<not> event_fk_ok (job_event_id j) d
      then (Inl IntegrityError, d)
      else (Inr j, d\<lparr>notification_jobs := notification_jobs d @ [j]\<rparr>))"

text \<open>One multi-row insert: either every row goes in or none does.\<close>

definition bulk_create_jobs :: "notification_job list \<Rightarrow> (db, unit) prog" where
  "bulk_create_jobs js d =
     (if distinct (map job_id js) \<and> distinct (map job_idempotency_key js)
         \<and> (\<forall>j\<in>set js. job_id j \<notin> job_id ` set (notification_jobs d)
              \<and> job_idempotency_key j \<notin> job_idempotency_key ` set (notification_jobs d)
              \<and> event_fk_ok (job_event_id j) d)
      then (Inr (), d\<lparr>notification_jobs := notification_jobs d @ js\<rparr>)
      else (Inl IntegrityError, d))"

definition create_refresh_token :: "refresh_token \<Rightarrow> (db, refresh_token) prog" where
  "create_refresh_token t d =
     (if tok_id t \<in> tok_id ` set (refresh_tokens d)
         \<or> tok_token_hash t \<in> tok_token_hash ` set (refresh_tokens d)
         \<or> \<not> has_user (tok_user_id t) d
      then (Inl IntegrityError, d)
      else (Inr t, d\<lparr>refresh_tokens := refresh_tokens d @ [t]\<rparr>))"

definition create_oauth_identity :: "oauth_identity \<Rightarrow> (db, oauth_identity) prog" where
  "create_oauth_identity i d =
     (if \<not> fits 32 (oid_provider i) \<or> \<not> fits 255 (oid_subject i) \<or> \<not> fits 254 (oid_email i) then (Inl too_long, d)
      else if oid_id i \<in> oid_id ` set (oauth_identities d)
         \<or> (\<exists>x\<in>set (oauth_identities d). oid_provider x = oid_provider i \<and> oid_subject x = oid_subject i)
         \<or> \<not> has_user (oid_user_id i) d
      then (Inl IntegrityError, d)
      else (Inr i, d\<lparr>oauth_identities := oauth_identities d @ [i]\<rparr>))"

text \<open>A new outbox row: the model's defaults and the three \<open>auto_now\<close> columns.\<close>

definition new_job :: "uuid \<Rightarrow> uuid option \<Rightarrow> string \<Rightarrow> payload \<Rightarrow> string \<Rightarrow> instant \<Rightarrow> notification_job" where
  "new_job i eo typ p key now = \<lparr>job_id = i, job_event_id = eo, job_event_type = typ,
     job_payload = p, job_status_of = Pending, job_idempotency_key = key, job_attempts = 0,
     job_locked_by = None, job_heartbeat_at = None, job_next_attempt_at = now,
     job_last_error = None, job_created_at = now, job_updated_at = now\<rparr>"

lemma new_job_simps [simp]:
  "job_id (new_job i eo typ p key now) = i"
  "job_event_id (new_job i eo typ p key now) = eo"
  "job_event_type (new_job i eo typ p key now) = typ"
  "job_payload (new_job i eo typ p key now) = p"
  "job_status_of (new_job i eo typ p key now) = Pending"
  "job_idempotency_key (new_job i eo typ p key now) = key"
  "job_attempts (new_job i eo typ p key now) = 0"
  "job_locked_by (new_job i eo typ p key now) = None"
  "job_heartbeat_at (new_job i eo typ p key now) = None"
  "job_next_attempt_at (new_job i eo typ p key now) = now"
  "job_last_error (new_job i eo typ p key now) = None"
  by (simp_all add: new_job_def)

lemmas create_defs = create_user_def create_event_row_def create_registration_def create_job_def
  create_refresh_token_def create_oauth_identity_def

lemma has_user_simps [simp]:
  "has_user i (d\<lparr>events := es\<rparr>) = has_user i d"
  "has_user i (d\<lparr>registrations := rs\<rparr>) = has_user i d"
  "has_user i (d\<lparr>notification_jobs := js\<rparr>) = has_user i d"
  by (simp_all add: has_user_def)

lemma has_event_simps [simp]:
  "has_event i (d\<lparr>users := us\<rparr>) = has_event i d"
  "has_event i (d\<lparr>registrations := rs\<rparr>) = has_event i d"
  "has_event i (d\<lparr>notification_jobs := js\<rparr>) = has_event i d"
  by (simp_all add: has_event_def)

lemma event_fk_ok_simps [simp]:
  "event_fk_ok (Some i) d = has_event i d"
  "event_fk_ok None d"
  by (simp_all add: event_fk_ok_def)

lemma event_by_id_Some: "event_by_id i d = Some e \<Longrightarrow> e \<in> set (events d) \<and> evt_id e = i"
  by (auto simp: event_by_id_def dest: get_or_none_Some)

lemma registration_by_id_Some:
  "registration_by_id i d = Some r \<Longrightarrow> r \<in> set (registrations d) \<and> reg_id r = i"
  by (auto simp: registration_by_id_def dest: get_or_none_Some)

lemma user_by_id_Some: "user_by_id i d = Some u \<Longrightarrow> u \<in> set (users d) \<and> usr_id u = i"
  by (auto simp: user_by_id_def dest: get_or_none_Some)

lemma has_user_iff: "has_user i d \<longleftrightarrow> user_by_id i d \<noteq> None"
  by (auto simp: has_user_def user_by_id_def get_or_none_None)

lemma event_by_id_has: "event_by_id i d = Some e \<Longrightarrow> has_event i d"
  by (auto dest!: event_by_id_Some simp: has_event_def)

lemma create_job_Inr:
  "create_job j d = (Inr x, d') \<longleftrightarrow> x = j \<and> d' = d\<lparr>notification_jobs := notification_jobs d @ [j]\<rparr>
     \<and> job_id j \<notin> job_id ` set (notification_jobs d)
     \<and> job_idempotency_key j \<notin> job_idempotency_key ` set (notification_jobs d)
     \<and> event_fk_ok (job_event_id j) d"
  by (auto simp: create_job_def)

lemma create_registration_Inr:
  "create_registration r d = (Inr x, d') \<longleftrightarrow> x = r
     \<and> d' = d\<lparr>registrations := registrations d @ [r]\<rparr>
     \<and> reg_id r \<notin> reg_id ` set (registrations d)
     \<and> \<not> (active r \<and> (\<exists>x\<in>set (registrations d). active x
          \<and> reg_event_id x = reg_event_id r \<and> reg_student_id x = reg_student_id r))
     \<and> has_event (reg_event_id r) d \<and> has_user (reg_student_id r) d"
  by (auto simp: create_registration_def)

lemma create_registration_Inl:
  "create_registration r d = (Inl e, d') \<Longrightarrow> e = IntegrityError \<and> d' = d"
  by (auto simp: create_registration_def split: if_splits)

section \<open>Schema invariant\<close>

text \<open>What the constraints above keep true of the tables the services write.\<close>

definition schema_ok :: "db \<Rightarrow> bool" where
  "schema_ok d \<longleftrightarrow>
     distinct (map usr_id (users d)) \<and> distinct (map usr_email (users d))
     \<and> distinct (map evt_id (events d))
     \<and> distinct (map reg_id (registrations d))
     \<and> distinct (map (\<lambda>r. (reg_event_id r, reg_student_id r)) (filter active (registrations d)))
     \<and> (\<forall>r\<in>set (registrations d). has_event (reg_event_id r) d \<and> has_user (reg_student_id r) d)
     \<and> distinct (map job_id (notification_jobs d))
     \<and> distinct (map job_idempotency_key (notification_jobs d))"

lemma schema_ok_empty: "schema_ok empty_db"
  by (simp add: schema_ok_def empty_db_def)

lemma schema_ok_D:
  assumes "schema_ok d"
  shows "distinct (map evt_id (events d))" and "distinct (map reg_id (registrations d))"
    and "distinct (map (\<lambda>r. (reg_event_id r, reg_student_id r)) (filter active (registrations d)))"
    and "distinct (map job_idempotency_key (notification_jobs d))"
    and "distinct (map job_id (notification_jobs d))"
    and "distinct (map usr_id (users d))"
  using assms by (simp_all add: schema_ok_def)

lemma schema_ok_fk: "schema_ok d \<Longrightarrow> r \<in> set (registrations d) \<Longrightarrow> has_event (reg_event_id r) d"
  by (simp add: schema_ok_def)

lemma event_by_id_eq: "schema_ok d \<Longrightarrow> e \<in> set (events d) \<Longrightarrow> event_by_id (evt_id e) d = Some e"
  unfolding event_by_id_def by (rule get_or_none_pk) (simp_all add: schema_ok_D)

lemma registration_by_id_eq:
  "schema_ok d \<Longrightarrow> r \<in> set (registrations d) \<Longrightarrow> registration_by_id (reg_id r) d = Some r"
  unfolding registration_by_id_def by (rule get_or_none_pk) (simp_all add: schema_ok_D)

end
