(* ===== verification/Registrations.thy ===== *)
theory Registrations
  imports Models
begin

text \<open>
  The registration service (\<open>hefest/services/registration.py\<close>): registering a student for an
  event, cancelling a registration with promotion of the next waitlisted student, and the two
  list queries. Each handler is one definition; the parts of a handler that other statements refer
  to (the seat decision, the promotion) are definitions of their own that the handler calls.
  New primary keys and readings of the clock are arguments.
\<close>

section \<open>Responses and errors\<close>

record registration_response =
  resp_id :: uuid
  resp_event_id :: uuid
  resp_student_id :: uuid
  resp_status :: registration_status
  resp_registered_at :: instant
  resp_waitlist_position :: "int option"

record my_registration =
  my_id :: uuid
  my_event_id :: uuid
  my_status :: registration_status
  my_registered_at :: instant
  my_cancelled_at :: "instant option"
  my_waitlist_position :: "int option"

record registration_summary =
  sum_id :: uuid
  sum_student_id :: uuid
  sum_student_name :: string
  sum_student_email :: string
  sum_status :: registration_status
  sum_registered_at :: instant

definition event_not_found :: exc where
  "event_not_found = HTTPException 404 ''event not found'' []"

definition already_registered :: exc where
  "already_registered = HTTPException 409 ''already registered for this event'' []"

definition registration_not_found :: exc where
  "registration_not_found = HTTPException 404 ''registration not found'' []"

definition already_cancelled :: exc where
  "already_cancelled = HTTPException 409 ''registration already cancelled'' []"

definition event_already_started :: exc where
  "event_already_started =
     HTTPException 409 ''event already started'' [(''X-Error-Code'', ''event_already_started'')]"

definition except_integrity :: "('s, 'a) prog \<Rightarrow> exc \<Rightarrow> ('s, 'a) prog" where
  "except_integrity m e s =
     (case m s of (Inl x, s') \<Rightarrow> (Inl (if x = IntegrityError then e else x), s') | (Inr v, s') \<Rightarrow> (Inr v, s'))"

section \<open>Seats and the waitlist\<close>

definition fifo :: "registration \<Rightarrow> fifo_key" where
  "fifo r = FifoKey (reg_registered_at r) (reg_id r)"

definition has_status :: "uuid \<Rightarrow> registration_status \<Rightarrow> registration \<Rightarrow> bool" where
  "has_status eid st r \<longleftrightarrow> reg_event_id r = eid \<and> reg_status r = st"

definition confirmed_count :: "uuid \<Rightarrow> db \<Rightarrow> nat" where
  "confirmed_count eid d = count_where (has_status eid Confirmed) (registrations d)"

definition waitlist_count :: "uuid \<Rightarrow> db \<Rightarrow> nat" where
  "waitlist_count eid d = count_where (has_status eid Waitlisted) (registrations d)"

definition waitlisted_rows :: "uuid \<Rightarrow> db \<Rightarrow> registration list" where
  "waitlisted_rows eid d = filter (has_status eid Waitlisted) (registrations d)"

section \<open>register\_student\<close>

definition seat_decision :: "event \<Rightarrow> db \<Rightarrow> registration_status \<times> string \<times> int option" where
  "seat_decision event d =
     (if int (confirmed_count (evt_id event) d) < evt_capacity event
      then (Confirmed, ''RegistrationConfirmed'', None)
      else (Waitlisted, ''RegistrationWaitlisted'', Some (int (waitlist_count (evt_id event) d) + 1)))"

definition registration_payload :: "registration \<Rightarrow> string \<Rightarrow> int option \<Rightarrow> payload" where
  "registration_payload r title pos =
     (let base = [''registration_id'' \<mapsto> JStr (str_uuid (reg_id r)),
                  ''event_id'' \<mapsto> JStr (str_uuid (reg_event_id r)),
                  ''student_id'' \<mapsto> JStr (str_uuid (reg_student_id r)),
                  ''event_title'' \<mapsto> JStr title]
      in case pos of None \<Rightarrow> base | Some p \<Rightarrow> base(''waitlist_position'' \<mapsto> JInt p))"

definition register_student ::
  "user \<Rightarrow> uuid \<Rightarrow> uuid \<Rightarrow> uuid \<Rightarrow> instant \<Rightarrow> instant \<Rightarrow> (db, registration_response) prog" where
  "register_student student event_id new_reg_id new_job_id reg_now job_now = in_transaction (\<lambda>d.
     case event_by_id event_id d of
       None \<Rightarrow> raise event_not_found d
     | Some event \<Rightarrow>
         if evt_status event \<noteq> Published then raise event_not_found d
         else
           let (st, event_type, position) = seat_decision event d;
               reg = \<lparr>reg_id = new_reg_id, reg_event_id = event_id, reg_student_id = usr_id student,
                      reg_status = st, reg_registered_at = reg_now, reg_cancelled_at = None\<rparr>
           in and_then (except_integrity (create_registration reg) already_registered) (\<lambda>reg.
              and_then (create_job (new_job new_job_id (Some event_id) event_type
                          (registration_payload reg (evt_title event) position)
                          (idempotency_key (reg_id reg) event_type) job_now)) (\<lambda>_.
              ret \<lparr>resp_id = reg_id reg, resp_event_id = event_id, resp_student_id = usr_id student,
                   resp_status = st, resp_registered_at = reg_registered_at reg,
                   resp_waitlist_position = position\<rparr>)) d)"

section \<open>cancel\_registration\<close>

definition save_registration :: "uuid \<Rightarrow> (registration \<Rightarrow> registration) \<Rightarrow> db \<Rightarrow> db" where
  "save_registration i f d = d\<lparr>registrations := update_where (\<lambda>r. reg_id r = i) f (registrations d)\<rparr>"

definition promotion_job :: "event \<Rightarrow> uuid \<Rightarrow> uuid \<Rightarrow> instant \<Rightarrow> registration \<Rightarrow> notification_job" where
  "promotion_job event eid new_job_id now next_waitlisted =
     new_job new_job_id (Some eid) ''WaitlistPromoted''
       [''registration_id'' \<mapsto> JStr (str_uuid (reg_id next_waitlisted)),
        ''event_id'' \<mapsto> JStr (str_uuid eid),
        ''student_id'' \<mapsto> JStr (str_uuid (reg_student_id next_waitlisted)),
        ''event_title'' \<mapsto> JStr (evt_title event)]
       (idempotency_key (reg_id next_waitlisted) ''WaitlistPromoted'') now"

definition promote_next_waitlisted :: "event \<Rightarrow> uuid \<Rightarrow> uuid \<Rightarrow> instant \<Rightarrow> (db, registration option) prog" where
  "promote_next_waitlisted event eid new_job_id now d =
     (case first_by fifo (waitlisted_rows eid d) of
        None \<Rightarrow> ret None d
      | Some next_waitlisted \<Rightarrow>
          and_then (create_job (promotion_job event eid new_job_id now next_waitlisted))
            (\<lambda>_. ret (Some next_waitlisted))
            (save_registration (reg_id next_waitlisted) (\<lambda>r. r\<lparr>reg_status := Confirmed\<rparr>) d))"

definition cancellation_job :: "user \<Rightarrow> uuid \<Rightarrow> instant \<Rightarrow> registration \<Rightarrow> notification_job" where
  "cancellation_job student new_job_id now reg =
     new_job new_job_id (Some (reg_event_id reg)) ''RegistrationCancelled''
       [''registration_id'' \<mapsto> JStr (str_uuid (reg_id reg)),
        ''event_id'' \<mapsto> JStr (str_uuid (reg_event_id reg)),
        ''student_id'' \<mapsto> JStr (str_uuid (usr_id student))]
       (idempotency_key (reg_id reg) ''RegistrationCancelled'') now"

text \<open>
  The handler reads the registration before it holds the event lock and again under it, so it is a
  function of two stores: \<open>snapshot\<close>, seen by the first read, and the store at the moment the lock
  is granted, which everything after the lock reads and writes.
\<close>

definition cancel_registration ::
  "user \<Rightarrow> uuid \<Rightarrow> uuid \<Rightarrow> uuid \<Rightarrow> instant \<Rightarrow> instant \<Rightarrow> instant \<Rightarrow> db \<Rightarrow> (db, registration) prog" where
  "cancel_registration student rid promo_job_id cancel_job_id now cancel_now job_now snapshot =
     in_transaction (\<lambda>d.
       case get_or_none (\<lambda>r. reg_id r = rid \<and> reg_student_id r = usr_id student) (registrations snapshot) of
         None \<Rightarrow> raise registration_not_found d
       | Some reg0 \<Rightarrow>
           if reg_status reg0 = Cancelled then raise already_cancelled d
           else (case event_by_id (reg_event_id reg0) d of
             None \<Rightarrow> raise event_not_found d
           | Some event \<Rightarrow> (case registration_by_id rid d of
               None \<Rightarrow> raise DoesNotExist d
             | Some reg \<Rightarrow>
                 if reg_status reg = Cancelled then raise already_cancelled d
                 else if replace_tzinfo_utc (evt_starts_at event) \<le> now then raise event_already_started d
                 else
                   let cancelled = reg\<lparr>reg_status := Cancelled, reg_cancelled_at := Some cancel_now\<rparr>;
                       d1 = save_registration rid
                              (\<lambda>r. r\<lparr>reg_status := Cancelled, reg_cancelled_at := Some cancel_now\<rparr>) d
                   in and_then (if reg_status reg = Confirmed
                                then promote_next_waitlisted event (reg_event_id reg) promo_job_id job_now
                                else ret None) (\<lambda>_.
                      and_then (create_job (cancellation_job student cancel_job_id job_now reg)) (\<lambda>_.
                      ret cancelled)) d1)))"

section \<open>The list queries\<close>

definition waitlist_position_of :: "registration \<Rightarrow> db \<Rightarrow> int" where
  "waitlist_position_of reg d =
     int (count_where (\<lambda>r. has_status (reg_event_id reg) Waitlisted r
            \<and> (reg_registered_at r < reg_registered_at reg
               \<or> (reg_registered_at r = reg_registered_at reg \<and> reg_id r \<le> reg_id reg)))
          (registrations d))"

definition list_my_registrations :: "user \<Rightarrow> db \<Rightarrow> my_registration list" where
  "list_my_registrations student d =
     (let regs = filter (\<lambda>r. reg_student_id r = usr_id student \<and> reg_status r \<noteq> Cancelled) (registrations d);
          positions = fold (\<lambda>reg pos. if reg_status reg = Waitlisted
                                      then pos(reg_id reg \<mapsto> waitlist_position_of reg d) else pos)
                        regs Map.empty
      in map (\<lambda>reg. \<lparr>my_id = reg_id reg, my_event_id = reg_event_id reg, my_status = reg_status reg,
                     my_registered_at = reg_registered_at reg, my_cancelled_at = reg_cancelled_at reg,
                     my_waitlist_position = positions (reg_id reg)\<rparr>) regs)"

definition join_students :: "registration list \<Rightarrow> db \<Rightarrow> (registration \<times> user) list" where
  "join_students rows d =
     concat (map (\<lambda>r. map (Pair r) (filter (\<lambda>u. usr_id u = reg_student_id r) (users d))) rows)"

definition list_event_registrations ::
  "user \<Rightarrow> uuid \<Rightarrow> bool \<Rightarrow> nat \<Rightarrow> nat \<Rightarrow> db \<Rightarrow> exc + registration_summary list" where
  "list_event_registrations organizer event_id waitlist_only limit offset d =
     (case event_by_id event_id d of
        None \<Rightarrow> Inl event_not_found
      | Some event \<Rightarrow>
          if evt_organizer_id event \<noteq> usr_id organizer then Inl event_not_found
          else
            let filter_status = (if waitlist_only then Waitlisted else Confirmed);
                joined = join_students (filter (has_status event_id filter_status) (registrations d)) d;
                rows = take limit (drop offset (sort_key (\<lambda>(r, u). fifo r) joined))
            in Inr (map (\<lambda>(r, u). \<lparr>sum_id = reg_id r, sum_student_id = reg_student_id r,
                           sum_student_name = usr_full_name u, sum_student_email = usr_email u,
                           sum_status = reg_status r, sum_registered_at = reg_registered_at r\<rparr>) rows))"

section \<open>What a successful call did\<close>

lemma except_integrity_Inr [simp]:
  "except_integrity m e s = (Inr x, s') \<longleftrightarrow> m s = (Inr x, s')"
  by (auto simp: except_integrity_def split: prod.splits sum.splits)

lemma register_student_err: "register_student student eid rid jid t1 t2 d = (Inl e, d') \<Longrightarrow> d' = d"
  unfolding register_student_def by (rule in_transaction_err)

lemma cancel_registration_err:
  "cancel_registration student rid pj cj now cnow jnow snap d = (Inl e, d') \<Longrightarrow> d' = d"
  unfolding cancel_registration_def by (rule in_transaction_err)

text \<open>
  A snapshot is an earlier store: rows are never deleted and the event and student of a
  registration never change.
\<close>

definition extends :: "db \<Rightarrow> db \<Rightarrow> bool" where
  "extends d d' \<longleftrightarrow> (\<forall>r\<in>set (registrations d). \<exists>r'\<in>set (registrations d').
     reg_id r' = reg_id r \<and> reg_event_id r' = reg_event_id r \<and> reg_student_id r' = reg_student_id r)"

lemma extends_refl [simp]: "extends d d"
  by (auto simp: extends_def)

lemma extends_trans: "extends a b \<Longrightarrow> extends b c \<Longrightarrow> extends a c"
  unfolding extends_def by metis

lemma register_student_effect:
  assumes "register_student student eid rid jid t1 t2 d = (Inr resp, d')"
  obtains ev st ty pos r j where
    "event_by_id eid d = Some ev" "evt_status ev = Published" "seat_decision ev d = (st, ty, pos)"
    "r = \<lparr>reg_id = rid, reg_event_id = eid, reg_student_id = usr_id student, reg_status = st,
         reg_registered_at = t1, reg_cancelled_at = None\<rparr>"
    "j = new_job jid (Some eid) ty (registration_payload r (evt_title ev) pos) (idempotency_key rid ty) t2"
    "create_registration r d = (Inr r, d\<lparr>registrations := registrations d @ [r]\<rparr>)"
    "job_id j \<notin> job_id ` set (notification_jobs d)"
    "job_idempotency_key j \<notin> job_idempotency_key ` set (notification_jobs d)"
    "d' = d\<lparr>registrations := registrations d @ [r], notification_jobs := notification_jobs d @ [j]\<rparr>"
    "resp = \<lparr>resp_id = rid, resp_event_id = eid, resp_student_id = usr_id student, resp_status = st,
            resp_registered_at = t1, resp_waitlist_position = pos\<rparr>"
proof -
  from assms obtain ev where ev: "event_by_id eid d = Some ev" "evt_status ev = Published"
    by (auto simp: register_student_def res_simps split: option.splits if_splits)
  obtain st ty pos where sd: "seat_decision ev d = (st, ty, pos)" by (cases "seat_decision ev d")
  from assms ev sd show thesis
    by (auto simp: register_student_def res_simps and_then_Inr_iff create_registration_Inr create_job_Inr
        intro!: that)
qed

lemma seat_decision_cases:
  "seat_decision ev d = (st, ty, pos) \<Longrightarrow>
     (st = Confirmed \<and> ty = ''RegistrationConfirmed'' \<and> pos = None
        \<and> int (confirmed_count (evt_id ev) d) < evt_capacity ev)
   \<or> (st = Waitlisted \<and> ty = ''RegistrationWaitlisted'' \<and> pos = Some (int (waitlist_count (evt_id ev) d) + 1)
        \<and> evt_capacity ev \<le> int (confirmed_count (evt_id ev) d))"
  by (auto simp: seat_decision_def split: if_splits)

lemma seat_decision_active:
  "seat_decision ev d = (st, ty, pos) \<Longrightarrow> st = Confirmed \<or> st = Waitlisted"
  by (auto dest: seat_decision_cases)

text \<open>The rows a successful cancellation writes: the registration itself and the promoted one.\<close>

definition cancelled_rows :: "uuid \<Rightarrow> instant \<Rightarrow> registration list \<Rightarrow> registration list" where
  "cancelled_rows rid t rows =
     update_where (\<lambda>r. reg_id r = rid) (\<lambda>r. r\<lparr>reg_status := Cancelled, reg_cancelled_at := Some t\<rparr>) rows"

definition promoted_rows :: "registration option \<Rightarrow> registration list \<Rightarrow> registration list" where
  "promoted_rows po rows = (case po of None \<Rightarrow> rows
     | Some n \<Rightarrow> update_where (\<lambda>r. reg_id r = reg_id n) (\<lambda>r. r\<lparr>reg_status := Confirmed\<rparr>) rows)"

definition promotion_of :: "registration \<Rightarrow> db \<Rightarrow> registration option" where
  "promotion_of reg d =
     (if reg_status reg = Confirmed then first_by fifo (waitlisted_rows (reg_event_id reg) d) else None)"

lemma waitlisted_rows_cancelled:
  assumes "distinct (map reg_id (registrations d))" "reg \<in> set (registrations d)" "reg_status reg = Confirmed"
  shows "waitlisted_rows eid (save_registration (reg_id reg)
           (\<lambda>r. r\<lparr>reg_status := Cancelled, reg_cancelled_at := t\<rparr>) d) = waitlisted_rows eid d"
proof -
  have "filter (has_status eid Waitlisted) (update_where (\<lambda>x. reg_id x = reg_id reg)
          (\<lambda>r. r\<lparr>reg_status := Cancelled, reg_cancelled_at := t\<rparr>) (registrations d))
      = filter (\<lambda>x. has_status eid Waitlisted x \<and> reg_id x \<noteq> reg_id reg) (registrations d)"
    using assms by (intro filter_update_pk_drop) (auto simp: has_status_def)
  also have "\<dots> = filter (has_status eid Waitlisted) (registrations d)"
  proof (rule filter_cong[OF refl])
    fix x assume "x \<in> set (registrations d)"
    with assms have "reg_id x = reg_id reg \<Longrightarrow> x = reg" by (metis pk_unique)
    with assms(3) show "(has_status eid Waitlisted x \<and> reg_id x \<noteq> reg_id reg) = has_status eid Waitlisted x"
      by (auto simp: has_status_def)
  qed
  finally show ?thesis by (simp add: waitlisted_rows_def save_registration_def)
qed

lemma promotion_job_simps [simp]:
  "job_id (promotion_job ev eid i t n) = i"
  "job_event_id (promotion_job ev eid i t n) = Some eid"
  "job_event_type (promotion_job ev eid i t n) = ''WaitlistPromoted''"
  "job_status_of (promotion_job ev eid i t n) = Pending"
  "job_idempotency_key (promotion_job ev eid i t n) = idempotency_key (reg_id n) ''WaitlistPromoted''"
  by (simp_all add: promotion_job_def)

lemma cancellation_job_simps [simp]:
  "job_id (cancellation_job s i t r) = i"
  "job_event_id (cancellation_job s i t r) = Some (reg_event_id r)"
  "job_event_type (cancellation_job s i t r) = ''RegistrationCancelled''"
  "job_status_of (cancellation_job s i t r) = Pending"
  "job_idempotency_key (cancellation_job s i t r) = idempotency_key (reg_id r) ''RegistrationCancelled''"
  by (simp_all add: cancellation_job_def)

lemma promote_Inr:
  "promote_next_waitlisted ev eid jid t d = (Inr po, d') \<longleftrightarrow>
     po = first_by fifo (waitlisted_rows eid d)
     \<and> d' = d\<lparr>registrations := promoted_rows po (registrations d),
              notification_jobs := notification_jobs d
                @ (case po of None \<Rightarrow> [] | Some n \<Rightarrow> [promotion_job ev eid jid t n])\<rparr>
     \<and> (\<forall>n. po = Some n \<longrightarrow> jid \<notin> job_id ` set (notification_jobs d) \<and> has_event eid d
          \<and> idempotency_key (reg_id n) ''WaitlistPromoted'' \<notin> job_idempotency_key ` set (notification_jobs d))"
  by (auto simp: promote_next_waitlisted_def res_simps and_then_Inr_iff create_job_Inr promoted_rows_def
      save_registration_def split: option.splits)

lemma save_registration_simps [simp]:
  "notification_jobs (save_registration i f d) = notification_jobs d"
  "users (save_registration i f d) = users d"
  "events (save_registration i f d) = events d"
  "has_event e (save_registration i f d) = has_event e d"
  "registrations (save_registration i f d) = update_where (\<lambda>r. reg_id r = i) f (registrations d)"
  by (simp_all add: save_registration_def)

lemma cancel_registration_effect:
  assumes call: "cancel_registration student rid pj cj now cnow jnow snap d = (Inr c, d')"
    and ok: "schema_ok d" and ext: "extends snap d"
  obtains reg ev where
    "reg \<in> set (registrations d)" "reg_id reg = rid" "reg_student_id reg = usr_id student" "active reg"
    "event_by_id (reg_event_id reg) d = Some ev" "now < replace_tzinfo_utc (evt_starts_at ev)"
    "c = reg\<lparr>reg_status := Cancelled, reg_cancelled_at := Some cnow\<rparr>"
    "d' = d\<lparr>registrations := promoted_rows (promotion_of reg d) (cancelled_rows rid cnow (registrations d)),
           notification_jobs := notification_jobs d
             @ (case promotion_of reg d of None \<Rightarrow> [] | Some n \<Rightarrow> [promotion_job ev (reg_event_id reg) pj jnow n])
             @ [cancellation_job student cj jnow reg]\<rparr>"
    "schema_ok d \<Longrightarrow> distinct (map job_id (notification_jobs d'))"
    "schema_ok d \<Longrightarrow> distinct (map job_idempotency_key (notification_jobs d'))"
proof -
  from call obtain reg0 ev reg where
    r0: "get_or_none (\<lambda>r. reg_id r = rid \<and> reg_student_id r = usr_id student) (registrations snap) = Some reg0"
    and ev: "event_by_id (reg_event_id reg0) d = Some ev"
    and reg: "registration_by_id rid d = Some reg" and act: "reg_status reg \<noteq> Cancelled"
    and start: "now < replace_tzinfo_utc (evt_starts_at ev)"
    by (auto simp: cancel_registration_def res_simps split: option.splits if_splits)
  note reg' = registration_by_id_Some[OF reg]
  from get_or_none_Some[OF r0] ext obtain x where x: "x \<in> set (registrations d)" "reg_id x = rid"
      "reg_event_id x = reg_event_id reg0" "reg_student_id x = usr_id student"
    unfolding extends_def by metis
  from x reg' have "x = reg" using pk_unique[OF schema_ok_D(2)[OF ok]] by blast
  with x have same: "reg_event_id reg0 = reg_event_id reg" "reg_student_id reg = usr_id student" by auto
  have active: "active reg" using act by (cases "reg_status reg") (auto simp: active_def)
  let ?d1 = "save_registration rid (\<lambda>r. r\<lparr>reg_status := Cancelled, reg_cancelled_at := Some cnow\<rparr>) d"
  have wl: "reg_status reg = Confirmed \<Longrightarrow> waitlisted_rows (reg_event_id reg) ?d1 = waitlisted_rows (reg_event_id reg) d"
    using waitlisted_rows_cancelled[OF schema_ok_D(2)[OF ok], of reg] reg' by auto
  have not_started: "\<not> replace_tzinfo_utc (evt_starts_at ev) \<le> now" using start by simp
  have d1: "?d1 = d\<lparr>registrations := cancelled_rows rid cnow (registrations d)\<rparr>"
    by (simp add: save_registration_def cancelled_rows_def)
  obtain po d2 where
    step: "(if reg_status reg = Confirmed then promote_next_waitlisted ev (reg_event_id reg) pj jnow else ret None) ?d1
             = (Inr po, d2)"
    and fin: "create_job (cancellation_job student cj jnow reg) d2 = (Inr (cancellation_job student cj jnow reg), d')"
    and c: "c = reg\<lparr>reg_status := Cancelled, reg_cancelled_at := Some cnow\<rparr>"
    using call r0 ev reg act not_started same
    by (auto simp: cancel_registration_def res_simps and_then_Inr_iff create_job_Inr
        split: option.splits if_splits)
  have po: "po = promotion_of reg d"
    using step wl by (auto simp: promotion_of_def promote_Inr res_simps split: if_splits)
  have d2: "d2 = d\<lparr>registrations := promoted_rows po (cancelled_rows rid cnow (registrations d)),
      notification_jobs := notification_jobs d
        @ (case po of None \<Rightarrow> [] | Some n \<Rightarrow> [promotion_job ev (reg_event_id reg) pj jnow n])\<rparr>"
    using step d1 by (auto simp: promote_Inr res_simps promoted_rows_def split: if_splits)
  have fresh: "\<forall>n. po = Some n \<longrightarrow> pj \<notin> job_id ` set (notification_jobs d)
      \<and> idempotency_key (reg_id n) ''WaitlistPromoted'' \<notin> job_idempotency_key ` set (notification_jobs d)"
    using step by (auto simp: promote_Inr res_simps split: if_splits)
  have d': "d' = d\<lparr>registrations := promoted_rows po (cancelled_rows rid cnow (registrations d)),
      notification_jobs := notification_jobs d
        @ (case po of None \<Rightarrow> [] | Some n \<Rightarrow> [promotion_job ev (reg_event_id reg) pj jnow n])
        @ [cancellation_job student cj jnow reg]\<rparr>"
    using fin by (simp add: create_job_Inr d2)
  have "distinct (map job_id (notification_jobs d')) \<and> distinct (map job_idempotency_key (notification_jobs d'))"
    using fin fresh schema_ok_D(4,5)[OF ok] by (auto simp: create_job_Inr d2 split: option.splits)
  with reg' same active ev start that c d' po show thesis by auto
qed

section \<open>The schema invariant is kept\<close>

text \<open>One map over the rows describes a cancellation with its promotion.\<close>

definition cancel_row :: "uuid \<Rightarrow> instant \<Rightarrow> registration option \<Rightarrow> registration \<Rightarrow> registration" where
  "cancel_row rid t po r =
     (if reg_id r = rid then r\<lparr>reg_status := Cancelled, reg_cancelled_at := Some t\<rparr>
      else if map_option reg_id po = Some (reg_id r) then r\<lparr>reg_status := Confirmed\<rparr> else r)"

lemma cancel_row_simps [simp]:
  "reg_id (cancel_row rid t po r) = reg_id r"
  "reg_event_id (cancel_row rid t po r) = reg_event_id r"
  "reg_student_id (cancel_row rid t po r) = reg_student_id r"
  "reg_registered_at (cancel_row rid t po r) = reg_registered_at r"
  by (simp_all add: cancel_row_def)

lemma cancel_rows_map:
  assumes "map_option reg_id po \<noteq> Some rid"
  shows "promoted_rows po (cancelled_rows rid t rows) = map (cancel_row rid t po) rows"
  using assms
  by (cases po) (auto simp: promoted_rows_def cancelled_rows_def update_where_def cancel_row_def)

lemma promotion_of_Some:
  assumes "promotion_of reg d = Some n"
  shows "n \<in> set (registrations d)" "has_status (reg_event_id reg) Waitlisted n" "reg_status reg = Confirmed"
    and "first_by fifo (waitlisted_rows (reg_event_id reg) d) = Some n"
  using assms first_by_Some(1)[of fifo "waitlisted_rows (reg_event_id reg) d" n]
  by (auto simp: promotion_of_def waitlisted_rows_def split: if_splits)

lemma promotion_of_neq:
  assumes "schema_ok d" "reg \<in> set (registrations d)"
  shows "map_option reg_id (promotion_of reg d) \<noteq> Some (reg_id reg)"
proof
  assume "map_option reg_id (promotion_of reg d) = Some (reg_id reg)"
  then obtain n where n: "promotion_of reg d = Some n" "reg_id n = reg_id reg" by auto
  note p = promotion_of_Some[OF n(1)]
  from p(1) n(2) assms have "n = reg" by (metis pk_unique schema_ok_D(2))
  with p show False by (simp add: has_status_def)
qed

lemma cancel_row_active:
  assumes "schema_ok d" "reg \<in> set (registrations d)" "r \<in> set (registrations d)"
  shows "active (cancel_row (reg_id reg) t (promotion_of reg d) r) \<longleftrightarrow> active r \<and> reg_id r \<noteq> reg_id reg"
proof (cases "map_option reg_id (promotion_of reg d) = Some (reg_id r)")
  case True
  then obtain n where n: "promotion_of reg d = Some n" "reg_id n = reg_id r" by auto
  note p = promotion_of_Some[OF n(1)]
  from p(1) n(2) assms have "n = r" by (metis pk_unique schema_ok_D(2))
  with p True promotion_of_neq[OF assms(1,2)] show ?thesis
    by (auto simp: cancel_row_def active_def has_status_def)
next
  case False
  then show ?thesis by (auto simp: cancel_row_def active_def)
qed

lemma map_filter_map_eq:
  "(\<And>x. x \<in> set rows \<Longrightarrow> g (F x) = g x) \<Longrightarrow> (\<And>x. x \<in> set rows \<Longrightarrow> Q (F x) = R x) \<Longrightarrow>
     map g (filter Q (map F rows)) = map g (filter R rows)"
  by (induction rows) auto

lemma distinct_map_filter_imp:
  "distinct (map g (filter P rows)) \<Longrightarrow> (\<And>x. x \<in> set rows \<Longrightarrow> R x \<Longrightarrow> P x) \<Longrightarrow> distinct (map g (filter R rows))"
  by (induction rows) (auto simp: image_iff split: if_splits)

lemma register_student_schema_ok:
  assumes "register_student student eid rid jid t1 t2 d = (Inr resp, d')" "schema_ok d"
  shows "schema_ok d'"
proof -
  from assms(1) show ?thesis
  proof (rule register_student_effect)
    fix ev st ty pos r j
    assume sd: "seat_decision ev d = (st, ty, pos)"
      and r: "r = \<lparr>reg_id = rid, reg_event_id = eid, reg_student_id = usr_id student, reg_status = st,
         reg_registered_at = t1, reg_cancelled_at = None\<rparr>"
      and cr: "create_registration r d = (Inr r, d\<lparr>registrations := registrations d @ [r]\<rparr>)"
      and j: "job_id j \<notin> job_id ` set (notification_jobs d)"
        "job_idempotency_key j \<notin> job_idempotency_key ` set (notification_jobs d)"
      and d': "d' = d\<lparr>registrations := registrations d @ [r], notification_jobs := notification_jobs d @ [j]\<rparr>"
    have "active r" using seat_decision_active[OF sd] r by (auto simp: active_def)
    with cr j assms(2) show ?thesis
      by (auto simp: d' schema_ok_def create_registration_Inr has_event_def has_user_def)
  qed
qed

lemma cancel_registration_schema_ok:
  assumes "cancel_registration student rid pj cj now cnow jnow snap d = (Inr c, d')" "schema_ok d" "extends snap d"
  shows "schema_ok d'"
  using assms
proof (rule cancel_registration_effect)
  fix reg ev
  assume reg: "reg \<in> set (registrations d)" "reg_id reg = rid"
    and d': "d' = d\<lparr>registrations := promoted_rows (promotion_of reg d) (cancelled_rows rid cnow (registrations d)),
           notification_jobs := notification_jobs d
             @ (case promotion_of reg d of None \<Rightarrow> [] | Some n \<Rightarrow> [promotion_job ev (reg_event_id reg) pj jnow n])
             @ [cancellation_job student cj jnow reg]\<rparr>"
    and dist: "schema_ok d \<Longrightarrow> distinct (map job_id (notification_jobs d'))"
      "schema_ok d \<Longrightarrow> distinct (map job_idempotency_key (notification_jobs d'))"
  let ?F = "cancel_row rid cnow (promotion_of reg d)"
  have rows: "registrations d' = map ?F (registrations d)"
    using cancel_rows_map[OF promotion_of_neq[OF assms(2) reg(1)]] reg(2) by (simp add: d')
  have "map (\<lambda>r. (reg_event_id r, reg_student_id r)) (filter active (map ?F (registrations d)))
      = map (\<lambda>r. (reg_event_id r, reg_student_id r)) (filter (\<lambda>r. active r \<and> reg_id r \<noteq> rid) (registrations d))"
    using cancel_row_active[OF assms(2) reg(1)] reg(2) by (intro map_filter_map_eq) auto
  moreover have "distinct (map (\<lambda>r. (reg_event_id r, reg_student_id r))
      (filter (\<lambda>r. active r \<and> reg_id r \<noteq> rid) (registrations d)))"
    by (rule distinct_map_filter_imp[OF schema_ok_D(3)[OF assms(2)]]) auto
  ultimately have "distinct (map (\<lambda>r. (reg_event_id r, reg_student_id r)) (filter active (registrations d')))"
    by (simp add: rows)
  moreover have "map reg_id (registrations d') = map reg_id (registrations d)" by (simp add: rows comp_def)
  moreover have "\<forall>r\<in>set (registrations d'). has_event (reg_event_id r) d' \<and> has_user (reg_student_id r) d'"
    using assms(2) unfolding rows by (simp add: schema_ok_def d' has_event_def has_user_def)
  moreover have "users d' = users d" "events d' = events d" by (simp_all add: d')
  ultimately show ?thesis using assms(2) dist by (simp add: schema_ok_def)
qed

end
