(* ===== verification/Seat_Spec.thy ===== *)
theory Seat_Spec
  imports Identifiers
begin

text \<open>
  The contract of an event with a capacity and a first-in-first-out waitlist, independent of any
  database: an abstract state, the operations on it, and the locale \<open>seat_system\<close> that a concrete
  system satisfies when each of its steps has the effect of an abstract operation. The locale's
  lemmas (capacity, no idle seat, order of service) then hold for every run of the system.
\<close>

record seats =
  seat_cap :: int
  seat_taken :: "uuid set"
  seat_queue :: "uuid list"

text \<open>
  \<open>Join i p\<close> takes a seat if one is free and otherwise enters the queue at position \<open>p\<close>; a new
  entry that is later than everyone waiting has \<open>p\<close> equal to the length of the queue.
\<close>

datatype seat_op = Join uuid nat | Leave uuid | Skip

fun apply_op :: "seat_op \<Rightarrow> seats \<Rightarrow> seats" where
  "apply_op (Join i p) s =
     (if int (card (seat_taken s)) < seat_cap s then s\<lparr>seat_taken := insert i (seat_taken s)\<rparr>
      else s\<lparr>seat_queue := take p (seat_queue s) @ i # drop p (seat_queue s)\<rparr>)"
| "apply_op (Leave i) s =
     (if i \<in> seat_taken s then
        (case seat_queue s of
           [] \<Rightarrow> s\<lparr>seat_taken := seat_taken s - {i}\<rparr>
         | j # q \<Rightarrow> s\<lparr>seat_taken := insert j (seat_taken s - {i}), seat_queue := q\<rparr>)
      else s\<lparr>seat_queue := filter (\<lambda>x. x \<noteq> i) (seat_queue s)\<rparr>)"
| "apply_op Skip s = s"

fun enabled :: "seat_op \<Rightarrow> seats \<Rightarrow> bool" where
  "enabled (Join i p) s \<longleftrightarrow> i \<notin> seat_taken s \<and> i \<notin> set (seat_queue s)"
| "enabled (Leave i) s \<longleftrightarrow> i \<in> seat_taken s \<or> i \<in> set (seat_queue s)"
| "enabled Skip s \<longleftrightarrow> True"

definition wf_seats :: "seats \<Rightarrow> bool" where
  "wf_seats s \<longleftrightarrow> finite (seat_taken s) \<and> distinct (seat_queue s) \<and> seat_taken s \<inter> set (seat_queue s) = {}"

definition within_capacity :: "seats \<Rightarrow> bool" where
  "within_capacity s \<longleftrightarrow> int (card (seat_taken s)) \<le> seat_cap s"

definition no_idle_seat :: "seats \<Rightarrow> bool" where
  "no_idle_seat s \<longleftrightarrow> (seat_queue s \<noteq> [] \<longrightarrow> seat_cap s \<le> int (card (seat_taken s)))"

lemma apply_op_cap [simp]: "seat_cap (apply_op x s) = seat_cap s"
  by (cases x) (auto split: list.splits)

lemma card_swap:
  "finite A \<Longrightarrow> i \<in> A \<Longrightarrow> j \<notin> A \<Longrightarrow> card (insert j (A - {i})) = card A"
proof -
  assume a: "finite A" "i \<in> A" "j \<notin> A"
  then have "card (insert j (A - {i})) = Suc (card (A - {i}))" by simp
  also have "\<dots> = card A" using a by (intro card_Suc_Diff1)
  finally show ?thesis .
qed

lemma card_taken_Leave:
  assumes "wf_seats s" "i \<in> seat_taken s"
  shows "card (seat_taken (apply_op (Leave i) s)) =
           (if seat_queue s = [] then card (seat_taken s) - 1 else card (seat_taken s))"
  using assms card_swap[of "seat_taken s" i]
  by (cases "seat_queue s") (auto simp: wf_seats_def simp del: card_insert_disjoint)

lemma mset_insert_at: "mset (take p q @ i # drop p q) = mset (i # q)"
proof -
  have "mset (take p q) + mset (drop p q) = mset q" by (metis append_take_drop_id mset_append)
  then show ?thesis by simp
qed

lemma set_insert_at: "set (take p q @ i # drop p q) = insert i (set q)"
  using mset_insert_at[of p q i] by (metis list.simps(15) set_mset_mset)

lemma distinct_insert_at: "distinct (take p q @ i # drop p q) \<longleftrightarrow> i \<notin> set q \<and> distinct q"
  using mset_insert_at[of p q i] by (metis distinct.simps(2) mset_eq_imp_distinct_iff)

lemma apply_op_wf: "wf_seats s \<Longrightarrow> enabled x s \<Longrightarrow> wf_seats (apply_op x s)"
proof (cases x)
  case (Join i p)
  assume "wf_seats s" "enabled x s"
  with Join show ?thesis
    by (auto simp: wf_seats_def set_insert_at distinct_insert_at simp del: set_append distinct_append)
qed (auto simp: wf_seats_def split: list.splits)

lemma apply_op_within_capacity:
  assumes "wf_seats s" "enabled x s" "within_capacity s"
  shows "within_capacity (apply_op x s)"
proof (cases x)
  case (Join i p)
  with assms show ?thesis by (auto simp: wf_seats_def within_capacity_def card_insert_if)
next
  case (Leave i)
  show ?thesis
  proof (cases "i \<in> seat_taken s")
    case True
    with Leave assms show ?thesis
      by (auto simp: within_capacity_def card_taken_Leave simp del: apply_op.simps)
  next
    case False
    with Leave assms show ?thesis by (simp add: within_capacity_def)
  qed
next
  case Skip
  with assms show ?thesis by simp
qed

lemma apply_op_no_idle_seat:
  assumes "wf_seats s" "enabled x s" "no_idle_seat s"
  shows "no_idle_seat (apply_op x s)"
proof (cases x)
  case (Join i p)
  with assms show ?thesis by (auto simp: no_idle_seat_def card_insert_if wf_seats_def)
next
  case (Leave i)
  show ?thesis
  proof (cases "i \<in> seat_taken s")
    case True
    have "seat_queue (apply_op (Leave i) s) \<noteq> [] \<Longrightarrow> seat_queue s \<noteq> []"
      using True by (auto split: list.splits)
    with True Leave assms show ?thesis
      by (auto simp: no_idle_seat_def card_taken_Leave simp del: apply_op.simps)
  next
    case False
    with Leave assms show ?thesis by (auto simp: no_idle_seat_def)
  qed
next
  case Skip
  with assms show ?thesis by simp
qed

text \<open>Order of service: \<open>i\<close> stands before \<open>j\<close> in the queue.\<close>

definition precedes :: "uuid list \<Rightarrow> uuid \<Rightarrow> uuid \<Rightarrow> bool" where
  "precedes q i j \<longleftrightarrow> (\<exists>xs ys zs. q = xs @ i # ys @ j # zs)"

lemma precedes_Cons: "precedes (x # q) i j \<longleftrightarrow> (x = i \<and> j \<in> set q) \<or> precedes q i j"
proof
  assume "precedes (x # q) i j"
  then obtain xs ys zs where e: "x # q = xs @ i # ys @ j # zs" by (auto simp: precedes_def)
  show "(x = i \<and> j \<in> set q) \<or> precedes q i j"
    using e by (cases xs) (auto simp: precedes_def)
next
  assume "(x = i \<and> j \<in> set q) \<or> precedes q i j"
  then show "precedes (x # q) i j"
  proof
    assume "x = i \<and> j \<in> set q"
    then show ?thesis unfolding precedes_def by (metis append_Nil in_set_conv_decomp)
  next
    assume "precedes q i j"
    then show ?thesis unfolding precedes_def by (metis append_Cons)
  qed
qed

lemma precedes_in: "precedes q i j \<Longrightarrow> i \<in> set q \<and> j \<in> set q"
  by (auto simp: precedes_def)

lemma precedes_insert: "precedes q i j \<Longrightarrow> precedes (take p q @ k # drop p q) i j"
proof (induction q arbitrary: p)
  case Nil
  then show ?case by (simp add: precedes_def)
next
  case (Cons x q)
  show ?case
  proof (cases p)
    case 0
    with Cons.prems show ?thesis by (simp add: precedes_Cons)
  next
    case (Suc p')
    from Cons.prems have "(x = i \<and> j \<in> set q) \<or> precedes q i j" by (simp add: precedes_Cons)
    then show ?thesis
    proof
      assume "x = i \<and> j \<in> set q"
      moreover then have "j \<in> set (take p' q) \<or> j \<in> set (drop p' q)"
        by (metis Un_iff append_take_drop_id set_append)
      ultimately show ?thesis using Suc by (auto simp: precedes_Cons)
    next
      assume "precedes q i j"
      with Cons.IH Suc show ?thesis by (simp add: precedes_Cons)
    qed
  qed
qed

lemma precedes_filter: "precedes q i j \<Longrightarrow> P i \<Longrightarrow> P j \<Longrightarrow> precedes (filter P q) i j"
  unfolding precedes_def by force

text \<open>
  A waiting entry overtakes nobody: as long as neither leaves, the one in front is served first,
  so while it still waits the other waits behind it.
\<close>

lemma apply_op_precedes:
  assumes "wf_seats s" "precedes (seat_queue s) i j" "x \<noteq> Leave i" "x \<noteq> Leave j"
  shows "precedes (seat_queue (apply_op x s)) i j \<or> (i \<in> seat_taken (apply_op x s) \<and> i \<notin> set (seat_queue (apply_op x s)))"
proof (cases x)
  case (Join k p)
  with assms show ?thesis by (auto intro: precedes_insert)
next
  case (Leave k)
  have "k \<in> seat_taken s \<Longrightarrow> ?thesis"
    using Leave assms by (auto simp: precedes_Cons wf_seats_def split: list.splits)
  moreover have "k \<notin> seat_taken s \<Longrightarrow> ?thesis"
    using Leave assms by (auto intro: precedes_filter)
  ultimately show ?thesis by blast
next
  case Skip
  with assms show ?thesis by simp
qed

section \<open>Runs and the interface\<close>

primrec run_ops :: "('s \<Rightarrow> 'o \<Rightarrow> 's \<Rightarrow> bool) \<Rightarrow> 'o list \<Rightarrow> 's \<Rightarrow> 's \<Rightarrow> bool" where
  "run_ops step [] s s' \<longleftrightarrow> s' = s"
| "run_ops step (x # xs) s s' \<longleftrightarrow> (\<exists>t. step s x t \<and> run_ops step xs t s')"

locale seat_system =
  fixes view :: "'s \<Rightarrow> seats" and inv :: "'s \<Rightarrow> bool" and step :: "'s \<Rightarrow> seat_op \<Rightarrow> 's \<Rightarrow> bool"
  assumes step_inv: "inv s \<Longrightarrow> step s x s' \<Longrightarrow> inv s'"
    and inv_wf: "inv s \<Longrightarrow> wf_seats (view s)"
    and step_enabled: "inv s \<Longrightarrow> step s x s' \<Longrightarrow> enabled x (view s)"
    and step_view: "inv s \<Longrightarrow> step s x s' \<Longrightarrow> view s' = apply_op x (view s)"
begin

lemma run_inv: "run_ops step xs s s' \<Longrightarrow> inv s \<Longrightarrow> inv s'"
  by (induction xs arbitrary: s) (auto intro: step_inv)

lemma run_view: "run_ops step xs s s' \<Longrightarrow> inv s \<Longrightarrow> view s' = fold apply_op xs (view s)"
proof (induction xs arbitrary: s)
  case (Cons x xs)
  then obtain t where "step s x t" "run_ops step xs t s'" by auto
  with Cons show ?case by (simp add: step_view[symmetric] step_inv)
qed simp

lemma run_within_capacity:
  "run_ops step xs s s' \<Longrightarrow> inv s \<Longrightarrow> within_capacity (view s) \<Longrightarrow> within_capacity (view s')"
proof (induction xs arbitrary: s)
  case (Cons x xs)
  then obtain t where "step s x t" "run_ops step xs t s'" by auto
  with Cons show ?case by (metis apply_op_within_capacity inv_wf step_enabled step_inv step_view)
qed simp

lemma run_no_idle_seat:
  "run_ops step xs s s' \<Longrightarrow> inv s \<Longrightarrow> no_idle_seat (view s) \<Longrightarrow> no_idle_seat (view s')"
proof (induction xs arbitrary: s)
  case (Cons x xs)
  then obtain t where "step s x t" "run_ops step xs t s'" by auto
  with Cons show ?case by (metis apply_op_no_idle_seat inv_wf step_enabled step_inv step_view)
qed simp

lemma run_served_in_order:
  assumes "run_ops step xs s s'" "inv s" "precedes (seat_queue (view s)) i j"
    and "Leave i \<notin> set xs" "Leave j \<notin> set xs"
  shows "precedes (seat_queue (view s')) i j \<or> i \<in> seat_taken (view s')"
proof -
  have "precedes (seat_queue (view s')) i j \<or> i \<in> seat_taken (view s')"
    if "run_ops step xs s s'" "inv s" "Leave i \<notin> set xs" "Leave j \<notin> set xs"
       "precedes (seat_queue (view s)) i j \<or> i \<in> seat_taken (view s)" for s
    using that
  proof (induction xs arbitrary: s)
    case (Cons x xs)
    then obtain t where t: "step s x t" "run_ops step xs t s'" by auto
    note v = step_view[OF Cons.prems(2) t(1)] and w = inv_wf[OF Cons.prems(2)]
    have "precedes (seat_queue (view t)) i j \<or> i \<in> seat_taken (view t)"
      using Cons.prems(5)
    proof
      assume "precedes (seat_queue (view s)) i j"
      with apply_op_precedes[OF w] Cons.prems(3,4) v show ?thesis by (metis list.set_intros(1))
    next
      assume "i \<in> seat_taken (view s)"
      with Cons.prems(3) v show ?thesis by (cases x) (auto split: list.splits)
    qed
    with Cons t show ?case by (auto intro: step_inv)
  qed simp
  with assms show ?thesis by blast
qed

end

end
