(* ===== verification/Registration_Seats.thy ===== *)
theory Registration_Seats
  imports Registrations Seat_Spec
begin

text \<open>
  The registration service implements the contract of \<open>Seat_Spec\<close>. The abstract view of an event
  takes its capacity, the ids of its confirmed registrations and the ids of its waitlist in the
  order the promotion query sorts by. Calls of \<open>register_student\<close> and \<open>cancel_registration\<close>,
  for this event and for others, are the steps; the interpretation \<open>event_seats\<close> shows that each
  step has the abstract effect, and the properties below are its consequences for every run.
\<close>

definition seat_view :: "uuid \<Rightarrow> db \<Rightarrow> seats" where
  "seat_view eid d =
     \<lparr>seat_cap = (case event_by_id eid d of None \<Rightarrow> 0 | Some e \<Rightarrow> evt_capacity e),
      seat_taken = reg_id ` set (filter (has_status eid Confirmed) (registrations d)),
      seat_queue = map reg_id (sort_key fifo (waitlisted_rows eid d))\<rparr>"

text \<open>
  The position a new registration takes in the waitlist. A reading of the clock later than those
  of everyone waiting gives the end of the queue; clocks of several API hosts can disagree, so a
  new registration can also sort before earlier ones.
\<close>

definition insertion_index :: "uuid \<Rightarrow> instant \<Rightarrow> uuid \<Rightarrow> db \<Rightarrow> nat" where
  "insertion_index eid t rid d =
     length (takeWhile (\<lambda>r. fifo r < FifoKey t rid) (sort_key fifo (waitlisted_rows eid d)))"

inductive seat_step :: "uuid \<Rightarrow> db \<Rightarrow> seat_op \<Rightarrow> db \<Rightarrow> bool" for eid where
  register: "register_student student eid rid jid t1 t2 d = (Inr resp, d') \<Longrightarrow>
     seat_step eid d (Join rid (insertion_index eid t1 rid d)) d'"
| register_other: "register_student student e rid jid t1 t2 d = (Inr resp, d') \<Longrightarrow> e \<noteq> eid \<Longrightarrow>
     seat_step eid d Skip d'"
| cancel: "cancel_registration student rid pj cj now cnow jnow snap d = (Inr c, d') \<Longrightarrow> extends snap d \<Longrightarrow>
     reg_event_id c = eid \<Longrightarrow> seat_step eid d (Leave rid) d'"
| cancel_other: "cancel_registration student rid pj cj now cnow jnow snap d = (Inr c, d') \<Longrightarrow> extends snap d \<Longrightarrow>
     reg_event_id c \<noteq> eid \<Longrightarrow> seat_step eid d Skip d'"
| register_error: "register_student student e rid jid t1 t2 d = (Inl ex, d') \<Longrightarrow> seat_step eid d Skip d'"
| cancel_error: "cancel_registration student rid pj cj now cnow jnow snap d = (Inl ex, d') \<Longrightarrow>
     seat_step eid d Skip d'"

inductive_simps seat_step_Join: "seat_step eid d (Join rid p) d'"
inductive_simps seat_step_Leave: "seat_step eid d (Leave rid) d'"
inductive_simps seat_step_Skip: "seat_step eid d Skip d'"

section \<open>The view\<close>

lemma seat_view_simps [simp]:
  "seat_taken (seat_view eid d) = reg_id ` set (filter (has_status eid Confirmed) (registrations d))"
  "seat_queue (seat_view eid d) = map reg_id (sort_key fifo (waitlisted_rows eid d))"
  "event_by_id eid d = Some e \<Longrightarrow> seat_cap (seat_view eid d) = evt_capacity e"
  by (simp_all add: seat_view_def)

lemma inj_reg_id: "schema_ok d \<Longrightarrow> inj_on reg_id (set (registrations d))"
  using schema_ok_D(2) by (simp add: distinct_map)

lemma inj_fifo: "schema_ok d \<Longrightarrow> inj_on fifo (set (registrations d))"
  using inj_reg_id by (auto simp: fifo_def inj_on_def)

lemma distinct_registrations: "schema_ok d \<Longrightarrow> distinct (registrations d)"
  using schema_ok_D(2) by (simp add: distinct_map)

lemma card_confirmed:
  assumes "schema_ok d"
  shows "card (seat_taken (seat_view eid d)) = confirmed_count eid d"
proof -
  have "inj_on reg_id (set (filter (has_status eid Confirmed) (registrations d)))"
    using inj_reg_id[OF assms] by (rule inj_on_subset) auto
  then have "card (seat_taken (seat_view eid d)) = card (set (filter (has_status eid Confirmed) (registrations d)))"
    by (simp add: card_image)
  also have "\<dots> = length (filter (has_status eid Confirmed) (registrations d))"
    using distinct_registrations[OF assms] by (intro distinct_card) simp
  finally show ?thesis by (simp add: confirmed_count_def count_where_def)
qed

lemma length_queue: "length (seat_queue (seat_view eid d)) = waitlist_count eid d"
  by (simp add: waitlist_count_def count_where_def waitlisted_rows_def)

lemma seat_view_wf:
  assumes "schema_ok d"
  shows "wf_seats (seat_view eid d)"
proof -
  have "distinct (map reg_id (sort_key fifo (waitlisted_rows eid d)))"
    using inj_on_subset[OF inj_reg_id[OF assms], of "set (waitlisted_rows eid d)"] distinct_registrations[OF assms]
    by (auto simp: distinct_map waitlisted_rows_def)
  moreover have "seat_taken (seat_view eid d) \<inter> set (seat_queue (seat_view eid d)) = {}"
  proof (rule ccontr)
    assume "seat_taken (seat_view eid d) \<inter> set (seat_queue (seat_view eid d)) \<noteq> {}"
    then obtain x y where "x \<in> set (registrations d)" "y \<in> set (registrations d)" "reg_id x = reg_id y"
        "has_status eid Confirmed x" "has_status eid Waitlisted y"
      by (auto simp: waitlisted_rows_def)
    moreover from this inj_reg_id[OF assms] have "x = y" by (auto dest: inj_onD)
    ultimately show False by (simp add: has_status_def)
  qed
  ultimately show ?thesis by (simp add: wf_seats_def)
qed

lemma insort_key_takeWhile:
  "\<forall>y\<in>set ys. k y \<noteq> k r \<Longrightarrow>
     insort_key k r ys = takeWhile (\<lambda>y. k y < k r) ys @ r # dropWhile (\<lambda>y. k y < k r) ys"
  by (induction ys) auto

lemma sort_key_snoc:
  assumes "\<forall>x\<in>set xs. k x \<noteq> k r" "inj_on k (set xs)"
  shows "sort_key k (xs @ [r]) = (let ys = sort_key k xs; p = length (takeWhile (\<lambda>y. k y < k r) ys)
           in take p ys @ r # drop p ys)"
proof -
  have "sort_key k (xs @ [r]) = sort_key k (r # xs)"
    using assms sorted_sort_key[of k "r # xs"]
    by (intro sort_key_inj_key_eq) (auto simp: inj_on_insert simp del: sort_key_simps)
  also have "\<dots> = insort_key k r (sort_key k xs)" by simp
  finally show ?thesis
    using insort_key_takeWhile[of "sort_key k xs" k r] assms(1)
    by (simp add: Let_def takeWhile_eq_take[symmetric] dropWhile_eq_drop[symmetric])
qed

lemma sort_key_remove_first:
  assumes "first_by k xs = Some n" "distinct xs"
  shows "sort_key k xs = n # sort_key k (filter (\<lambda>x. x \<noteq> n) xs)"
proof -
  from assms(1) obtain rs where rs: "sort_key k xs = n # rs"
    by (auto simp: first_by_def split: list.splits)
  have "distinct (sort_key k xs)" using assms(2) by simp
  with rs have "filter (\<lambda>x. x \<noteq> n) (sort_key k xs) = rs" by (auto simp: filter_id_conv)
  then have "sort_key k (filter (\<lambda>x. x \<noteq> n) xs) = rs" by (simp only: filter_sort)
  with rs show ?thesis by simp
qed

section \<open>Registering\<close>

lemma register_view:
  assumes call: "register_student student e rid jid t1 t2 d = (Inr resp, d')" and ok: "schema_ok d"
  shows "e = eid \<Longrightarrow> enabled (Join rid p) (seat_view eid d)
      \<and> seat_view eid d' = apply_op (Join rid (insertion_index eid t1 rid d)) (seat_view eid d)"
    and "e \<noteq> eid \<Longrightarrow> seat_view eid d' = seat_view eid d"
proof -
  let ?p = "insertion_index eid t1 rid d"
  from call show "e = eid \<Longrightarrow> enabled (Join rid p) (seat_view eid d)
      \<and> seat_view eid d' = apply_op (Join rid ?p) (seat_view eid d)"
  proof (rule register_student_effect)
    fix ev st ty pos r j
    assume eq: "e = eid"
      and ev: "event_by_id e d = Some ev" and sd: "seat_decision ev d = (st, ty, pos)"
      and r: "r = \<lparr>reg_id = rid, reg_event_id = e, reg_student_id = usr_id student, reg_status = st,
         reg_registered_at = t1, reg_cancelled_at = None\<rparr>"
      and cr: "create_registration r d = (Inr r, d\<lparr>registrations := registrations d @ [r]\<rparr>)"
      and d': "d' = d\<lparr>registrations := registrations d @ [r], notification_jobs := notification_jobs d @ [j]\<rparr>"
    have fresh: "rid \<notin> reg_id ` set (registrations d)" using cr r by (simp add: create_registration_Inr)
    then have en: "enabled (Join rid p) (seat_view eid d)" by (auto simp: waitlisted_rows_def)
    have same: "event_by_id eid d' = Some ev" using ev eq by (simp add: d' event_by_id_def)
    have id: "evt_id ev = eid" using event_by_id_Some[OF ev] eq by simp
    from seat_decision_cases[OF sd] show ?thesis
    proof
      assume c: "st = Confirmed \<and> ty = ''RegistrationConfirmed'' \<and> pos = None
        \<and> int (confirmed_count (evt_id ev) d) < evt_capacity ev"
      then have "seat_view eid d' = (seat_view eid d)\<lparr>seat_taken := insert rid (seat_taken (seat_view eid d))\<rparr>"
        using same ev eq r by (auto simp: seat_view_def d' has_status_def waitlisted_rows_def)
      with c en card_confirmed[OF ok, of eid] ev eq id show ?thesis by simp
    next
      assume c: "st = Waitlisted \<and> ty = ''RegistrationWaitlisted'' \<and> pos = Some (int (waitlist_count (evt_id ev) d) + 1)
        \<and> evt_capacity ev \<le> int (confirmed_count (evt_id ev) d)"
      have inj: "inj_on fifo (set (waitlisted_rows eid d))"
        using inj_fifo[OF ok] by (rule inj_on_subset) (auto simp: waitlisted_rows_def)
      have "waitlisted_rows eid d' = waitlisted_rows eid d @ [r]"
        using c r eq by (simp add: waitlisted_rows_def d' has_status_def)
      moreover have "sort_key fifo (waitlisted_rows eid d @ [r])
          = take ?p (sort_key fifo (waitlisted_rows eid d)) @ r # drop ?p (sort_key fifo (waitlisted_rows eid d))"
      proof -
        have "\<forall>x\<in>set (waitlisted_rows eid d). fifo x \<noteq> fifo r"
          using fresh r by (auto simp: fifo_def waitlisted_rows_def)
        from sort_key_snoc[OF this inj] r show ?thesis by (simp add: insertion_index_def fifo_def Let_def)
      qed
      ultimately have "seat_view eid d' = (seat_view eid d)\<lparr>seat_queue :=
          take ?p (seat_queue (seat_view eid d)) @ rid # drop ?p (seat_queue (seat_view eid d))\<rparr>"
        using same ev eq r c by (auto simp: seat_view_def d' has_status_def take_map drop_map)
      with c en card_confirmed[OF ok, of eid] ev eq id show ?thesis by simp
    qed
  qed
next
  from call show "e \<noteq> eid \<Longrightarrow> seat_view eid d' = seat_view eid d"
    by (rule register_student_effect) (simp add: seat_view_def event_by_id_def waitlisted_rows_def has_status_def)
qed

section \<open>Cancelling\<close>

lemma promotion_row:
  assumes "schema_ok d" "x \<in> set (registrations d)"
  shows "map_option reg_id (promotion_of reg d) = Some (reg_id x) \<longleftrightarrow> promotion_of reg d = Some x"
  using promotion_of_Some(1)[of reg d] inj_onD[OF inj_reg_id[OF assms(1)]] assms(2) by auto

lemma cancel_taken:
  assumes ok: "schema_ok d" and reg: "reg \<in> set (registrations d)"
  shows "reg_id ` set (filter (has_status eid Confirmed)
            (map (cancel_row (reg_id reg) t (promotion_of reg d)) (registrations d)))
       = reg_id ` set (filter (has_status eid Confirmed) (registrations d)) - {reg_id reg}
         \<union> {reg_id n | n. promotion_of reg d = Some n \<and> reg_event_id reg = eid}" (is "?L = ?R")
proof -
  have conf: "has_status eid Confirmed (cancel_row (reg_id reg) t (promotion_of reg d) x) \<longleftrightarrow>
      reg_id x \<noteq> reg_id reg \<and> reg_event_id x = eid \<and> (promotion_of reg d = Some x \<or> reg_status x = Confirmed)"
    if "x \<in> set (registrations d)" for x
    using promotion_row[OF ok that, of reg] by (auto simp: cancel_row_def has_status_def)
  have neq: "promotion_of reg d = Some n \<Longrightarrow> reg_id n \<noteq> reg_id reg \<and> n \<in> set (registrations d) \<and> reg_event_id n = reg_event_id reg" for n
    using promotion_of_neq[OF ok reg] promotion_of_Some[of reg d n] by (auto simp: has_status_def)
  have "?L = reg_id ` {x \<in> set (registrations d). has_status eid Confirmed (cancel_row (reg_id reg) t (promotion_of reg d) x)}"
    by (force simp: image_iff)
  also have "\<dots> = reg_id ` {x \<in> set (registrations d). reg_id x \<noteq> reg_id reg \<and> reg_event_id x = eid
      \<and> (promotion_of reg d = Some x \<or> reg_status x = Confirmed)}"
    using conf by (intro arg_cong[where f = "image reg_id"]) blast
  also have "\<dots> = ?R"
  proof (cases "promotion_of reg d")
    case None
    then show ?thesis by (auto simp: has_status_def image_iff)
  next
    case (Some n)
    with neq[OF Some] show ?thesis by (auto simp: has_status_def image_iff)
  qed
  finally show ?thesis .
qed

lemma cancel_waitlisted:
  assumes ok: "schema_ok d" and reg: "reg \<in> set (registrations d)"
  shows "filter (has_status eid Waitlisted) (map (cancel_row (reg_id reg) t (promotion_of reg d)) (registrations d))
       = filter (\<lambda>x. x \<noteq> reg \<and> promotion_of reg d \<noteq> Some x) (waitlisted_rows eid d)"
proof -
  have F: "cancel_row (reg_id reg) t (promotion_of reg d) x =
      (if x = reg then x\<lparr>reg_status := Cancelled, reg_cancelled_at := Some t\<rparr>
       else if promotion_of reg d = Some x then x\<lparr>reg_status := Confirmed\<rparr> else x)"
    if "x \<in> set (registrations d)" for x
    using promotion_row[OF ok that, of reg] inj_onD[OF inj_reg_id[OF ok] _ that reg] by (auto simp: cancel_row_def)
  have "filter (has_status eid Waitlisted) (map G rows) = filter (\<lambda>x. has_status eid Waitlisted x \<and> x \<noteq> reg \<and> promotion_of reg d \<noteq> Some x) rows"
    if "\<And>x. x \<in> set rows \<Longrightarrow> G x = (if x = reg then x\<lparr>reg_status := Cancelled, reg_cancelled_at := Some t\<rparr>
       else if promotion_of reg d = Some x then x\<lparr>reg_status := Confirmed\<rparr> else x)" for G rows
    using that by (induction rows) (auto simp: has_status_def)
  from this[OF F] show ?thesis by (simp add: waitlisted_rows_def conj_commute conj_left_commute)
qed

lemma cancel_view:
  assumes call: "cancel_registration student rid pj cj now cnow jnow snap d = (Inr c, d')"
    and ok: "schema_ok d" and ext: "extends snap d"
  shows "reg_event_id c = eid \<Longrightarrow>
      enabled (Leave rid) (seat_view eid d) \<and> seat_view eid d' = apply_op (Leave rid) (seat_view eid d)"
    and "reg_event_id c \<noteq> eid \<Longrightarrow> seat_view eid d' = seat_view eid d"
proof -
  obtain reg ev where reg: "reg \<in> set (registrations d)" "reg_id reg = rid" "active reg"
    and c: "c = reg\<lparr>reg_status := Cancelled, reg_cancelled_at := Some cnow\<rparr>"
    and d': "d' = d\<lparr>registrations := promoted_rows (promotion_of reg d) (cancelled_rows rid cnow (registrations d)),
           notification_jobs := notification_jobs d
             @ (case promotion_of reg d of None \<Rightarrow> [] | Some n \<Rightarrow> [promotion_job ev (reg_event_id reg) pj jnow n])
             @ [cancellation_job student cj jnow reg]\<rparr>"
    using call ok ext by (rule cancel_registration_effect)
  have rows: "registrations d' = map (cancel_row (reg_id reg) cnow (promotion_of reg d)) (registrations d)"
    using cancel_rows_map[OF promotion_of_neq[OF ok reg(1)]] reg(2) by (simp add: d')
  have taken: "seat_taken (seat_view eid d') = seat_taken (seat_view eid d) - {rid}
         \<union> {reg_id n | n. promotion_of reg d = Some n \<and> reg_event_id reg = eid}"
    using cancel_taken[OF ok reg(1), of eid cnow] reg(2) by (simp add: rows)
  have wl: "waitlisted_rows eid d' = filter (\<lambda>x. x \<noteq> reg \<and> promotion_of reg d \<noteq> Some x) (waitlisted_rows eid d)"
    using cancel_waitlisted[OF ok reg(1), of eid cnow] by (simp add: waitlisted_rows_def rows)
  have cap: "seat_cap (seat_view eid d') = seat_cap (seat_view eid d)"
    by (simp add: seat_view_def d' event_by_id_def)
  have wl_mem: "x \<in> set (waitlisted_rows eid d) \<Longrightarrow> x \<in> set (registrations d) \<and> has_status eid Waitlisted x" for x
    by (simp add: waitlisted_rows_def)
  have idr: "x \<in> set (registrations d) \<Longrightarrow> (reg_id x = rid) = (x = reg)" for x
    using pk_unique[OF schema_ok_D(2)[OF ok] reg(1), of x] reg(2) by auto
  have dwl: "distinct (waitlisted_rows eid d)"
    using distinct_registrations[OF ok] by (simp add: waitlisted_rows_def)
  show "reg_event_id c = eid \<Longrightarrow>
      enabled (Leave rid) (seat_view eid d) \<and> seat_view eid d' = apply_op (Leave rid) (seat_view eid d)"
  proof (cases "reg_status reg = Confirmed")
    assume "reg_event_id c = eid"
    then have e: "reg_event_id reg = eid" by (simp add: c)
    case True
    then have in_taken: "rid \<in> seat_taken (seat_view eid d)"
      using reg e by (auto simp: has_status_def)
    have not_reg: "x \<in> set (waitlisted_rows eid d) \<Longrightarrow> x \<noteq> reg" for x
      using wl_mem True by (auto simp: has_status_def)
    show ?thesis
    proof (cases "promotion_of reg d")
      case None
      with True e have "waitlisted_rows eid d = []" by (simp add: promotion_of_def first_by_None)
      with None in_taken taken wl cap show ?thesis by simp
    next
      case (Some n)
      then have f: "first_by fifo (waitlisted_rows eid d) = Some n" using promotion_of_Some(4) e by blast
      have "waitlisted_rows eid d' = filter (\<lambda>x. x \<noteq> n) (waitlisted_rows eid d)"
        unfolding wl using Some not_reg by (intro filter_cong) auto
      with sort_key_remove_first[OF f dwl] Some in_taken taken cap e show ?thesis by simp
    qed
  next
    assume "reg_event_id c = eid"
    then have e: "reg_event_id reg = eid" by (simp add: c)
    case False
    with reg(3) have w: "reg_status reg = Waitlisted" by (auto simp: active_def)
    then have in_q: "rid \<in> set (seat_queue (seat_view eid d))"
      using reg e by (auto simp: waitlisted_rows_def has_status_def)
    with seat_view_wf[OF ok, of eid] have not_taken: "rid \<notin> seat_taken (seat_view eid d)"
      by (auto simp: wf_seats_def)
    have p: "promotion_of reg d = None" using w by (simp add: promotion_of_def)
    have "waitlisted_rows eid d' = filter (\<lambda>x. reg_id x \<noteq> rid) (waitlisted_rows eid d)"
      unfolding wl using p wl_mem idr by (intro filter_cong) simp_all
    then have "seat_queue (seat_view eid d') = filter (\<lambda>x. x \<noteq> rid) (seat_queue (seat_view eid d))"
      by (simp add: filter_map comp_def flip: filter_sort)
    with in_q not_taken taken p cap show ?thesis by simp
  qed
  show "reg_event_id c \<noteq> eid \<Longrightarrow> seat_view eid d' = seat_view eid d"
  proof -
    assume "reg_event_id c \<noteq> eid"
    then have e: "reg_event_id reg \<noteq> eid" by (simp add: c)
    then have "rid \<notin> seat_taken (seat_view eid d)"
      using idr by (auto simp: has_status_def)
    moreover have "waitlisted_rows eid d' = waitlisted_rows eid d"
      unfolding wl using e wl_mem promotion_of_Some(2)[of reg d]
      by (intro filter_True) (auto simp: has_status_def)
    ultimately show ?thesis using taken cap e by simp
  qed
qed

section \<open>The interpretation\<close>

lemma seat_step_schema_ok: "schema_ok d \<Longrightarrow> seat_step eid d x d' \<Longrightarrow> schema_ok d'"
  by (erule seat_step.cases)
    (auto dest: register_student_schema_ok cancel_registration_schema_ok
       register_student_err cancel_registration_err)

lemma seat_step_sound:
  assumes "schema_ok d" "seat_step eid d x d'"
  shows "enabled x (seat_view eid d) \<and> seat_view eid d' = apply_op x (seat_view eid d)"
  using assms(2)
proof (cases rule: seat_step.cases)
  case register
  with register_view(1)[OF register(2) assms(1)] show ?thesis by simp
next
  case register_other
  with register_view(2)[OF register_other(2) assms(1)] show ?thesis by simp
next
  case cancel
  with cancel_view(1)[OF cancel(2) assms(1) cancel(3)] show ?thesis by simp
next
  case cancel_other
  with cancel_view(2)[OF cancel_other(2) assms(1) cancel_other(3)] show ?thesis by simp
qed (auto dest: register_student_err cancel_registration_err)

interpretation event_seats: seat_system "seat_view eid" schema_ok "seat_step eid" for eid
  by unfold_locales
    (auto intro: seat_step_schema_ok seat_view_wf simp: seat_step_sound)

text \<open>The rows a cancellation writes, as facts about the store before and after.\<close>

lemma cancel_registration_found:
  assumes "cancel_registration student rid pj cj now cnow jnow snap d = (Inr c, d')"
  obtains reg where "registration_by_id rid d = Some reg"
  using assms by (auto simp: cancel_registration_def res_simps split: option.splits if_splits)

lemma cancel_registration_rows:
  assumes call: "cancel_registration student rid pj cj now cnow jnow snap d = (Inr c, d')"
    and ok: "schema_ok d" and ext: "extends snap d" and reg: "registration_by_id rid d = Some reg"
  shows "registrations d' = map (cancel_row rid cnow (promotion_of reg d)) (registrations d)"
    and "waitlisted_rows eid d' = filter (\<lambda>x. x \<noteq> reg \<and> promotion_of reg d \<noteq> Some x) (waitlisted_rows eid d)"
    and "reg \<in> set (registrations d)"
    and "c \<in> set (registrations d')" "reg_id c = rid" "reg_status c = Cancelled" "reg_event_id c = reg_event_id reg"
proof -
  note r = registration_by_id_Some[OF reg]
  then show "reg \<in> set (registrations d)" by simp
  obtain reg' ev where reg': "reg' \<in> set (registrations d)" "reg_id reg' = rid"
    and c: "c = reg'\<lparr>reg_status := Cancelled, reg_cancelled_at := Some cnow\<rparr>"
    and d': "d' = d\<lparr>registrations := promoted_rows (promotion_of reg' d) (cancelled_rows rid cnow (registrations d)),
           notification_jobs := notification_jobs d
             @ (case promotion_of reg' d of None \<Rightarrow> [] | Some n \<Rightarrow> [promotion_job ev (reg_event_id reg') pj jnow n])
             @ [cancellation_job student cj jnow reg']\<rparr>"
    using call ok ext by (rule cancel_registration_effect)
  have same: "reg' = reg" using pk_unique[OF schema_ok_D(2)[OF ok], of reg reg'] r reg' by simp
  show rows: "registrations d' = map (cancel_row rid cnow (promotion_of reg d)) (registrations d)"
    using cancel_rows_map[OF promotion_of_neq[OF ok reg'(1)]] reg'(2) same by (simp add: d')
  show "waitlisted_rows eid d' = filter (\<lambda>x. x \<noteq> reg \<and> promotion_of reg d \<noteq> Some x) (waitlisted_rows eid d)"
    using cancel_waitlisted[OF ok reg'(1), of eid cnow] same reg'(2) by (simp add: waitlisted_rows_def rows)
  show "c \<in> set (registrations d')" "reg_id c = rid" "reg_status c = Cancelled" "reg_event_id c = reg_event_id reg"
    using reg' same by (auto simp: rows c cancel_row_def image_iff intro!: bexI[where x = reg])
qed

lemma cancel_registration_succeeds:
  assumes ok: "schema_ok d"
    and own: "get_or_none (\<lambda>r. reg_id r = rid \<and> reg_student_id r = usr_id student) (registrations d) = Some reg"
    and act: "reg_status reg \<noteq> Cancelled"
    and ev: "event_by_id (reg_event_id reg) d = Some ev" and start: "\<not> replace_tzinfo_utc (evt_starts_at ev) \<le> now"
    and jobs: "pj \<noteq> cj" "pj \<notin> job_id ` set (notification_jobs d)" "cj \<notin> job_id ` set (notification_jobs d)"
      "idempotency_key rid ''RegistrationCancelled'' \<notin> job_idempotency_key ` set (notification_jobs d)"
    and wl: "\<forall>r\<in>set (registrations d). reg_status r = Waitlisted \<longrightarrow>
           idempotency_key (reg_id r) ''WaitlistPromoted'' \<notin> job_idempotency_key ` set (notification_jobs d)"
  shows "cancel_registration student rid pj cj now cnow jnow d d =
     (Inr (reg\<lparr>reg_status := Cancelled, reg_cancelled_at := Some cnow\<rparr>),
      d\<lparr>registrations := map (cancel_row rid cnow (promotion_of reg d)) (registrations d),
        notification_jobs := notification_jobs d
          @ map (promotion_job ev (reg_event_id reg) pj jnow) (case promotion_of reg d of None \<Rightarrow> [] | Some n \<Rightarrow> [n])
          @ [cancellation_job student cj jnow reg]\<rparr>)"
proof -
  have reg: "reg \<in> set (registrations d)" "reg_id reg = rid" using get_or_none_Some[OF own] by auto
  have by_id: "registration_by_id rid d = Some reg" using registration_by_id_eq[OF ok reg(1)] reg(2) by simp
  let ?d1 = "save_registration rid (\<lambda>r. r\<lparr>reg_status := Cancelled, reg_cancelled_at := Some cnow\<rparr>) d"
  let ?po = "promotion_of reg d"
  let ?d2 = "d\<lparr>registrations := map (cancel_row rid cnow ?po) (registrations d),
        notification_jobs := notification_jobs d
          @ map (promotion_job ev (reg_event_id reg) pj jnow) (case ?po of None \<Rightarrow> [] | Some n \<Rightarrow> [n])\<rparr>"
  have rows: "promoted_rows ?po (registrations ?d1) = map (cancel_row rid cnow ?po) (registrations d)"
    using cancel_rows_map[OF promotion_of_neq[OF ok reg(1)], of cnow "registrations d"] reg(2)
    by (simp add: cancelled_rows_def)
  have d1: "?d1 = d\<lparr>registrations := registrations ?d1\<rparr>" by (simp add: save_registration_def)
  have promo: "promote_next_waitlisted ev (reg_event_id reg) pj jnow ?d1 = (Inr ?po, ?d2)" if "reg_status reg = Confirmed"
  proof -
    have po: "?po = first_by fifo (waitlisted_rows (reg_event_id reg) ?d1)"
      using that waitlisted_rows_cancelled[OF schema_ok_D(2)[OF ok] reg(1) that] reg(2) by (simp add: promotion_of_def)
    have key: "idempotency_key (reg_id n) ''WaitlistPromoted'' \<notin> job_idempotency_key ` set (notification_jobs d)"
      if "?po = Some n" for n
      using promotion_of_Some(1,2)[OF that] wl by (simp add: has_status_def)
    show ?thesis unfolding promote_Inr po[symmetric] rows
      using key jobs(2) event_by_id_has[OF ev] by (auto simp: save_registration_def split: option.splits)
  qed
  have wait: "?d1 = ?d2 \<and> ?po = None" if "reg_status reg \<noteq> Confirmed"
    using that rows d1 by (simp add: promotion_of_def promoted_rows_def)
  have fin: "create_job (cancellation_job student cj jnow reg) ?d2 =
      (Inr (cancellation_job student cj jnow reg), ?d2\<lparr>notification_jobs := notification_jobs ?d2 @ [cancellation_job student cj jnow reg]\<rparr>)"
    using jobs reg(2) event_by_id_has[OF ev] promotion_of_neq[OF ok reg(1)]
    by (cases ?po) (auto simp: create_job_Inr)
  show ?thesis
  proof (cases "reg_status reg = Confirmed")
    case True
    with own act ev by_id start promo[OF True] fin show ?thesis
      by (simp add: cancel_registration_def in_transaction_def and_then_def ret_def Let_def)
  next
    case False
    with own act ev by_id start wait[OF False] fin show ?thesis
      by (simp add: cancel_registration_def in_transaction_def and_then_def ret_def Let_def)
  qed
qed

section \<open>Waitlist positions\<close>

lemma position_is_rank:
  "waitlist_position_of reg d = int (rank fifo (waitlisted_rows (reg_event_id reg) d) reg)"
proof -
  have "count_where (\<lambda>r. has_status e Waitlisted r \<and> Q r) rows = count_where Q (filter (has_status e Waitlisted) rows)"
    for e Q and rows :: "registration list"
    by (induction rows) auto
  then show ?thesis by (simp add: waitlist_position_of_def rank_def waitlisted_rows_def fifo_def)
qed

lemma distinct_fifo_waitlist:
  assumes "schema_ok d"
  shows "distinct (map fifo (sort_key fifo (waitlisted_rows eid d)))"
    and "inj_on fifo (set (waitlisted_rows eid d))" and "distinct (waitlisted_rows eid d)"
  using inj_on_subset[OF inj_fifo[OF assms], of "set (waitlisted_rows eid d)"] distinct_registrations[OF assms]
  by (auto simp: distinct_map waitlisted_rows_def)

lemma position_is_index:
  assumes "schema_ok d" "n < length (waitlisted_rows eid d)" "r = sort_key fifo (waitlisted_rows eid d) ! n"
  shows "waitlist_position_of r d = int n + 1"
proof -
  have "r \<in> set (waitlisted_rows eid d)" using assms(2,3) by (metis length_sort nth_mem set_sort)
  then have e: "reg_event_id r = eid" by (simp add: waitlisted_rows_def has_status_def)
  have "rank fifo (sort_key fifo (waitlisted_rows eid d)) (sort_key fifo (waitlisted_rows eid d) ! n) = Suc n"
    using assms(2) distinct_fifo_waitlist(1)[OF assms(1)] by (intro rank_sorted_nth) auto
  then show ?thesis using e assms(3) by (simp add: position_is_rank rank_sort_key)
qed

lemma fold_positions:
  assumes "distinct (map reg_id regs)" "r \<in> set regs"
  shows "fold (\<lambda>reg pos. if reg_status reg = Waitlisted then pos(reg_id reg \<mapsto> f reg) else pos) regs m (reg_id r)
       = (if reg_status r = Waitlisted then Some (f r) else m (reg_id r))"
proof -
  have other: "i \<notin> reg_id ` set regs \<Longrightarrow>
      fold (\<lambda>reg pos. if reg_status reg = Waitlisted then pos(reg_id reg \<mapsto> f reg) else pos) regs m i = m i"
    for regs m i by (induction regs arbitrary: m) auto
  show ?thesis using assms
  proof (induction regs arbitrary: m)
    case (Cons x regs)
    then show ?case by (cases "r = x") (auto simp: other image_iff)
  qed simp
qed

lemma list_my_registrations_entries:
  assumes "schema_ok d"
  shows "list_my_registrations student d =
     map (\<lambda>reg. \<lparr>my_id = reg_id reg, my_event_id = reg_event_id reg, my_status = reg_status reg,
                 my_registered_at = reg_registered_at reg, my_cancelled_at = reg_cancelled_at reg,
                 my_waitlist_position = (if reg_status reg = Waitlisted then Some (waitlist_position_of reg d) else None)\<rparr>)
       (filter (\<lambda>r. reg_student_id r = usr_id student \<and> reg_status r \<noteq> Cancelled) (registrations d))"
proof -
  have "distinct (map reg_id (filter P (registrations d)))" for P
    using schema_ok_D(2)[OF assms] by (rule distinct_map_filter)
  then show ?thesis unfolding list_my_registrations_def Let_def by (simp add: fold_positions)
qed

section \<open>What a run keeps\<close>

lemma seat_step_events: "schema_ok d \<Longrightarrow> seat_step eid d x d' \<Longrightarrow> events d' = events d"
  by (erule seat_step.cases)
    (auto elim!: register_student_effect cancel_registration_effect
       dest: register_student_err cancel_registration_err)

lemma run_events:
  "run_ops (seat_step eid) ops d d' \<Longrightarrow> schema_ok d \<Longrightarrow> event_by_id eid d' = event_by_id eid d"
proof (induction ops arbitrary: d)
  case (Cons x ops)
  then obtain t where t: "seat_step eid d x t" "run_ops (seat_step eid) ops t d'" by auto
  with Cons have "event_by_id eid d' = event_by_id eid t" by (auto intro: seat_step_schema_ok)
  with seat_step_events[OF Cons.prems(2) t(1)] show ?case by (simp add: event_by_id_def)
qed simp

lemma view_within_capacity:
  "schema_ok d \<Longrightarrow> event_by_id eid d = Some ev \<Longrightarrow>
     within_capacity (seat_view eid d) \<longleftrightarrow> int (confirmed_count eid d) \<le> evt_capacity ev"
  using card_confirmed[of d eid] by (simp add: within_capacity_def del: seat_view_simps(1))

lemma view_no_idle_seat:
  "schema_ok d \<Longrightarrow> event_by_id eid d = Some ev \<Longrightarrow>
     no_idle_seat (seat_view eid d) \<longleftrightarrow> (0 < waitlist_count eid d \<longrightarrow> evt_capacity ev \<le> int (confirmed_count eid d))"
  using card_confirmed[of d eid] length_queue[of eid d]
  by (auto simp: no_idle_seat_def simp del: seat_view_simps(1,2))

end
