(* ===== verification/Sample_Data.thy ===== *)
theory Sample_Data
  imports Models
begin

text \<open>
  One small concrete database for the witnesses: an organizer, four students and a published event
  with a single seat, starting at instant 1000000.
\<close>

definition sample_user :: "uuid \<Rightarrow> string \<Rightarrow> user_role \<Rightarrow> user" where
  "sample_user i email role = \<lparr>usr_id = i, usr_email = email, usr_password_hash = None,
     usr_full_name = email, usr_role = role, usr_email_verified_at = Some 0, usr_created_at = 0\<rparr>"

definition organizer1 :: user where "organizer1 = sample_user 1 ''o@x'' Organizer"

definition student2 :: user where "student2 = sample_user 2 ''a@x'' Student"

definition student3 :: user where "student3 = sample_user 3 ''b@x'' Student"

definition student4 :: user where "student4 = sample_user 4 ''c@x'' Student"

definition student5 :: user where "student5 = sample_user 5 ''d@x'' Student"

definition event10 :: event where
  "event10 = \<lparr>evt_id = 10, evt_organizer_id = 1, evt_title = ''Talk'', evt_description = '''',
     evt_starts_at = Aware 1000000, evt_ends_at = None, evt_location = ''Hall'', evt_capacity = 1,
     evt_status = Published, evt_created_at = 0, evt_updated_at = 0\<rparr>"

definition sample_db :: db where
  "sample_db = empty_db\<lparr>users := [organizer1, student2, student3, student4, student5], events := [event10]\<rparr>"

lemmas sample_defs = sample_user_def organizer1_def student2_def student3_def student4_def student5_def
  event10_def sample_db_def empty_db_def

lemma sample_db_ok: "schema_ok sample_db"
  by (simp add: sample_defs schema_ok_def)

end
