(* ===== verification/Registration_Properties.thy ===== *)
theory Registration_Properties
  imports Registration_Seats Sample_Data
begin

text \<open>
  The properties of the registration service, each with a witness on the sample database: the seat
  contract over every run, the waitlist positions the API reports, and the behaviour of single
  calls, errors included.
\<close>

section \<open>A concrete run\<close>

text \<open>
  On the sample event, student 2 takes the only seat (\<open>full_db\<close>), students 3 and 4 join the
  waitlist (\<open>queued_db\<close>), student 2 cancels and student 3 is promoted (\<open>promoted_db\<close>).
\<close>

definition sample_reg :: "uuid \<Rightarrow> uuid \<Rightarrow> registration_status \<Rightarrow> instant \<Rightarrow> registration" where
  "sample_reg i s st t = \<lparr>reg_id = i, reg_event_id = 10, reg_student_id = s, reg_status = st,
     reg_registered_at = t, reg_cancelled_at = None\<rparr>"

definition sample_resp :: "uuid \<Rightarrow> uuid \<Rightarrow> registration_status \<Rightarrow> instant \<Rightarrow> int option \<Rightarrow> registration_response" where
  "sample_resp i s st t p = \<lparr>resp_id = i, resp_event_id = 10, resp_student_id = s, resp_status = st,
     resp_registered_at = t, resp_waitlist_position = p\<rparr>"

definition sample_job :: "uuid \<Rightarrow> uuid \<Rightarrow> uuid \<Rightarrow> registration_status \<Rightarrow> instant \<Rightarrow> string \<Rightarrow> int option \<Rightarrow> notification_job" where
  "sample_job ji i s st t ty p = new_job ji (Some 10) ty
     (registration_payload (sample_reg i s st t) ''Talk'' p) (idempotency_key i ty) t"

definition full_db :: db where
  "full_db = sample_db\<lparr>registrations := [sample_reg 20 2 Confirmed 100],
     notification_jobs := [sample_job 30 20 2 Confirmed 100 ''RegistrationConfirmed'' None]\<rparr>"

definition waiting_db :: db where
  "waiting_db = full_db\<lparr>registrations := registrations full_db @ [sample_reg 21 3 Waitlisted 200],
     notification_jobs := notification_jobs full_db
       @ [sample_job 31 21 3 Waitlisted 200 ''RegistrationWaitlisted'' (Some 1)]\<rparr>"

definition queued_db :: db where
  "queued_db = waiting_db\<lparr>registrations := registrations waiting_db @ [sample_reg 22 4 Waitlisted 300],
     notification_jobs := notification_jobs waiting_db
       @ [sample_job 32 22 4 Waitlisted 300 ''RegistrationWaitlisted'' (Some 2)]\<rparr>"

definition promoted_db :: db where
  "promoted_db = queued_db\<lparr>
     registrations := [(sample_reg 20 2 Cancelled 100)\<lparr>reg_cancelled_at := Some 400\<rparr>,
       sample_reg 21 3 Confirmed 200, sample_reg 22 4 Waitlisted 300],
     notification_jobs := notification_jobs queued_db
       @ [promotion_job event10 10 33 400 (sample_reg 21 3 Waitlisted 200),
          cancellation_job student2 34 400 (sample_reg 20 2 Confirmed 100)]\<rparr>"

lemmas run_defs = sample_defs sample_reg_def sample_resp_def sample_job_def full_db_def waiting_db_def
  queued_db_def promoted_db_def

lemmas eval_defs = event_by_id_def user_by_id_def registration_by_id_def has_event_def has_user_def active_def
  has_status_def confirmed_count_def waitlist_count_def waitlisted_rows_def

lemmas register_eval = register_student_def in_transaction_def and_then_def except_integrity_def
  create_registration_def create_job_def seat_decision_def ret_def raise_def Let_def

lemma run_register_2:
  "register_student student2 10 20 30 100 100 sample_db = (Inr (sample_resp 20 2 Confirmed 100 None), full_db)"
  by (simp add: run_defs eval_defs register_eval)

lemma run_register_3:
  "register_student student3 10 21 31 200 200 full_db
     = (Inr (sample_resp 21 3 Waitlisted 200 (Some 1)), waiting_db)"
  by (simp add: run_defs eval_defs register_eval)

lemma run_register_4:
  "register_student student4 10 22 32 300 300 waiting_db
     = (Inr (sample_resp 22 4 Waitlisted 300 (Some 2)), queued_db)"
  by (simp add: run_defs eval_defs register_eval)

lemma first_queued: "first_by fifo [sample_reg 21 3 Waitlisted 200, sample_reg 22 4 Waitlisted 300]
    = Some (sample_reg 21 3 Waitlisted 200)"
  by (simp add: first_by_def fifo_def sample_reg_def)

lemma run_cancel_2:
  "cancel_registration student2 20 33 34 400 400 400 queued_db queued_db
     = (Inr ((sample_reg 20 2 Cancelled 100)\<lparr>reg_cancelled_at := Some 400\<rparr>), promoted_db)"
  using first_queued
  by (simp add: cancel_registration_def promote_next_waitlisted_def save_registration_def register_eval
      run_defs eval_defs)

lemma queued_db_ok: "schema_ok queued_db"
  by (simp add: run_defs schema_ok_def has_event_def has_user_def active_def)

lemma promoted_db_ok: "schema_ok promoted_db"
  by (rule cancel_registration_schema_ok[OF run_cancel_2 queued_db_ok extends_refl])

lemma queued_queue: "seat_queue (seat_view 10 queued_db) = [21, 22]"
  by (simp add: run_defs eval_defs fifo_def)

lemma sample_run: "run_ops (seat_step 10) [Join 20 0, Join 21 0, Join 22 1, Leave 20] sample_db promoted_db"
proof -
  have "insertion_index 10 100 20 sample_db = 0" "insertion_index 10 200 21 full_db = 0"
    "insertion_index 10 300 22 waiting_db = 1"
    by (simp_all add: insertion_index_def run_defs eval_defs fifo_def)
  with seat_step.register[OF run_register_2] seat_step.register[OF run_register_3]
    seat_step.register[OF run_register_4] seat_step.cancel[OF run_cancel_2 extends_refl, of 10]
  have "seat_step 10 sample_db (Join 20 0) full_db" "seat_step 10 full_db (Join 21 0) waiting_db"
    "seat_step 10 waiting_db (Join 22 1) queued_db" "seat_step 10 queued_db (Leave 20) promoted_db"
    by (simp_all add: sample_reg_def)
  then show ?thesis by auto
qed

section \<open>Runs\<close>

text \<open>
  C1: No run of registrations and cancellations overbooks an event. From a store in which the
  confirmed registrations of an event are within its capacity, any sequence of calls of
  \<open>register_student\<close> and \<open>cancel_registration\<close> (for this event or another, successful or not,
  with stale reads before the lock) ends in a store in which they still are.
\<close>

theorem registration_never_overbooks:
  assumes "schema_ok d" "event_by_id eid d = Some ev" "int (confirmed_count eid d) \<le> evt_capacity ev"
    and "run_ops (seat_step eid) ops d d'"
  shows "event_by_id eid d' = Some ev \<and> int (confirmed_count eid d') \<le> evt_capacity ev"
  using assms event_seats.run_inv[OF assms(4,1)] run_events[OF assms(4,1)]
    event_seats.run_within_capacity[OF assms(4,1)]
  by (simp add: view_within_capacity)

theorem registration_never_overbooks_witness:
  "event_by_id 10 promoted_db = Some event10 \<and> int (confirmed_count 10 promoted_db) \<le> 1"
  using registration_never_overbooks[OF sample_db_ok _ _ sample_run, of event10]
  by (simp add: sample_defs eval_defs)



text \<open>
  C3: The waitlist is served in order. If one registration stands before another in the waitlist
  and neither is cancelled, then after any run it either still stands before the other or holds a
  seat; it is never overtaken.
\<close>

theorem waitlist_served_in_order:
  assumes "schema_ok d" "precedes (map reg_id (sort_key fifo (waitlisted_rows eid d))) i j"
    and "run_ops (seat_step eid) ops d d'" "Leave i \<notin> set ops" "Leave j \<notin> set ops"
  shows "precedes (map reg_id (sort_key fifo (waitlisted_rows eid d'))) i j
     \<or> (\<exists>r\<in>set (registrations d'). reg_id r = i \<and> has_status eid Confirmed r)"
  using event_seats.run_served_in_order[OF assms(3,1) _ assms(4,5)] assms(2) by auto

theorem waitlist_served_in_order_witness:
  "precedes (map reg_id (sort_key fifo (waitlisted_rows 10 promoted_db))) 21 22
     \<or> (\<exists>r\<in>set (registrations promoted_db). reg_id r = 21 \<and> has_status 10 Confirmed r)"
proof -
  have "precedes (map reg_id (sort_key fifo (waitlisted_rows 10 queued_db))) 21 22"
    using queued_queue by (simp add: precedes_Cons)
  moreover have "run_ops (seat_step 10) [Leave 20] queued_db promoted_db"
    using seat_step.cancel[OF run_cancel_2 extends_refl, of 10] by (simp add: sample_reg_def)
  ultimately show ?thesis by (rule waitlist_served_in_order[OF queued_db_ok]) auto
qed

text \<open>
  C5: The service refines the abstract seat system: the view of the event after a run is the
  abstract operations applied in order to the view before it.
\<close>

theorem registration_refines_seats:
  assumes "schema_ok d" "run_ops (seat_step eid) ops d d'"
  shows "seat_view eid d' = fold apply_op ops (seat_view eid d) \<and> schema_ok d'"
  using event_seats.run_view[OF assms(2,1)] event_seats.run_inv[OF assms(2,1)] by simp

theorem registration_refines_seats_witness:
  "seat_view 10 promoted_db = \<lparr>seat_cap = 1, seat_taken = {21}, seat_queue = [22]\<rparr>"
proof -
  have "seat_view 10 sample_db = \<lparr>seat_cap = 1, seat_taken = {}, seat_queue = []\<rparr>"
    by (simp add: seat_view_def sample_defs eval_defs)
  with registration_refines_seats[OF sample_db_ok sample_run] show ?thesis by simp
qed

section \<open>Waitlist positions\<close>

text \<open>
  \<open>list_my_registrations\<close> gives a position to exactly the waitlisted registrations, and the
  position is the one-based index of the registration in the order in which promotions are made.
\<close>

theorem my_positions_are_queue_indices:
  assumes "schema_ok d" "m \<in> set (list_my_registrations student d)"
  shows "case my_waitlist_position m of
      None \<Rightarrow> my_status m \<noteq> Waitlisted
    | Some p \<Rightarrow> my_status m = Waitlisted \<and> 1 \<le> p \<and> p \<le> int (waitlist_count (my_event_id m) d)
        \<and> map reg_id (sort_key fifo (waitlisted_rows (my_event_id m) d)) ! nat (p - 1) = my_id m"
proof -
  obtain r where r: "r \<in> set (registrations d)" "my_id m = reg_id r" "my_event_id m = reg_event_id r"
      "my_status m = reg_status r"
    and pos: "my_waitlist_position m = (if reg_status r = Waitlisted then Some (waitlist_position_of r d) else None)"
    using assms by (auto simp: list_my_registrations_entries)
  show ?thesis
  proof (cases "reg_status r = Waitlisted")
    case True
    let ?q = "sort_key fifo (waitlisted_rows (reg_event_id r) d)"
    have "r \<in> set ?q" using r(1) True by (simp add: waitlisted_rows_def has_status_def)
    then obtain n where n: "n < length ?q" "?q ! n = r" by (metis in_set_conv_nth)
    then have "waitlist_position_of r d = int n + 1"
      using assms(1) by (intro position_is_index[where eid = "reg_event_id r"]) auto
    with n r pos True length_queue[of "reg_event_id r" d] show ?thesis by (simp add: nat_add_distrib)
  qed (use r pos in simp)
qed

theorem my_positions_are_queue_indices_witness:
  "list_my_registrations student4 queued_db = [\<lparr>my_id = 22, my_event_id = 10, my_status = Waitlisted,
       my_registered_at = 300, my_cancelled_at = None, my_waitlist_position = Some 2\<rparr>]
   \<and> map reg_id (sort_key fifo (waitlisted_rows 10 queued_db)) ! 1 = 22"
proof -
  have l: "list_my_registrations student4 queued_db = [\<lparr>my_id = 22, my_event_id = 10, my_status = Waitlisted,
       my_registered_at = 300, my_cancelled_at = None, my_waitlist_position = Some 2\<rparr>]"
    by (simp add: list_my_registrations_def waitlist_position_of_def run_defs eval_defs)
  with my_positions_are_queue_indices[OF queued_db_ok, of _ student4] show ?thesis by simp
qed

text \<open>
  C26: When a confirmed registration is cancelled, the waitlisted registration at position 1 gets
  the seat and every other one moves forward by exactly one position.
\<close>

theorem cancellation_moves_waitlist_forward:
  assumes "cancel_registration student rid pj cj now cnow jnow snap d = (Inr c, d')" "schema_ok d" "extends snap d"
    and "registration_by_id rid d = Some reg" "reg_status reg = Confirmed"
    and "r \<in> set (waitlisted_rows (reg_event_id reg) d)"
  shows "if waitlist_position_of r d = 1 then r\<lparr>reg_status := Confirmed\<rparr> \<in> set (registrations d')
     else r \<in> set (waitlisted_rows (reg_event_id reg) d')
        \<and> waitlist_position_of r d' = waitlist_position_of r d - 1"
proof -
  let ?e = "reg_event_id reg"
  note rows = cancel_registration_rows[OF assms(1-4)]
  have r: "reg_event_id r = ?e" using assms(6) by (simp add: waitlisted_rows_def has_status_def)
  note wl = distinct_fifo_waitlist[OF assms(2), of ?e]
  have first: "waitlist_position_of r d = 1 \<longleftrightarrow> promotion_of reg d = Some r"
    using rank_one_iff_first[OF assms(6) wl(2,3)] r assms(5)
    by (simp add: position_is_rank promotion_of_def)
  show ?thesis
  proof (cases "promotion_of reg d = Some r")
    case True
    then show ?thesis using first rows(1) promotion_of_neq[OF assms(2) rows(3), unfolded True] promotion_of_Some(1)[OF True]
      registration_by_id_Some[OF assms(4)]
      by (auto simp: cancel_row_def image_iff intro!: bexI[where x = r])
  next
    case False
    then obtain n where n: "promotion_of reg d = Some n" "n \<noteq> r"
      using assms(5,6) by (cases "promotion_of reg d") (auto simp: promotion_of_def first_by_None)
    have wl': "waitlisted_rows ?e d' = filter (\<lambda>y. y \<noteq> n) (waitlisted_rows ?e d)"
      using rows(2)[of ?e] n(1) assms(5) by (auto simp: waitlisted_rows_def has_status_def intro!: filter_cong)
    have "waitlist_position_of r d = waitlist_position_of r d' + 1"
      using rank_remove_first[OF promotion_of_Some(4)[OF n(1)] wl(2,3) assms(6)] n(2) r
      by (simp add: position_is_rank wl')
    with first False wl' n(2) assms(6) show ?thesis by simp
  qed
qed

theorem cancellation_moves_waitlist_forward_witness:
  "sample_reg 21 3 Confirmed 200 \<in> set (registrations promoted_db)
   \<and> waitlist_position_of (sample_reg 22 4 Waitlisted 300) promoted_db = 1"
proof -
  have q: "registration_by_id 20 queued_db = Some (sample_reg 20 2 Confirmed 100)"
    and w: "waitlisted_rows 10 queued_db = [sample_reg 21 3 Waitlisted 200, sample_reg 22 4 Waitlisted 300]"
    and p: "waitlist_position_of (sample_reg 21 3 Waitlisted 200) queued_db = 1"
      "waitlist_position_of (sample_reg 22 4 Waitlisted 300) queued_db = 2"
    by (simp_all add: waitlist_position_of_def run_defs eval_defs)
  note t = cancellation_moves_waitlist_forward[OF run_cancel_2 queued_db_ok extends_refl q]
  from t[of "sample_reg 21 3 Waitlisted 200"] t[of "sample_reg 22 4 Waitlisted 300"] w p
  show ?thesis by (simp add: sample_reg_def)
qed

text \<open>
  Cancelling is safe against double submission: after a successful cancellation, a second one
  of the same registration is refused with 409 and changes nothing, whatever (possibly stale)
  snapshot its first read saw, so no second promotion is made.
\<close>

theorem double_cancel_refused:
  assumes "cancel_registration student rid pj cj now cnow jnow snap d = (Inr c, d')" "schema_ok d" "extends snap d"
    and "get_or_none (\<lambda>r. reg_id r = rid \<and> reg_student_id r = usr_id student) (registrations snap2) = Some r0"
    and "extends snap2 d'"
  shows "cancel_registration student rid pj2 cj2 now2 cnow2 jnow2 snap2 d' = (Inl already_cancelled, d')"
proof -
  obtain reg where reg: "registration_by_id rid d = Some reg"
    using assms(1) by (rule cancel_registration_found)
  note rows = cancel_registration_rows[OF assms(1-3) reg]
  have ok': "schema_ok d'" by (rule cancel_registration_schema_ok[OF assms(1-3)])
  have c: "registration_by_id rid d' = Some c" "reg_status c = Cancelled"
    using rows registration_by_id_eq[OF ok', of c] registration_by_id_Some[OF reg] by auto
  have "r0 \<in> set (registrations snap2)" "reg_id r0 = rid" using get_or_none_Some[OF assms(4)] by auto
  then obtain x where x: "x \<in> set (registrations d')" "reg_id x = rid" "reg_event_id x = reg_event_id r0"
    using assms(5) by (auto simp: extends_def)
  then obtain ev where "event_by_id (reg_event_id r0) d' = Some ev"
    using schema_ok_fk[OF ok' x(1)] by (cases "event_by_id (reg_event_id r0) d'")
      (auto simp: event_by_id_def get_or_none_None has_event_def)
  with assms(4) c show ?thesis by (simp add: cancel_registration_def in_transaction_def raise_def)
qed

theorem double_cancel_refused_witness:
  "cancel_registration student2 20 40 41 500 500 500 queued_db promoted_db = (Inl already_cancelled, promoted_db)"
proof -
  have "get_or_none (\<lambda>r. reg_id r = 20 \<and> reg_student_id r = usr_id student2) (registrations queued_db)
      = Some (sample_reg 20 2 Confirmed 100)" by (simp add: run_defs)
  moreover have "extends queued_db promoted_db" by (simp add: extends_def run_defs)
  ultimately show ?thesis by (rule double_cancel_refused[OF run_cancel_2 queued_db_ok extends_refl])
qed

section \<open>Single calls\<close>

text \<open>
  Registering writes the registration and its notification together or not at all. A call that
  returns has added exactly one registration and exactly one pending outbox job, whose type is the
  outcome, whose key is built from the new row and whose payload names the registration, the event
  and the student; a call that raises has changed nothing.
\<close>

theorem register_writes_outbox_atomically:
  "case register_student student eid rid jid t1 t2 d of
     (Inl ex, d') \<Rightarrow> d' = d
   | (Inr resp, d') \<Rightarrow> (\<exists>r j. d' = d\<lparr>registrations := registrations d @ [r], notification_jobs := notification_jobs d @ [j]\<rparr>
       \<and> reg_id r = resp_id resp \<and> reg_status r = resp_status resp \<and> reg_student_id r = usr_id student
       \<and> job_event_type j = (if reg_status r = Confirmed then ''RegistrationConfirmed'' else ''RegistrationWaitlisted'')
       \<and> job_idempotency_key j = idempotency_key (reg_id r) (job_event_type j)
       \<and> job_status_of j = Pending \<and> job_attempts j = 0 \<and> job_event_id j = Some eid
       \<and> job_payload j ''registration_id'' = Some (JStr (str_uuid (reg_id r)))
       \<and> job_payload j ''student_id'' = Some (JStr (str_uuid (usr_id student)))
       \<and> job_payload j ''event_id'' = Some (JStr (str_uuid eid))
       \<and> job_payload j ''waitlist_position'' = map_option JInt (resp_waitlist_position resp))"
proof -
  obtain res d' where call: "register_student student eid rid jid t1 t2 d = (res, d')" by fastforce
  show ?thesis
  proof (cases res)
    case (Inl ex)
    with call register_student_err show ?thesis by fastforce
  next
    case (Inr resp)
    with call have "register_student student eid rid jid t1 t2 d = (Inr resp, d')" by simp
    then show ?thesis
    proof (rule register_student_effect)
      fix ev st ty pos r j
      assume sd: "seat_decision ev d = (st, ty, pos)"
        and r: "r = \<lparr>reg_id = rid, reg_event_id = eid, reg_student_id = usr_id student, reg_status = st,
          reg_registered_at = t1, reg_cancelled_at = None\<rparr>"
        and j: "j = new_job jid (Some eid) ty (registration_payload r (evt_title ev) pos) (idempotency_key rid ty) t2"
        and d': "d' = d\<lparr>registrations := registrations d @ [r], notification_jobs := notification_jobs d @ [j]\<rparr>"
        and resp: "resp = \<lparr>resp_id = rid, resp_event_id = eid, resp_student_id = usr_id student, resp_status = st,
            resp_registered_at = t1, resp_waitlist_position = pos\<rparr>"
      from seat_decision_cases[OF sd] show ?thesis
        unfolding call Inr d'
        by (auto simp: r j resp registration_payload_def Let_def
            intro!: exI[where x = r] exI[where x = j])
    qed
  qed
qed

text \<open>
  The outcome of registering, branch by branch. For a known student and fresh identifiers: 404
  when there is no published event with that id, 409 when the student already holds an active
  registration for it, and otherwise success, confirmed exactly when a seat is free.
\<close>

theorem register_student_outcome:
  assumes "has_user (usr_id student) d" "rid \<notin> reg_id ` set (registrations d)"
    and "jid \<notin> job_id ` set (notification_jobs d)"
    and "\<forall>ty. idempotency_key rid ty \<notin> job_idempotency_key ` set (notification_jobs d)"
  shows "map_sum id resp_status (fst (register_student student eid rid jid t1 t2 d)) =
     (case event_by_id eid d of
        None \<Rightarrow> Inl event_not_found
      | Some ev \<Rightarrow>
          if evt_status ev \<noteq> Published then Inl event_not_found
          else if \<exists>r\<in>set (registrations d). active r \<and> reg_event_id r = eid \<and> reg_student_id r = usr_id student
          then Inl already_registered
          else Inr (if int (confirmed_count eid d) < evt_capacity ev then Confirmed else Waitlisted))"
proof (cases "event_by_id eid d")
  case None
  then show ?thesis by (simp add: register_eval)
next
  case (Some ev)
  note ev = event_by_id_Some[OF Some] event_by_id_has[OF Some]
  show ?thesis
  proof (cases "evt_status ev = Published")
    case True
    with Some ev assms show ?thesis by (auto simp: register_eval active_def)
  qed (use Some in \<open>simp add: register_eval\<close>)
qed

theorem register_student_outcome_witness:
  "map_sum id resp_status (fst (register_student student3 10 21 31 200 200 full_db)) = Inr Waitlisted
   \<and> fst (register_student student2 10 21 31 200 200 full_db) = Inl already_registered"
proof -
  have fresh: "21 \<notin> reg_id ` set (registrations full_db)" "31 \<notin> job_id ` set (notification_jobs full_db)"
    "\<forall>ty. idempotency_key 21 ty \<notin> job_idempotency_key ` set (notification_jobs full_db)"
    by (simp_all add: run_defs)
  have "has_user (usr_id student3) full_db" "has_user (usr_id student2) full_db" by (simp_all add: run_defs eval_defs)
  note out = register_student_outcome[OF this(1) fresh, of 10 200 200] register_student_outcome[OF this(2) fresh, of 10 200 200]
  from out show ?thesis by (auto simp: run_defs eval_defs map_sum_def split: sum.splits)
qed

text \<open>
  The position a waitlisted caller is told at registration is the position the list endpoint
  reports afterwards, when the new timestamp is later than those of everyone already waiting.
\<close>

theorem reported_position_is_read_position:
  assumes "register_student student eid rid jid t1 t2 d = (Inr resp, d')"
    and "resp_waitlist_position resp = Some p"
    and "\<forall>r\<in>set (waitlisted_rows eid d). reg_registered_at r < t1"
    and "schema_ok d"
  shows "\<exists>m\<in>set (list_my_registrations student d'). my_id m = rid \<and> my_waitlist_position m = Some p"
proof -
  obtain ev st ty pos r j where
    ev: "event_by_id eid d = Some ev" and sd: "seat_decision ev d = (st, ty, pos)"
    and r: "r = \<lparr>reg_id = rid, reg_event_id = eid, reg_student_id = usr_id student, reg_status = st,
         reg_registered_at = t1, reg_cancelled_at = None\<rparr>"
    and d': "d' = d\<lparr>registrations := registrations d @ [r], notification_jobs := notification_jobs d @ [j]\<rparr>"
    and resp: "resp = \<lparr>resp_id = rid, resp_event_id = eid, resp_student_id = usr_id student, resp_status = st,
            resp_registered_at = t1, resp_waitlist_position = pos\<rparr>"
    using assms(1) by (rule register_student_effect)
  have p: "st = Waitlisted" "p = int (waitlist_count eid d) + 1"
    using seat_decision_cases[OF sd] assms(2) event_by_id_Some[OF ev] by (auto simp: resp)
  have "count_where (\<lambda>x. has_status eid Waitlisted x \<and> (reg_registered_at x < t1 \<or> reg_registered_at x = t1 \<and> reg_id x \<le> rid))
      (registrations d) = waitlist_count eid d"
    unfolding waitlist_count_def using assms(3) by (intro count_where_cong) (auto simp: waitlisted_rows_def)
  then have "waitlist_position_of r d' = p"
    using p by (simp add: waitlist_position_of_def r d' count_where_append has_status_def)
  moreover have "schema_ok d'" using assms(1,4) by (rule register_student_schema_ok)
  moreover have "r \<in> set (registrations d')" by (simp add: d')
  ultimately show ?thesis using p by (auto simp: list_my_registrations_entries r intro!: bexI[where x = r])
qed

theorem reported_position_is_read_position_witness:
  "\<exists>m\<in>set (list_my_registrations student4 queued_db). my_id m = 22 \<and> my_waitlist_position m = Some 2"
proof -
  have "schema_ok waiting_db" by (simp add: run_defs schema_ok_def has_event_def has_user_def active_def)
  then show ?thesis
    by (intro reported_position_is_read_position[OF run_register_4]) (simp_all add: run_defs eval_defs)
qed



end
