(* ===== verification/Events.thy ===== *)
theory Events
  imports Registrations Python_Text
begin

text \<open>
  The event service (\<open>hefest/services/event.py\<close>) and its request schemas
  (\<open>hefest/schemas/event.py\<close>): creating, listing, reading, updating, publishing and cancelling
  events. \<open>update_event\<close> and \<open>publish_event\<close> read the row and write it back in separate
  statements, so they take the store of the read (\<open>snapshot\<close>) and the store of the write.
\<close>

section \<open>Request schemas\<close>

record event_create_request =
  ecr_title :: string
  ecr_description :: string
  ecr_starts_at :: datetime
  ecr_ends_at :: "datetime option"
  ecr_location :: string
  ecr_capacity :: int

text \<open>
  A field of a partial update is absent (\<open>None\<close>), null (\<open>Some None\<close>) or a value; \<open>exclude_unset\<close>
  drops the absent ones only.
\<close>

record event_update_request =
  eur_title :: "string option option"
  eur_description :: "string option option"
  eur_starts_at :: "datetime option option"
  eur_ends_at :: "datetime option option"
  eur_location :: "string option option"
  eur_capacity :: "int option option"

definition empty_update :: event_update_request where
  "empty_update = \<lparr>eur_title = None, eur_description = None, eur_starts_at = None, eur_ends_at = None,
     eur_location = None, eur_capacity = None\<rparr>"

definition positive_int :: "int \<Rightarrow> exc + int" where
  "positive_int n = (if 1 \<le> n then Inr n else Inl (ValueError ''greater_than_equal''))"

definition ends_after_starts :: "event_create_request \<Rightarrow> exc + event_create_request" where
  "ends_after_starts r = (case ecr_ends_at r of
      None \<Rightarrow> Inr r
    | Some ends \<Rightarrow> (case py_le ends (ecr_starts_at r) of
        Inl ex \<Rightarrow> Inl ex
      | Inr b \<Rightarrow> if b then Inl (ValueError ''ends_at must be after starts_at'') else Inr r))"

definition validate_create :: "event_create_request \<Rightarrow> exc + event_create_request" where
  "validate_create r = (case positive_int (ecr_capacity r) of
      Inl ex \<Rightarrow> Inl ex
    | Inr _ \<Rightarrow> ends_after_starts r)"

definition validate_update :: "event_update_request \<Rightarrow> exc + event_update_request" where
  "validate_update r = (case eur_capacity r of
      Some (Some n) \<Rightarrow> (case positive_int n of Inl ex \<Rightarrow> Inl ex | Inr _ \<Rightarrow> Inr r)
    | _ \<Rightarrow> Inr r)"

section \<open>create\_event\<close>

definition create_event :: "user \<Rightarrow> event_create_request \<Rightarrow> uuid \<Rightarrow> instant \<Rightarrow> (db, event) prog" where
  "create_event organizer data new_id now = create_event_row
     \<lparr>evt_id = new_id, evt_organizer_id = usr_id organizer, evt_title = ecr_title data,
      evt_description = ecr_description data, evt_starts_at = ecr_starts_at data,
      evt_ends_at = ecr_ends_at data, evt_location = ecr_location data, evt_capacity = ecr_capacity data,
      evt_status = Draft, evt_created_at = now, evt_updated_at = now\<rparr>"

section \<open>Visibility and reading\<close>

definition assert_visible :: "user \<Rightarrow> event \<Rightarrow> exc + unit" where
  "assert_visible user event =
     (if usr_role user = Student
      then (if evt_status event \<noteq> Published then Inl event_not_found else Inr ())
      else (if evt_status event \<noteq> Published \<and> evt_organizer_id event \<noteq> usr_id user
            then Inl event_not_found else Inr ()))"

definition assert_owner :: "user \<Rightarrow> event \<Rightarrow> exc + unit" where
  "assert_owner user event =
     (if evt_organizer_id event \<noteq> usr_id user then Inl event_not_found else Inr ())"

definition list_events :: "user \<Rightarrow> nat \<Rightarrow> nat \<Rightarrow> db \<Rightarrow> (event \<times> nat) list" where
  "list_events user limit offset d =
     (let rows = (if usr_role user = Student
                  then filter (\<lambda>e. evt_status e = Published) (events d)
                  else filter (\<lambda>e. evt_organizer_id e = usr_id user \<or> evt_status e = Published) (events d));
          annotated = map (\<lambda>e. (e, confirmed_count (evt_id e) d)) rows;
          ordered = sort_key (\<lambda>(e, n). - replace_tzinfo_utc (evt_starts_at e)) annotated
      in take limit (drop offset ordered))"

record event_detail_response =
  edr_event :: event
  edr_confirmed_count :: nat
  edr_waitlist_count :: nat
  edr_organizer_name :: string

definition get_event_detail :: "user \<Rightarrow> uuid \<Rightarrow> db \<Rightarrow> exc + event_detail_response" where
  "get_event_detail user event_id d =
     (case event_by_id event_id d of
        None \<Rightarrow> Inl event_not_found
      | Some event \<Rightarrow> (case assert_visible user event of
          Inl ex \<Rightarrow> Inl ex
        | Inr _ \<Rightarrow> (case user_by_id (evt_organizer_id event) d of
            None \<Rightarrow> Inl DoesNotExist
          | Some organizer \<Rightarrow> Inr \<lparr>edr_event = event,
              edr_confirmed_count = confirmed_count event_id d,
              edr_waitlist_count = waitlist_count event_id d,
              edr_organizer_name = usr_full_name organizer\<rparr>)))"

section \<open>update\_event\<close>

definition save_event :: "uuid \<Rightarrow> (event \<Rightarrow> event) \<Rightarrow> db \<Rightarrow> db" where
  "save_event i f d = d\<lparr>events := update_where (\<lambda>e. evt_id e = i) f (events d)\<rparr>"

definition location_locked :: "int \<Rightarrow> instant \<Rightarrow> event \<Rightarrow> bool" where
  "location_locked lock_hours now event \<longleftrightarrow>
     replace_tzinfo_utc (evt_starts_at event) \<le> now + hours lock_hours"

definition location_error :: "int \<Rightarrow> exc" where
  "location_error lock_hours = HTTPException 409
     (''location cannot be changed within '' @ show_int lock_hours @ '' hours of the event start'') []"

text \<open>
  Assigning the fields in the order of the schema. A null for a column that is not nullable raises
  before anything is written; only \<open>ends_at\<close> is nullable.
\<close>

definition null_error :: "string \<Rightarrow> exc" where
  "null_error key = ValueError (key @ '' is non nullable field, but null was passed'')"

definition set_field :: "string \<Rightarrow> 'v option option \<Rightarrow> ('v \<Rightarrow> 'o \<Rightarrow> 'o) \<Rightarrow> exc + 'o \<Rightarrow> exc + 'o" where
  "set_field key v put obj = (case obj of
      Inl ex \<Rightarrow> Inl ex
    | Inr x \<Rightarrow> (case v of None \<Rightarrow> Inr x | Some None \<Rightarrow> Inl (null_error key) | Some (Some y) \<Rightarrow> Inr (put y x)))"

definition update_from_dict :: "event_update_request \<Rightarrow> event \<Rightarrow> exc + event" where
  "update_from_dict data event =
     set_field ''capacity'' (eur_capacity data) (\<lambda>v e. e\<lparr>evt_capacity := v\<rparr>)
     (set_field ''location'' (eur_location data) (\<lambda>v e. e\<lparr>evt_location := v\<rparr>)
     (map_sum id (\<lambda>e. case eur_ends_at data of None \<Rightarrow> e | Some v \<Rightarrow> e\<lparr>evt_ends_at := v\<rparr>)
     (set_field ''starts_at'' (eur_starts_at data) (\<lambda>v e. e\<lparr>evt_starts_at := v\<rparr>)
     (set_field ''description'' (eur_description data) (\<lambda>v e. e\<lparr>evt_description := v\<rparr>)
     (set_field ''title'' (eur_title data) (\<lambda>v e. e\<lparr>evt_title := v\<rparr>) (Inr event))))))"

text \<open>\<open>save(update_fields=...)\<close>: the named columns of the object, and no other, go to the row.\<close>

definition save_fields :: "event_update_request \<Rightarrow> event \<Rightarrow> event \<Rightarrow> event" where
  "save_fields data obj row = row\<lparr>
     evt_title := (if eur_title data = None then evt_title row else evt_title obj),
     evt_description := (if eur_description data = None then evt_description row else evt_description obj),
     evt_starts_at := (if eur_starts_at data = None then evt_starts_at row else evt_starts_at obj),
     evt_ends_at := (if eur_ends_at data = None then evt_ends_at row else evt_ends_at obj),
     evt_location := (if eur_location data = None then evt_location row else evt_location obj),
     evt_capacity := (if eur_capacity data = None then evt_capacity row else evt_capacity obj)\<rparr>"

definition update_event ::
  "int \<Rightarrow> user \<Rightarrow> uuid \<Rightarrow> event_update_request \<Rightarrow> instant \<Rightarrow> db \<Rightarrow> (db, event) prog" where
  "update_event lock_hours user event_id data now snapshot d =
     (case event_by_id event_id snapshot of
        None \<Rightarrow> raise event_not_found d
      | Some event \<Rightarrow> (case assert_owner user event of
          Inl ex \<Rightarrow> raise ex d
        | Inr _ \<Rightarrow>
            if eur_location data \<noteq> None \<and> location_locked lock_hours now event
            then raise (location_error lock_hours) d
            else if data = empty_update then ret event d
            else (case update_from_dict data event of
                Inl ex \<Rightarrow> raise ex d
              | Inr obj \<Rightarrow>
                  if eur_capacity data \<noteq> None \<and> \<not> int32 (evt_capacity obj) then raise DataError d
                  else ret obj (save_event event_id (save_fields data obj) d))))"

section \<open>publish\_event\<close>

fun str_event_status :: "event_status \<Rightarrow> string" where
  "str_event_status Draft = ''draft''"
| "str_event_status Published = ''published''"
| "str_event_status EventCancelled = ''cancelled''"

definition not_draft :: "event_status \<Rightarrow> exc" where
  "not_draft st = HTTPException 409 (''event is not in draft status (current: '' @ str_event_status st @ '')'') []"

definition get_owned_draft :: "user \<Rightarrow> uuid \<Rightarrow> db \<Rightarrow> exc + event" where
  "get_owned_draft user event_id d =
     (case event_by_id event_id d of
        None \<Rightarrow> Inl event_not_found
      | Some event \<Rightarrow> (case assert_owner user event of
          Inl ex \<Rightarrow> Inl ex
        | Inr _ \<Rightarrow> if evt_status event \<noteq> Draft then Inl (not_draft (evt_status event)) else Inr event))"

definition publish_event :: "user \<Rightarrow> uuid \<Rightarrow> instant \<Rightarrow> db \<Rightarrow> (db, event) prog" where
  "publish_event user event_id now snapshot d =
     (case get_owned_draft user event_id snapshot of
        Inl ex \<Rightarrow> raise ex d
      | Inr event \<Rightarrow>
          ret (event\<lparr>evt_status := Published, evt_updated_at := now\<rparr>)
            (save_event event_id (\<lambda>e. e\<lparr>evt_status := Published, evt_updated_at := now\<rparr>) d))"

section \<open>cancel\_event\<close>

definition event_started :: exc where
  "event_started = HTTPException 409 ''cannot cancel an event that has already started'' []"

definition event_cancelled_job :: "uuid \<Rightarrow> string \<Rightarrow> (uuid \<Rightarrow> uuid) \<Rightarrow> instant \<Rightarrow> registration \<Rightarrow> notification_job" where
  "event_cancelled_job event_id occurred_at new_id now reg =
     new_job (new_id (reg_id reg)) (Some event_id) ''EventCancelled''
       [''event_id'' \<mapsto> JStr (str_uuid event_id),
        ''student_id'' \<mapsto> JStr (str_uuid (reg_student_id reg)),
        ''registration_id'' \<mapsto> JStr (str_uuid (reg_id reg)),
        ''occurred_at'' \<mapsto> JStr occurred_at]
       (idempotency_key (reg_id reg) ''EventCancelled'') now"

definition active_of_event :: "uuid \<Rightarrow> db \<Rightarrow> registration list" where
  "active_of_event eid d = filter (\<lambda>r. reg_event_id r = eid \<and> active r) (registrations d)"

text \<open>\<open>new_id\<close> gives the key drawn for the job of each registration.\<close>

definition cancel_event ::
  "user \<Rightarrow> uuid \<Rightarrow> (uuid \<Rightarrow> uuid) \<Rightarrow> instant \<Rightarrow> instant \<Rightarrow> instant \<Rightarrow> (db, event) prog" where
  "cancel_event user event_id new_id now save_now job_now = in_transaction (\<lambda>d.
     case event_by_id event_id d of
       None \<Rightarrow> raise event_not_found d
     | Some event \<Rightarrow> (case assert_owner user event of
         Inl ex \<Rightarrow> raise ex d
       | Inr _ \<Rightarrow>
           if evt_status event = EventCancelled then ret event d
           else if replace_tzinfo_utc (evt_starts_at event) \<le> now then raise event_started d
           else
             let cancel = (\<lambda>e. e\<lparr>evt_status := EventCancelled, evt_updated_at := save_now\<rparr>);
                 d1 = save_event event_id cancel d;
                 regs = active_of_event event_id d1;
                 jobs = map (event_cancelled_job event_id (isoformat job_now) new_id job_now) regs
             in and_then (if jobs \<noteq> [] then bulk_create_jobs jobs else ret ()) (\<lambda>_. ret (cancel event)) d1))"

end
