(* ===== verification/Lifecycle.thy ===== *)
theory Lifecycle
  imports Hefest_Prelude
begin

text \<open>
  Rows with a life cycle. Several tables hold rows that are never deleted and whose status only
  moves forward: events are drafted, published, cancelled; registrations leave the waitlist and are
  cancelled; jobs are finished; refresh tokens are revoked. The locale \<open>lifecycle\<close> states this
  once: a rank on rows that no step lowers. Its lemmas say that a row stays, that its rank never
  falls over a run, and that a row of the highest rank never changes rank again.
\<close>

locale lifecycle =
  fixes rows :: "'s \<Rightarrow> 'r list" and key :: "'r \<Rightarrow> 'k" and rank :: "'r \<Rightarrow> nat"
    and inv :: "'s \<Rightarrow> bool" and step :: "'s \<Rightarrow> 's \<Rightarrow> bool"
  assumes keys: "inv s \<Longrightarrow> distinct (map key (rows s))"
    and step_inv: "inv s \<Longrightarrow> step s s' \<Longrightarrow> inv s'"
    and step_row: "inv s \<Longrightarrow> step s s' \<Longrightarrow> r \<in> set (rows s) \<Longrightarrow>
          \<exists>r'\<in>set (rows s'). key r' = key r \<and> rank r \<le> rank r'"
begin

lemma run_inv: "step\<^sup>*\<^sup>* s s' \<Longrightarrow> inv s \<Longrightarrow> inv s'"
  by (induction rule: rtranclp_induct) (auto intro: step_inv)

lemma run_row:
  "step\<^sup>*\<^sup>* s s' \<Longrightarrow> inv s \<Longrightarrow> r \<in> set (rows s) \<Longrightarrow> \<exists>r'\<in>set (rows s'). key r' = key r \<and> rank r \<le> rank r'"
proof (induction rule: rtranclp_induct)
  case (step t u)
  then obtain r1 where r1: "r1 \<in> set (rows t)" "key r1 = key r" "rank r \<le> rank r1" by auto
  from step_row[OF run_inv[OF step(1,4)] step(2) r1(1)] r1 show ?case by (metis order_trans)
qed auto

lemma run_rank:
  assumes "step\<^sup>*\<^sup>* s s'" "inv s" "r \<in> set (rows s)" "r' \<in> set (rows s')" "key r' = key r"
  shows "rank r \<le> rank r'"
  using run_row[OF assms(1-3)] pk_unique[OF keys[OF run_inv[OF assms(1,2)]] assms(4)] assms(5) by metis

lemma run_terminal:
  assumes "step\<^sup>*\<^sup>* s s'" "inv s" "r \<in> set (rows s)" "r' \<in> set (rows s')" "key r' = key r"
    and "\<And>x. rank x \<le> rank r"
  shows "rank r' = rank r"
  using run_rank[OF assms(1-5)] assms(6) by (simp add: order_antisym)

end

text \<open>Rows that, once final, are never written again.\<close>

locale frozen_lifecycle = lifecycle +
  fixes final :: "'b \<Rightarrow> bool"
  assumes step_final: "inv s \<Longrightarrow> step s s' \<Longrightarrow> r \<in> set (rows s) \<Longrightarrow> final r \<Longrightarrow> r \<in> set (rows s')"
begin

lemma run_final: "step\<^sup>*\<^sup>* s s' \<Longrightarrow> inv s \<Longrightarrow> r \<in> set (rows s) \<Longrightarrow> final r \<Longrightarrow> r \<in> set (rows s')"
proof (induction rule: rtranclp_induct)
  case (step t u)
  then show ?case using step_final[OF run_inv[OF step(1,4)] step(2)] by blast
qed auto

end

text \<open>A pointwise update of a table that keeps keys and raises ranks satisfies the step law.\<close>

lemma step_row_map:
  "r \<in> set rs \<Longrightarrow> rs' = map f rs @ new \<Longrightarrow> (\<And>x. x \<in> set rs \<Longrightarrow> key (f x) = key x \<and> rank x \<le> rank (f x)) \<Longrightarrow>
     \<exists>r'\<in>set rs'. key r' = key r \<and> rank r \<le> rank r'"
  for rank :: "'r \<Rightarrow> nat"
  by force

end
