(* ===== verification/Event_Properties.thy ===== *)
theory Event_Properties
  imports Events Lifecycle Registration_Properties
begin

text \<open>
  The properties of the event service: who sees what, what an update may change, the life cycle
  draft, published, cancelled, the fan-out of a cancellation, and what goes wrong when a publish
  overlaps a cancel.
\<close>

section \<open>What each call does\<close>

lemma save_event_simps [simp]:
  "users (save_event i f d) = users d" "registrations (save_event i f d) = registrations d"
  "notification_jobs (save_event i f d) = notification_jobs d"
  "events (save_event i f d) = update_where (\<lambda>e. evt_id e = i) f (events d)"
  "has_user u (save_event i f d) = has_user u d"
  by (simp_all add: save_event_def)

lemma save_event_as_map:
  "events (save_event i f d) = map (\<lambda>e. if evt_id e = i then f e else e) (events d) @ []"
  by (simp add: update_where_def)

lemma has_event_save [simp]: "(\<And>e. evt_id (f e) = evt_id e) \<Longrightarrow> has_event x (save_event i f d) = has_event x d"
proof -
  assume "\<And>e. evt_id (f e) = evt_id e"
  then have "map evt_id (events (save_event i f d)) = map evt_id (events d)" by (simp add: map_update_where)
  from arg_cong[OF this, of set] show ?thesis by (simp only: has_event_def set_map)
qed

lemma schema_ok_add_jobs:
  assumes "schema_ok d" "distinct (map job_id js)" "distinct (map job_idempotency_key js)"
    and "\<forall>j\<in>set js. job_id j \<notin> job_id ` set (notification_jobs d)
         \<and> job_idempotency_key j \<notin> job_idempotency_key ` set (notification_jobs d)"
  shows "schema_ok (d\<lparr>notification_jobs := notification_jobs d @ js\<rparr>)"
proof -
  have app: "distinct (map f (xs @ ys))" if "distinct (map f xs)" "distinct (map f ys)" "\<forall>y\<in>set ys. f y \<notin> f ` set xs"
    for f :: "notification_job \<Rightarrow> 'k" and xs ys using that by (induction xs) (auto simp: image_iff)
  have "distinct (map job_id (notification_jobs d @ js))"
    using assms schema_ok_D(5)[OF assms(1)] by (intro app) blast+
  moreover have "distinct (map job_idempotency_key (notification_jobs d @ js))"
    using assms schema_ok_D(4)[OF assms(1)] by (intro app) blast+
  ultimately show ?thesis using assms(1) unfolding schema_ok_def by (simp del: map_append distinct_append)
qed

lemma save_event_schema_ok:
  assumes "schema_ok d" "\<And>e. evt_id (f e) = evt_id e"
  shows "schema_ok (save_event i f d)"
proof -
  have "map evt_id (events (save_event i f d)) = map evt_id (events d)"
    using assms(2) by (simp add: map_update_where)
  with assms show ?thesis by (simp add: schema_ok_def)
qed

lemma evt_id_save_fields [simp]: "evt_id (save_fields data obj e) = evt_id e"
  and status_save_fields [simp]: "evt_status (save_fields data obj e) = evt_status e"
  by (simp_all add: save_fields_def)

lemma create_event_effect:
  assumes "create_event organizer data i now d = (Inr e, d')"
  shows "d' = d\<lparr>events := events d @ [e]\<rparr>" "evt_id e = i" "i \<notin> evt_id ` set (events d)"
    and "evt_status e = Draft" "evt_organizer_id e = usr_id organizer" "has_user (usr_id organizer) d"
  using assms by (auto simp: create_event_def create_event_row_def split: if_splits)

lemma update_event_effect:
  assumes "update_event h user i data now snap d = (Inr e, d')"
  obtains "d' = d" | obj where "d' = save_event i (save_fields data obj) d"
  using assms
  by (auto simp: update_event_def res_simps simp del: save_event_simps split: option.splits sum.splits if_splits)

lemma cancel_event_effect:
  assumes "cancel_event user i new_id now snow jnow d = (Inr e, d')"
  obtains ev where "event_by_id i d = Some ev" "evt_organizer_id ev = usr_id user" "evt_status ev = EventCancelled" "d' = d" "e = ev"
  | ev js where "event_by_id i d = Some ev" "evt_organizer_id ev = usr_id user" "evt_status ev \<noteq> EventCancelled"
      "now < replace_tzinfo_utc (evt_starts_at ev)"
      "js = map (event_cancelled_job i (isoformat jnow) new_id jnow) (active_of_event i d)"
      "e = ev\<lparr>evt_status := EventCancelled, evt_updated_at := snow\<rparr>"
      "d' = (save_event i (\<lambda>e. e\<lparr>evt_status := EventCancelled, evt_updated_at := snow\<rparr>) d)
              \<lparr>notification_jobs := notification_jobs d @ js\<rparr>"
      "distinct (map job_id js)" "distinct (map job_idempotency_key js)"
      "\<forall>j\<in>set js. job_id j \<notin> job_id ` set (notification_jobs d)
         \<and> job_idempotency_key j \<notin> job_idempotency_key ` set (notification_jobs d)"
proof -
  from assms obtain ev where ev: "event_by_id i d = Some ev" "evt_organizer_id ev = usr_id user"
    by (auto simp: cancel_event_def res_simps assert_owner_def split: option.splits if_splits)
  show thesis
  proof (cases "evt_status ev = EventCancelled")
    case True
    then have "d' = d" "e = ev" using assms ev by (simp_all add: cancel_event_def res_simps assert_owner_def)
    with ev True show ?thesis by (intro that(1)) simp_all
  next
    case False
    let ?d1 = "save_event i (\<lambda>e. e\<lparr>evt_status := EventCancelled, evt_updated_at := snow\<rparr>) d"
    let ?js = "map (event_cancelled_job i (isoformat jnow) new_id jnow) (active_of_event i d)"
    have start: "now < replace_tzinfo_utc (evt_starts_at ev)"
      using assms ev False by (auto simp: cancel_event_def res_simps assert_owner_def split: if_splits)
    have act: "active_of_event i ?d1 = active_of_event i d" by (simp add: active_of_event_def)
    have step: "(if ?js \<noteq> [] then bulk_create_jobs ?js else ret ()) ?d1 = (Inr (), d')"
      and e: "e = ev\<lparr>evt_status := EventCancelled, evt_updated_at := snow\<rparr>"
      using assms ev False start
      by (auto simp: cancel_event_def res_simps assert_owner_def Let_def act and_then_Inr_iff
          simp del: save_event_simps)
    show ?thesis
    proof (cases "?js = []")
      case True
      with step have "d' = ?d1" by (simp add: ret_def del: save_event_simps)
      with True ev False start e show ?thesis by (intro that(2)) auto
    next
      case False
      with step have d': "d' = ?d1\<lparr>notification_jobs := notification_jobs d @ ?js\<rparr>"
        and fresh: "distinct (map job_id ?js) \<and> distinct (map job_idempotency_key ?js)
          \<and> (\<forall>j\<in>set ?js. job_id j \<notin> job_id ` set (notification_jobs d)
             \<and> job_idempotency_key j \<notin> job_idempotency_key ` set (notification_jobs d))"
        by (auto simp: bulk_create_jobs_def split: if_splits)
      from fresh show ?thesis
        by (intro that(2)[OF ev(1,2) \<open>evt_status ev \<noteq> EventCancelled\<close> start refl e d']) blast+
    qed
  qed
qed

lemma create_event_schema_ok: "create_event organizer data i now d = (Inr e, d') \<Longrightarrow> schema_ok d \<Longrightarrow> schema_ok d'"
  using create_event_effect[of organizer data i now d e d'] by (auto simp: schema_ok_def has_event_def has_user_def)

lemma update_event_schema_ok: "update_event h user i data now snap d = (Inr e, d') \<Longrightarrow> schema_ok d \<Longrightarrow> schema_ok d'"
  by (erule update_event_effect) (auto intro: save_event_schema_ok simp del: save_event_simps)

lemma publish_event_Inr:
  "publish_event user i now snap d = (Inr e, d') \<longleftrightarrow>
     (\<exists>ev. event_by_id i snap = Some ev \<and> evt_organizer_id ev = usr_id user \<and> evt_status ev = Draft
        \<and> e = ev\<lparr>evt_status := Published, evt_updated_at := now\<rparr>
        \<and> d' = save_event i (\<lambda>e. e\<lparr>evt_status := Published, evt_updated_at := now\<rparr>) d)"
  by (auto simp: publish_event_def get_owned_draft_def assert_owner_def res_simps split: option.splits sum.splits if_splits)

lemma publish_event_schema_ok: "publish_event user i now snap d = (Inr e, d') \<Longrightarrow> schema_ok d \<Longrightarrow> schema_ok d'"
  by (auto simp: publish_event_Inr intro: save_event_schema_ok simp del: save_event_simps)

lemma cancel_event_schema_ok:
  assumes "cancel_event user i new_id now snow jnow d = (Inr e, d')" "schema_ok d"
  shows "schema_ok d'"
  using assms(1)
proof (cases rule: cancel_event_effect)
  case (2 ev js)
  have "schema_ok (save_event i (\<lambda>e. e\<lparr>evt_status := EventCancelled, evt_updated_at := snow\<rparr>) d)"
    using assms(2) by (rule save_event_schema_ok) simp
  from schema_ok_add_jobs[OF this 2(8,9)] 2(7,10) show ?thesis by simp
qed (use assms in simp)

lemma event_calls_err:
  "create_event organizer data i now d = (Inl ex, d') \<Longrightarrow> d' = d"
  "update_event h user i upd now snap d = (Inl ex, d') \<Longrightarrow> d' = d"
  "publish_event user i now snap d = (Inl ex, d') \<Longrightarrow> d' = d"
  "cancel_event user i new_id now snow jnow d = (Inl ex, d') \<Longrightarrow> d' = d"
  by (auto simp: create_event_def create_event_row_def update_event_def publish_event_def cancel_event_def
      res_simps split: option.splits sum.splits if_splits)

section \<open>Requests one after the other\<close>

text \<open>
  The write requests of the event and registration endpoints, each run to its end before the next
  one starts; only the pre-lock read of a registration cancellation may be older.
\<close>

inductive service_step :: "db \<Rightarrow> db \<Rightarrow> bool" where
  s_create: "create_event organizer data i now d = (res, d') \<Longrightarrow> service_step d d'"
| s_update: "update_event h user i upd now d d = (res, d') \<Longrightarrow> service_step d d'"
| s_publish: "publish_event user i now d d = (res, d') \<Longrightarrow> service_step d d'"
| s_cancel: "cancel_event user i new_id now snow jnow d = (res, d') \<Longrightarrow> service_step d d'"
| s_register: "register_student student eid rid jid t1 t2 d = (res', d') \<Longrightarrow> service_step d d'"
| s_unregister: "cancel_registration student rid pj cj now cnow jnow snap d = (res'', d') \<Longrightarrow> extends snap d \<Longrightarrow>
     service_step d d'"

definition event_rank :: "event \<Rightarrow> nat" where
  "event_rank e = (case evt_status e of Draft \<Rightarrow> 0 | Published \<Rightarrow> 1 | EventCancelled \<Rightarrow> 2)"

definition registration_rank :: "registration \<Rightarrow> nat" where
  "registration_rank r = (case reg_status r of Waitlisted \<Rightarrow> 0 | Confirmed \<Rightarrow> 1 | Cancelled \<Rightarrow> 2)"

lemma event_rank_le: "event_rank e \<le> 2"
  by (simp add: event_rank_def split: event_status.splits)

lemma registration_rank_le: "registration_rank r \<le> 2"
  by (simp add: registration_rank_def split: registration_status.splits)

lemma service_step_cases [consumes 1, case_names same create update publish cancel register unregister]:
  assumes "service_step d d'"
  obtains "d' = d"
  | organizer data i now e where "create_event organizer data i now d = (Inr e, d')"
  | h user i upd now e where "update_event h user i upd now d d = (Inr e, d')"
  | user i now e where "publish_event user i now d d = (Inr e, d')"
  | user i new_id now snow jnow e where "cancel_event user i new_id now snow jnow d = (Inr e, d')"
  | student eid rid jid t1 t2 resp where "register_student student eid rid jid t1 t2 d = (Inr resp, d')"
  | student rid pj cj now cnow jnow snap c where
      "cancel_registration student rid pj cj now cnow jnow snap d = (Inr c, d')" "extends snap d"
  using assms
proof (cases rule: service_step.cases)
  case (s_create organizer data i now res)
  then show ?thesis using that(1,2) event_calls_err(1) by (cases res) blast+
next
  case (s_update h user i upd now res)
  then show ?thesis using that(1,3) event_calls_err(2) by (cases res) blast+
next
  case (s_publish user i now res)
  then show ?thesis using that(1,4) event_calls_err(3) by (cases res) blast+
next
  case (s_cancel user i new_id now snow jnow res)
  then show ?thesis using that(1,5) event_calls_err(4) by (cases res) blast+
next
  case (s_register student eid rid jid t1 t2 res')
  then show ?thesis using that(1,6) register_student_err by (cases res') blast+
next
  case (s_unregister student rid pj cj now cnow jnow snap res'')
  then show ?thesis using that(1,7) cancel_registration_err by (cases res'') blast+
qed

lemma service_step_schema_ok: "schema_ok d \<Longrightarrow> service_step d d' \<Longrightarrow> schema_ok d'"
  by (erule service_step_cases)
    (blast intro: create_event_schema_ok update_event_schema_ok publish_event_schema_ok
      cancel_event_schema_ok register_student_schema_ok cancel_registration_schema_ok)+

text \<open>Every step maps the rows of a table pointwise and may add rows at the end.\<close>

lemma service_step_events:
  assumes "schema_ok d" "service_step d d'"
  shows "\<exists>f new. events d' = map f (events d) @ new
     \<and> (\<forall>e\<in>set (events d). evt_id (f e) = evt_id e \<and> event_rank e \<le> event_rank (f e))"
proof -
  let ?P = "\<lambda>evs. \<exists>f new. evs = map f (events d) @ new
     \<and> (\<forall>e\<in>set (events d). evt_id (f e) = evt_id e \<and> event_rank e \<le> event_rank (f e))"
  have keep: "?P (events d @ new)" for new by (intro exI[where x = id] exI[where x = new]) simp
  have save: "?P (events (save_event i f d))"
    if "\<And>e. e \<in> set (events d) \<Longrightarrow> evt_id e = i \<Longrightarrow> evt_id (f e) = i \<and> event_rank e \<le> event_rank (f e)" for i f
    unfolding save_event_as_map using that by (intro exI) auto
  from assms(2) show ?thesis
  proof (cases rule: service_step_cases)
    case same
    with keep[of "[]"] show ?thesis by simp
  next
    case (create organizer data i now e)
    with keep[of "[e]"] create_event_effect(1)[OF create] show ?thesis by simp
  next
    case (update h user i upd now e)
    then show ?thesis
    proof (cases rule: update_event_effect)
      case 1
      with keep[of "[]"] show ?thesis by simp
    next
      case (2 obj)
      with save[of i "save_fields upd obj"] show ?thesis by (simp add: event_rank_def)
    qed
  next
    case (publish user i now e)
    then obtain ev where ev: "event_by_id i d = Some ev" "evt_status ev = Draft"
      and d': "d' = save_event i (\<lambda>e. e\<lparr>evt_status := Published, evt_updated_at := now\<rparr>) d"
      by (auto simp: publish_event_Inr)
    have "x = ev" if "x \<in> set (events d)" "evt_id x = i" for x
      using event_by_id_eq[OF assms(1) that(1)] that(2) ev(1) by simp
    then show ?thesis unfolding d' using ev(2) by (intro save) (auto simp: event_rank_def)
  next
    case (cancel user i new_id now snow jnow e)
    then show ?thesis
    proof (cases rule: cancel_event_effect)
      case 1
      with keep[of "[]"] show ?thesis by simp
    next
      case (2 ev js)
      with save[of i "\<lambda>e. e\<lparr>evt_status := EventCancelled, evt_updated_at := snow\<rparr>"]
      show ?thesis by (simp add: event_rank_def split: event_status.splits)
    qed
  next
    case (register student eid rid jid t1 t2 resp)
    with keep[of "[]"] show ?thesis by (elim register_student_effect) simp
  next
    case (unregister student rid pj cj now cnow jnow snap c)
    from unregister(1) assms(1) unregister(2) have "events d' = events d"
      by (rule cancel_registration_effect) simp
    with keep[of "[]"] show ?thesis by simp
  qed
qed

lemma cancel_row_rank:
  assumes "schema_ok d" "reg \<in> set (registrations d)" "r \<in> set (registrations d)"
  shows "registration_rank r \<le> registration_rank (cancel_row (reg_id reg) t (promotion_of reg d) r)"
proof (cases "promotion_of reg d")
  case (Some n)
  have "reg_id r = reg_id n \<Longrightarrow> r = n"
    using pk_unique[OF schema_ok_D(2)[OF assms(1)] promotion_of_Some(1)[OF Some] assms(3)] by simp
  with Some promotion_of_Some(2)[OF Some] show ?thesis
    by (auto simp: cancel_row_def registration_rank_def has_status_def split: registration_status.splits)
qed (auto simp: cancel_row_def registration_rank_def split: registration_status.splits)

lemma service_step_registrations:
  assumes "schema_ok d" "service_step d d'"
  shows "\<exists>f new. registrations d' = map f (registrations d) @ new
     \<and> (\<forall>r\<in>set (registrations d). reg_id (f r) = reg_id r \<and> registration_rank r \<le> registration_rank (f r))"
proof -
  have keep: "\<exists>f new'. registrations d @ new = map f (registrations d) @ new'
     \<and> (\<forall>r\<in>set (registrations d). reg_id (f r) = reg_id r \<and> registration_rank r \<le> registration_rank (f r))" for new
    by (intro exI[where x = id] exI[where x = new]) simp
  from assms(2) show ?thesis
  proof (cases rule: service_step_cases)
    case (create organizer data i now e)
    with keep[of "[]"] create_event_effect(1)[OF create] show ?thesis by simp
  next
    case (update h user i upd now e)
    with keep[of "[]"] show ?thesis by (elim update_event_effect) simp_all
  next
    case (publish user i now e)
    then have "registrations d' = registrations d" by (auto simp: publish_event_Inr)
    with keep[of "[]"] show ?thesis by simp
  next
    case (cancel user i new_id now snow jnow e)
    with keep[of "[]"] show ?thesis by (elim cancel_event_effect) simp_all
  next
    case (register student eid rid jid t1 t2 resp)
    then obtain r where "registrations d' = registrations d @ [r]" by (elim register_student_effect) simp
    with keep show ?thesis by simp
  next
    case (unregister student rid pj cj now cnow jnow snap c)
    obtain reg where reg: "registration_by_id rid d = Some reg" using unregister(1) by (rule cancel_registration_found)
    note rows = cancel_registration_rows[OF unregister(1) assms(1) unregister(2) reg]
    have "registration_rank r \<le> registration_rank (cancel_row rid cnow (promotion_of reg d) r)"
      if "r \<in> set (registrations d)" for r
      using cancel_row_rank[OF assms(1) rows(3) that] registration_by_id_Some[OF reg] by simp
    with rows(1) show ?thesis by (intro exI[where x = "cancel_row rid cnow (promotion_of reg d)"] exI[where x = "[]"]) simp
  qed (use keep[of "[]"] in simp)
qed

interpretation evt_lifecycle: lifecycle events evt_id event_rank schema_ok service_step
proof
  fix d d' e
  assume "schema_ok d" "service_step d d'" "e \<in> set (events d)"
  then show "\<exists>e'\<in>set (events d'). evt_id e' = evt_id e \<and> event_rank e \<le> event_rank e'"
    using service_step_events[of d d'] by (auto intro: step_row_map)
qed (auto intro: service_step_schema_ok simp: schema_ok_D)

interpretation reg_lifecycle: lifecycle registrations reg_id registration_rank schema_ok service_step
proof
  fix d d' r
  assume "schema_ok d" "service_step d d'" "r \<in> set (registrations d)"
  then show "\<exists>r'\<in>set (registrations d'). reg_id r' = reg_id r \<and> registration_rank r \<le> registration_rank r'"
    using service_step_registrations[of d d'] by (auto intro: step_row_map)
qed (auto intro: service_step_schema_ok simp: schema_ok_D)

section \<open>Properties\<close>

text \<open>
  C14: No sequence of requests moves an event or a registration backwards: rows are never
  removed, an event only goes from draft to published to cancelled, and a registration only from
  the waitlist to a seat to cancelled.
\<close>

theorem statuses_never_regress:
  assumes "service_step\<^sup>*\<^sup>* d d'" "schema_ok d"
  shows "(\<forall>e\<in>set (events d). \<exists>e'\<in>set (events d'). evt_id e' = evt_id e \<and> event_rank e \<le> event_rank e')
     \<and> (\<forall>r\<in>set (registrations d). \<exists>r'\<in>set (registrations d').
          reg_id r' = reg_id r \<and> registration_rank r \<le> registration_rank r')
     \<and> schema_ok d'"
  using evt_lifecycle.run_row[OF assms] reg_lifecycle.run_row[OF assms] evt_lifecycle.run_inv[OF assms] by blast

theorem statuses_never_regress_witness:
  "(\<exists>r'\<in>set (registrations promoted_db). reg_id r' = 20 \<and> 1 \<le> registration_rank r') \<and> schema_ok promoted_db"
proof -
  have "service_step\<^sup>*\<^sup>* queued_db promoted_db"
    using service_step.s_unregister[OF run_cancel_2 extends_refl] by blast
  from statuses_never_regress[OF this queued_db_ok] show ?thesis
    by (auto simp: queued_db_def waiting_db_def full_db_def sample_reg_def registration_rank_def)
qed

text \<open>
  Listing and reading agree on visibility. For an event whose organizer exists, reading it
  succeeds exactly when it is among the caller's listed events; students reach published events
  only, organizers in addition their own.
\<close>

theorem visible_events_agree:
  assumes "schema_ok d" "e \<in> set (events d)" "has_user (evt_organizer_id e) d"
  shows "((\<exists>r. get_event_detail user (evt_id e) d = Inr r)
       \<longleftrightarrow> e \<in> fst ` set (list_events user (length (events d)) 0 d))
     \<and> (e \<in> fst ` set (list_events user limit offset d) \<longrightarrow>
       evt_status e = Published \<or> (usr_role user = Organizer \<and> evt_organizer_id e = usr_id user))"
proof
  obtain org where org: "user_by_id (evt_organizer_id e) d = Some org"
    using assms(3) by (cases "user_by_id (evt_organizer_id e) d") (auto simp: user_by_id_def get_or_none_None has_user_def)
  show "(\<exists>r. get_event_detail user (evt_id e) d = Inr r)
     \<longleftrightarrow> e \<in> fst ` set (list_events user (length (events d)) 0 d)"
    using event_by_id_eq[OF assms(1,2)] org assms(2)
    by (cases "usr_role user")
      (auto simp: get_event_detail_def assert_visible_def list_events_def Let_def image_iff)
  show "e \<in> fst ` set (list_events user limit offset d) \<longrightarrow>
       evt_status e = Published \<or> (usr_role user = Organizer \<and> evt_organizer_id e = usr_id user)"
    by (cases "usr_role user")
      (auto simp: list_events_def Let_def dest!: in_set_takeD in_set_dropD)
qed

theorem visible_events_agree_witness:
  "(\<exists>r. get_event_detail student2 10 sample_db = Inr r) \<and> event10 \<in> fst ` set (list_events student2 1 0 sample_db)"
proof -
  have h: "event10 \<in> set (events sample_db)" "has_user (evt_organizer_id event10) sample_db"
    by (simp_all add: sample_defs has_user_def)
  have "event10 \<in> fst ` set (list_events student2 1 0 sample_db)"
    by (simp add: list_events_def sample_defs)
  with visible_events_agree[OF sample_db_ok h, of student2] show ?thesis by (simp add: sample_defs)
qed

lemma update_from_dict_Inr:
  assumes "update_from_dict upd ev = Inr obj"
  shows "obj = save_fields upd obj ev"
  using assms
  by (cases ev) (auto simp: update_from_dict_def set_field_def save_fields_def split: sum.splits option.splits)

text \<open>
  What an update can touch. Whatever the caller sends, no event changes except the addressed
  one, that one only when the caller owns it, never its status, and never its location within the
  lock window before its start; nothing outside the events table changes, and on success the caller
  gets the row as stored.
\<close>

theorem update_event_frame:
  assumes "schema_ok d" "update_event h user i upd now d d = (res, d')" "e \<in> set (events d)"
  shows "\<exists>e'. event_by_id (evt_id e) d' = Some e' \<and> evt_id e' = evt_id e \<and> evt_status e' = evt_status e
     \<and> evt_organizer_id e' = evt_organizer_id e
     \<and> (evt_id e \<noteq> i \<or> evt_organizer_id e \<noteq> usr_id user \<longrightarrow> e' = e)
     \<and> (location_locked h now e \<longrightarrow> evt_location e' = evt_location e)
     \<and> (evt_id e = i \<longrightarrow> (\<forall>obj. res = Inr obj \<longrightarrow> obj = e'))
     \<and> registrations d' = registrations d \<and> notification_jobs d' = notification_jobs d \<and> users d' = users d"
proof -
  have by_id: "event_by_id (evt_id e) d = Some e" using assms(1,3) by (rule event_by_id_eq)
  show ?thesis
  proof (cases "event_by_id i d")
    case None
    with assms(2) have "d' = d" "\<And>obj. res \<noteq> Inr obj" by (auto simp: update_event_def res_simps)
    with by_id show ?thesis by simp
  next
    case (Some ev)
    note ev = event_by_id_Some[OF Some]
    have same: "evt_id e = i \<Longrightarrow> e = ev" using by_id Some by simp
    have "(d' = d \<and> (\<forall>obj. res = Inr obj \<longrightarrow> obj = ev)) \<or>
      (\<exists>obj. d' = save_event i (save_fields upd obj) d \<and> update_from_dict upd ev = Inr obj \<and> res = Inr obj
         \<and> evt_organizer_id ev = usr_id user \<and> (eur_location upd = None \<or> \<not> location_locked h now ev))"
      using assms(2) Some
      by (auto simp: update_event_def res_simps assert_owner_def simp del: save_event_simps
          split: if_splits sum.splits)
    then consider (kept) "d' = d" "\<forall>obj. res = Inr obj \<longrightarrow> obj = ev"
      | (written) obj where "d' = save_event i (save_fields upd obj) d" "update_from_dict upd ev = Inr obj" "res = Inr obj"
          "evt_organizer_id ev = usr_id user" "eur_location upd = None \<or> \<not> location_locked h now ev"
      by blast
    then show ?thesis
    proof cases
      case kept
      with by_id same show ?thesis by auto
    next
      case written
      let ?f = "save_fields upd obj"
      let ?e' = "if evt_id e = i then ?f e else e"
      have ok': "schema_ok d'" using save_event_schema_ok[OF assms(1), of ?f i] written(1) by simp
      have "?e' \<in> set (events d')" using assms(3) by (auto simp: written(1) set_update_where image_iff)
      from event_by_id_eq[OF ok' this] have "event_by_id (evt_id e) d' = Some ?e'" by (auto split: if_splits)
      moreover have "evt_id e = i \<Longrightarrow> ?f e = obj" using update_from_dict_Inr[OF written(2)] same by simp
      moreover have "evt_organizer_id (?f e) = evt_organizer_id e" by (simp add: save_fields_def)
      moreover have "evt_id e = i \<Longrightarrow> evt_id obj = evt_id e \<and> evt_status obj = evt_status e"
        using update_from_dict_Inr[OF written(2)] same by (metis evt_id_save_fields status_save_fields)
      moreover have "evt_id e = i \<Longrightarrow> location_locked h now e \<Longrightarrow> evt_location (?f e) = evt_location e"
        using written(5) same by (auto simp: save_fields_def)
      ultimately show ?thesis using written(1,3,4) same by auto
    qed
  qed
qed

definition sample_update :: event_update_request where
  "sample_update = empty_update\<lparr>eur_title := Some (Some ''New''), eur_capacity := Some (Some 3)\<rparr>"

theorem update_event_frame_witness:
  "\<exists>e'. event_by_id 10 (snd (update_event 2 organizer1 10 sample_update 999999 sample_db sample_db)) = Some e'
     \<and> evt_location e' = ''Hall'' \<and> evt_title e' = ''New'' \<and> evt_status e' = Published"
proof -
  have c: "update_event 2 organizer1 10 sample_update 999999 sample_db sample_db =
      (Inr (event10\<lparr>evt_title := ''New'', evt_capacity := 3\<rparr>),
       sample_db\<lparr>events := [event10\<lparr>evt_title := ''New'', evt_capacity := 3\<rparr>]\<rparr>)"
    by (simp add: update_event_def sample_update_def empty_update_def event_by_id_def assert_owner_def
        update_from_dict_def set_field_def save_event_def save_fields_def ret_def int32_def sample_defs)
  have "event10 \<in> set (events sample_db)" "location_locked 2 999999 event10"
    by (simp_all add: sample_defs location_locked_def hours_def seconds_def)
  with update_event_frame[OF sample_db_ok c, of event10] show ?thesis
    unfolding c by (auto simp: event10_def)
qed

text \<open>
  C15: Cancelling an event notifies everyone who holds a seat or waits, exactly once. The owner's
  call on an event that has not started marks it cancelled and adds one job per active registration
  in the same transaction; repeating the call returns the event and changes nothing.
\<close>

theorem cancel_event_notifies_once:
  assumes "schema_ok d" "event_by_id i d = Some ev" "evt_organizer_id ev = usr_id user"
    and "evt_status ev \<noteq> EventCancelled" "now < replace_tzinfo_utc (evt_starts_at ev)"
    and "inj new_id" "\<forall>r\<in>set (active_of_event i d). new_id (reg_id r) \<notin> job_id ` set (notification_jobs d)
       \<and> idempotency_key (reg_id r) ''EventCancelled'' \<notin> job_idempotency_key ` set (notification_jobs d)"
  shows "\<exists>e d'. cancel_event user i new_id now snow jnow d = (Inr e, d') \<and> evt_status e = EventCancelled
     \<and> event_by_id i d' = Some e \<and> registrations d' = registrations d
     \<and> (\<exists>js. notification_jobs d' = notification_jobs d @ js
          \<and> map job_idempotency_key js = map (\<lambda>r. idempotency_key (reg_id r) ''EventCancelled'') (active_of_event i d)
          \<and> map (\<lambda>j. job_payload j ''student_id'') js = map (\<lambda>r. Some (JStr (str_uuid (reg_student_id r)))) (active_of_event i d))
     \<and> cancel_event user i new_id2 now2 snow2 jnow2 d' = (Inr e, d')"
proof -
  let ?f = "\<lambda>e. e\<lparr>evt_status := EventCancelled, evt_updated_at := snow\<rparr>"
  let ?d1 = "save_event i ?f d"
  let ?js = "map (event_cancelled_job i (isoformat jnow) new_id jnow) (active_of_event i d)"
  let ?d' = "?d1\<lparr>notification_jobs := notification_jobs d @ ?js\<rparr>"
  note ev = event_by_id_Some[OF assms(2)]
  have act: "active_of_event i ?d1 = active_of_event i d" by (simp add: active_of_event_def)
  have dist: "distinct (map reg_id (active_of_event i d))"
    unfolding active_of_event_def using schema_ok_D(2)[OF assms(1)] by (rule distinct_map_filter)
  have bulk: "bulk_create_jobs ?js ?d1 = (Inr (), ?d')"
  proof -
    have "distinct (map new_id (map reg_id (active_of_event i d)))"
      using dist assms(6) by (subst distinct_map) (auto intro: inj_on_subset)
    then have "distinct (map job_id ?js)" by (simp add: event_cancelled_job_def comp_def)
    moreover have "distinct (map (\<lambda>k. idempotency_key k ''EventCancelled'') (map reg_id (active_of_event i d)))"
      using dist by (subst distinct_map) (auto simp: inj_on_def)
    then have "distinct (map job_idempotency_key ?js)" by (simp add: event_cancelled_job_def comp_def)
    moreover have "has_event i ?d1" using event_by_id_has[OF assms(2)] by simp
    moreover have "job_id (event_cancelled_job i o_at new_id jnow r) = new_id (reg_id r)"
      "job_idempotency_key (event_cancelled_job i o_at new_id jnow r) = idempotency_key (reg_id r) ''EventCancelled''"
      "job_event_id (event_cancelled_job i o_at new_id jnow r) = Some i" for o_at r
      by (simp_all add: event_cancelled_job_def)
    ultimately show ?thesis using assms(7) by (simp add: bulk_create_jobs_def)
  qed
  then have nil: "?js = [] \<Longrightarrow> ?d' = ?d1" by simp
  have call: "cancel_event user i new_id now snow jnow d = (Inr (?f ev), ?d')"
  proof (cases "?js = []")
    case True
    with assms nil show ?thesis
      by (simp add: cancel_event_def in_transaction_def assert_owner_def act and_then_def ret_def del: save_event_simps)
  next
    case False
    with assms bulk show ?thesis
      by (simp add: cancel_event_def in_transaction_def assert_owner_def act and_then_def ret_def Let_def del: save_event_simps)
  qed
  have ok': "schema_ok ?d'" using call assms(1) by (rule cancel_event_schema_ok)
  have "?f ev \<in> set (events ?d')" using ev by (auto simp: set_update_where image_iff intro!: bexI[where x = ev])
  from event_by_id_eq[OF ok' this] have found: "event_by_id i ?d' = Some (?f ev)" using ev by simp
  then have "cancel_event user i new_id2 now2 snow2 jnow2 ?d' = (Inr (?f ev), ?d')"
    using assms(3) by (simp add: cancel_event_def in_transaction_def assert_owner_def ret_def)
  with call found show ?thesis
    by (intro exI[where x = "?f ev"] exI[where x = ?d']) (auto simp: event_cancelled_job_def comp_def)
qed

theorem cancel_event_notifies_once_witness:
  "\<exists>e d'. cancel_event organizer1 10 (\<lambda>k. k + 100) 500 500 500 queued_db = (Inr e, d') \<and> evt_status e = EventCancelled
     \<and> length (notification_jobs d') = 6"
proof -
  have ev: "event_by_id 10 queued_db = Some event10" "evt_organizer_id event10 = usr_id organizer1"
    "evt_status event10 \<noteq> EventCancelled" "500 < replace_tzinfo_utc (evt_starts_at event10)"
    by (simp_all add: run_defs event_by_id_def)
  have act: "length (active_of_event 10 queued_db) = 3"
    by (simp add: active_of_event_def active_def run_defs)
  have "inj (\<lambda>k::uuid. k + 100)" by (auto intro: injI)
  moreover have "\<forall>r\<in>set (active_of_event 10 queued_db). reg_id r + 100 \<notin> job_id ` set (notification_jobs queued_db)
       \<and> idempotency_key (reg_id r) ''EventCancelled'' \<notin> job_idempotency_key ` set (notification_jobs queued_db)"
    by (simp add: active_of_event_def active_def run_defs)
  ultimately obtain e d' js where c: "cancel_event organizer1 10 (\<lambda>k. k + 100) 500 500 500 queued_db = (Inr e, d')"
      "evt_status e = EventCancelled" "notification_jobs d' = notification_jobs queued_db @ js"
      "map job_idempotency_key js = map (\<lambda>r. idempotency_key (reg_id r) ''EventCancelled'') (active_of_event 10 queued_db)"
    using cancel_event_notifies_once[OF queued_db_ok ev, of "\<lambda>k. k + 100" 500 500] by blast
  from arg_cong[OF c(4), of length] act have "length js = 3" by simp
  with c show ?thesis by (auto simp: run_defs)
qed

text \<open>
  C39: A publish that overlaps a cancellation undoes it for good. When the publish read the event
  as a draft and the event was published by somebody else, filled and cancelled before the write,
  the write makes it published again, and because the cancellation notices are already in the
  outbox under their keys, every later attempt to cancel it fails with a constraint violation.
\<close>

theorem stale_publish_undoes_cancel:
  assumes "schema_ok d" "event_by_id i snap = Some ev" "evt_organizer_id ev = usr_id user" "evt_status ev = Draft"
    and "event_by_id i d = Some ev2" "evt_organizer_id ev2 = usr_id user" "evt_status ev2 = EventCancelled"
    and "r \<in> set (active_of_event i d)"
    and "idempotency_key (reg_id r) ''EventCancelled'' \<in> job_idempotency_key ` set (notification_jobs d)"
    and "now2 < replace_tzinfo_utc (evt_starts_at ev2)"
  shows "\<exists>e d'. publish_event user i now snap d = (Inr e, d')
     \<and> map_option evt_status (event_by_id i d') = Some Published
     \<and> cancel_event user i new_id now2 snow jnow d' = (Inl IntegrityError, d')"
proof -
  let ?f = "\<lambda>e. e\<lparr>evt_status := Published, evt_updated_at := now\<rparr>"
  let ?d' = "save_event i ?f d"
  have pub: "publish_event user i now snap d = (Inr (?f ev), ?d')"
    using assms(2-4) by (simp add: publish_event_Inr del: save_event_simps)
  note ev2 = event_by_id_Some[OF assms(5)]
  have ok': "schema_ok ?d'" using pub assms(1) by (rule publish_event_schema_ok)
  have "?f ev2 \<in> set (events ?d')" using ev2 by (auto simp: set_update_where image_iff intro!: bexI[where x = ev2])
  from event_by_id_eq[OF ok' this] have found: "event_by_id i ?d' = Some (?f ev2)" using ev2 by simp
  have act: "active_of_event i (save_event j g (save_event i f d)) = active_of_event i d" for j f g
    by (simp add: active_of_event_def)
  have "job_idempotency_key (event_cancelled_job i o_at new_id jnow r) = idempotency_key (reg_id r) ''EventCancelled''" for o_at
    by (simp add: event_cancelled_job_def)
  with assms(8,9) have "bulk_create_jobs (map (event_cancelled_job i (isoformat jnow) new_id jnow) (active_of_event i d))
      (save_event i g ?d') = (Inl IntegrityError, save_event i g ?d')" for g
    by (auto simp: bulk_create_jobs_def intro!: bexI[where x = r])
  with found assms(6,8,10) have "cancel_event user i new_id now2 snow jnow ?d' = (Inl IntegrityError, ?d')"
    by (auto simp: cancel_event_def in_transaction_def assert_owner_def act and_then_def Let_def simp del: save_event_simps)
  with pub found show ?thesis by auto
qed

theorem stale_publish_undoes_cancel_witness:
  "\<exists>e d' d. publish_event organizer1 10 600 (sample_db\<lparr>events := [event10\<lparr>evt_status := Draft\<rparr>]\<rparr>) d = (Inr e, d')
     \<and> map_option evt_status (event_by_id 10 d) = Some EventCancelled
     \<and> map_option evt_status (event_by_id 10 d') = Some Published
     \<and> cancel_event organizer1 10 (\<lambda>k. k + 200) 700 700 700 d' = (Inl IntegrityError, d')"
proof -
  let ?snap = "sample_db\<lparr>events := [event10\<lparr>evt_status := Draft\<rparr>]\<rparr>"
  let ?ev = "event10\<lparr>evt_status := Draft\<rparr>" and ?ev2 = "event10\<lparr>evt_status := EventCancelled\<rparr>"
  let ?r = "sample_reg 20 2 Confirmed 100"
  let ?d = "full_db\<lparr>events := [?ev2],
     notification_jobs := notification_jobs full_db @ [event_cancelled_job 10 ''t'' (\<lambda>k. k + 100) 500 ?r]\<rparr>"
  have "schema_ok ?d" by (simp add: schema_ok_def run_defs eval_defs event_cancelled_job_def)
  moreover have "event_by_id 10 ?snap = Some ?ev" "evt_organizer_id ?ev = usr_id organizer1" "evt_status ?ev = Draft"
    "event_by_id 10 ?d = Some ?ev2" "evt_organizer_id ?ev2 = usr_id organizer1" "evt_status ?ev2 = EventCancelled"
    by (simp_all add: event_by_id_def sample_defs)
  moreover have "?r \<in> set (active_of_event 10 ?d)" by (simp add: active_of_event_def active_def full_db_def sample_reg_def)
  moreover have "idempotency_key (reg_id ?r) ''EventCancelled'' \<in> job_idempotency_key ` set (notification_jobs ?d)"
    by (simp add: event_cancelled_job_def)
  moreover have "700 < replace_tzinfo_utc (evt_starts_at ?ev2)" by (simp add: event10_def)
  ultimately show ?thesis
    using stale_publish_undoes_cancel[of ?d 10 ?snap ?ev organizer1 ?ev2 ?r 700 600 "\<lambda>k. k + 200" 700 700]
    by (metis option.simps(9))
qed

end
