(* ===== verification/Outbox.thy ===== *)
theory Outbox
  imports Models
begin

text \<open>
  The SQL layer of the notification worker (\<open>hefest/worker/claim.py\<close> and
  \<open>renew_heartbeat\<close> of \<open>hefest/worker/heartbeat.py\<close>). Each function is one statement on the table
  \<open>notification_jobs\<close>: it takes the statement's timestamp and the table and returns the result and
  the table afterwards. \<open>SKIP LOCKED\<close> is the argument \<open>locked\<close>, the ids whose rows another open
  transaction holds.
\<close>

type_synonym jobs = "notification_job list"

section \<open>Claiming\<close>

record claimed_job =
  cj_id :: uuid
  cj_event_type :: string
  cj_payload :: payload
  cj_idempotency_key :: string
  cj_attempts :: int

definition claimed_of :: "notification_job \<Rightarrow> claimed_job" where
  "claimed_of j = \<lparr>cj_id = job_id j, cj_event_type = job_event_type j, cj_payload = job_payload j,
     cj_idempotency_key = job_idempotency_key j, cj_attempts = job_attempts j\<rparr>"

text \<open>
  A raw query returns a jsonb column as text, which is parsed (\<open>loads\<close>, of orjson); a decoded value
  passes through.
\<close>

datatype raw_payload = RawText string | Decoded payload

definition normalize_payload :: "(string \<Rightarrow> exc + payload) \<Rightarrow> raw_payload \<Rightarrow> exc + payload" where
  "normalize_payload loads p = (case p of RawText s \<Rightarrow> loads s | Decoded q \<Rightarrow> Inr q)"

definition claimed_row :: "(string \<Rightarrow> exc + payload) \<Rightarrow> raw_payload \<Rightarrow> notification_job \<Rightarrow> exc + claimed_job" where
  "claimed_row loads raw j = map_sum id (\<lambda>p. (claimed_of j)\<lparr>cj_payload := p\<rparr>) (normalize_payload loads raw)"

text \<open>Parsing inverts writing, so a claimed row carries the payload of its job.\<close>

lemma claimed_row_eq:
  "loads (dumps (job_payload j)) = Inr (job_payload j) \<Longrightarrow> claimed_row loads (RawText (dumps (job_payload j))) j = Inr (claimed_of j)"
  "claimed_row loads (Decoded (job_payload j)) j = Inr (claimed_of j)"
  by (simp_all add: claimed_row_def normalize_payload_def claimed_of_def)

definition job_fifo :: "notification_job \<Rightarrow> fifo_key" where
  "job_fifo j = FifoKey (job_next_attempt_at j) (job_id j)"

definition due :: "instant \<Rightarrow> uuid set \<Rightarrow> notification_job \<Rightarrow> bool" where
  "due now locked j \<longleftrightarrow> job_status_of j = Pending \<and> job_next_attempt_at j \<le> now \<and> job_id j \<notin> locked"

definition claimable :: "instant \<Rightarrow> uuid set \<Rightarrow> nat \<Rightarrow> jobs \<Rightarrow> uuid list" where
  "claimable now locked batch_size js =
     map job_id (take batch_size (sort_key job_fifo (filter (due now locked) js)))"

definition stamp_claim :: "string \<Rightarrow> instant \<Rightarrow> notification_job \<Rightarrow> notification_job" where
  "stamp_claim worker_id now j = j\<lparr>job_status_of := Processing, job_locked_by := Some worker_id,
     job_heartbeat_at := Some now, job_attempts := job_attempts j + 1, job_updated_at := now\<rparr>"

lemma stamp_claim_simps [simp]:
  "job_id (stamp_claim w now j) = job_id j" "job_locked_by (stamp_claim w now j) = Some w"
  "job_status_of (stamp_claim w now j) = Processing" "job_attempts (stamp_claim w now j) = job_attempts j + 1"
  "job_idempotency_key (stamp_claim w now j) = job_idempotency_key j" "job_heartbeat_at (stamp_claim w now j) = Some now"
  by (simp_all add: stamp_claim_def)

text \<open>The rows of \<open>RETURNING\<close> come in no particular order; here, in the order of the table.\<close>

definition claim_batch :: "string \<Rightarrow> nat \<Rightarrow> instant \<Rightarrow> uuid set \<Rightarrow> jobs \<Rightarrow> claimed_job list \<times> jobs" where
  "claim_batch worker_id batch_size now locked js =
     (let ids = set (claimable now locked batch_size js);
          js' = update_where (\<lambda>j. job_id j \<in> ids) (stamp_claim worker_id now) js
      in (map claimed_of (filter (\<lambda>j. job_id j \<in> ids) js'), js'))"

section \<open>Reaping\<close>

definition stale :: "int \<Rightarrow> instant \<Rightarrow> uuid set \<Rightarrow> notification_job \<Rightarrow> bool" where
  "stale idle now locked j \<longleftrightarrow> job_status_of j = Processing \<and> job_id j \<notin> locked
     \<and> (case job_heartbeat_at j of None \<Rightarrow> False | Some h \<Rightarrow> h < now - seconds idle)"

definition reap_stale :: "int \<Rightarrow> nat \<Rightarrow> instant \<Rightarrow> uuid set \<Rightarrow> jobs \<Rightarrow> nat \<times> jobs" where
  "reap_stale reaper_idle_seconds batch_size now locked js =
     (let ids = set (map job_id (take batch_size (filter (stale reaper_idle_seconds now locked) js)))
      in (count_where (\<lambda>j. job_id j \<in> ids) js,
          update_where (\<lambda>j. job_id j \<in> ids)
            (\<lambda>j. j\<lparr>job_status_of := Pending, job_locked_by := None, job_updated_at := now\<rparr>) js))"

section \<open>The fenced finalizers\<close>

definition fence :: "uuid \<Rightarrow> string \<Rightarrow> notification_job \<Rightarrow> bool" where
  "fence jid worker_id j \<longleftrightarrow> job_id j = jid \<and> job_locked_by j = Some worker_id \<and> job_status_of j = Processing"

definition mark_completed :: "uuid \<Rightarrow> string \<Rightarrow> instant \<Rightarrow> jobs \<Rightarrow> bool \<times> jobs" where
  "mark_completed jid worker_id now js =
     (count_where (fence jid worker_id) js = 1,
      update_where (fence jid worker_id) (\<lambda>j. j\<lparr>job_status_of := Completed, job_updated_at := now\<rparr>) js)"

definition mark_retry :: "string \<Rightarrow> int \<Rightarrow> uuid \<Rightarrow> string \<Rightarrow> instant \<Rightarrow> jobs \<Rightarrow> bool \<times> jobs" where
  "mark_retry last_error delay_seconds jid worker_id now js =
     (count_where (fence jid worker_id) js = 1,
      update_where (fence jid worker_id)
        (\<lambda>j. j\<lparr>job_status_of := Pending, job_locked_by := None, job_last_error := Some last_error,
              job_next_attempt_at := now + seconds delay_seconds, job_updated_at := now\<rparr>) js)"

definition mark_failed :: "string \<Rightarrow> uuid \<Rightarrow> string \<Rightarrow> instant \<Rightarrow> jobs \<Rightarrow> bool \<times> jobs" where
  "mark_failed last_error jid worker_id now js =
     (count_where (fence jid worker_id) js = 1,
      update_where (fence jid worker_id)
        (\<lambda>j. j\<lparr>job_status_of := Failed, job_last_error := Some last_error, job_updated_at := now\<rparr>) js)"

definition backoff_delay :: "nat \<Rightarrow> int \<Rightarrow> int" where
  "backoff_delay attempts backoff_base = backoff_base * 4 ^ (attempts - 1)"

section \<open>Renewing leases\<close>

definition owned :: "string \<Rightarrow> notification_job \<Rightarrow> bool" where
  "owned worker_id j \<longleftrightarrow> job_locked_by j = Some worker_id \<and> job_status_of j = Processing"

definition renew_heartbeat :: "string \<Rightarrow> instant \<Rightarrow> jobs \<Rightarrow> nat \<times> jobs" where
  "renew_heartbeat worker_id now js =
     (count_where (owned worker_id) js,
      update_where (owned worker_id) (\<lambda>j. j\<lparr>job_heartbeat_at := Some now, job_updated_at := now\<rparr>) js)"

section \<open>The finalizer contract\<close>

text \<open>
  What the consumer relies on. A finalizer whose fence does not hold reports \<open>False\<close> and writes
  nothing; one whose fence holds reports \<open>True\<close>, takes that row out of processing and writes no
  other row. From this follow, for any finalizer: a second run of it, by the same worker, reports
  \<open>False\<close> and writes nothing (so retrying a commit whose acknowledgement was lost is safe), and
  finalizers of different jobs commute (so the jobs of a batch may finish in any order).
\<close>

locale fenced_finalizer =
  fixes fin :: "uuid \<Rightarrow> string \<Rightarrow> instant \<Rightarrow> jobs \<Rightarrow> bool \<times> jobs" and new :: "instant \<Rightarrow> notification_job \<Rightarrow> notification_job"
  assumes fin_update: "snd (fin jid w now js) = update_where (fence jid w) (new now) js"
    and fin_result: "fst (fin jid w now js) \<longleftrightarrow> count_where (fence jid w) js = 1"
    and new_id: "job_id (new now j) = job_id j"
    and new_attempts: "job_attempts (new now j) = job_attempts j"
    and new_key: "job_idempotency_key (new now j) = job_idempotency_key j"
    and new_released: "job_status_of (new now j) \<noteq> Processing"
begin

lemma fin_lost: "(\<And>j. j \<in> set js \<Longrightarrow> \<not> fence jid w j) \<Longrightarrow> fin jid w now js = (False, js)"
proof -
  assume n: "\<And>j. j \<in> set js \<Longrightarrow> \<not> fence jid w j"
  then have "count_where (fence jid w) js = 0" by (simp add: count_where_def filter_empty_conv)
  with n show ?thesis by (intro prod_eqI) (simp_all add: fin_update fin_result update_where_none)
qed

lemma fin_held:
  assumes "distinct (map job_id js)" "j \<in> set js" "fence jid w j"
  shows "fin jid w now js = (True, update_where (\<lambda>x. job_id x = jid) (new now) js)"
proof -
  have eq: "fence jid w x \<longleftrightarrow> job_id x = jid" if "x \<in> set js" for x
    using pk_unique[OF assms(1,2) that] assms(3) by (auto simp: fence_def)
  have "count_where (fence jid w) js = count_where (\<lambda>x. job_id x = jid) js" using eq by (rule count_where_cong)
  also have "\<dots> = 1" using assms count_update_pk[OF assms(1,2), of "\<lambda>_. False" id]
  proof -
    have "filter (\<lambda>x. job_id x = job_id j) js = [j]"
      using assms(1,2) by (induction js) (auto simp: filter_empty_conv image_iff)
    then show ?thesis using assms(3) by (simp add: count_where_def fence_def)
  qed
  finally have one: "count_where (fence jid w) js = 1" .
  have "update_where (fence jid w) (new now) js = update_where (\<lambda>x. job_id x = jid) (new now) js"
    using eq by (simp add: update_where_def)
  with one show ?thesis by (intro prod_eqI) (simp_all add: fin_update fin_result)
qed

lemma fin_ids [simp]: "map job_id (snd (fin jid w now js)) = map job_id js"
  by (simp add: fin_update map_update_where new_id)

lemma fin_again: "fin jid w now2 (snd (fin jid w now js)) = (False, snd (fin jid w now js))"
  using new_released by (intro fin_lost) (auto simp: fin_update set_update_where fence_def split: if_splits)

lemma fin_other: "job_id j \<noteq> jid \<Longrightarrow> j \<in> set js \<Longrightarrow> j \<in> set (snd (fin jid w now js))"
  by (auto simp: fin_update set_update_where fence_def image_iff intro!: bexI[where x = j])

lemma fin_foreign: "job_locked_by j \<noteq> Some w \<Longrightarrow> j \<in> set js \<Longrightarrow> j \<in> set (snd (fin jid w now js))"
  by (auto simp: fin_update set_update_where fence_def image_iff intro!: bexI[where x = j])

end

interpretation completed: fenced_finalizer mark_completed
  "\<lambda>now j. j\<lparr>job_status_of := Completed, job_updated_at := now\<rparr>"
  by unfold_locales (auto simp: mark_completed_def)

interpretation retried: fenced_finalizer "mark_retry err delay"
  "\<lambda>now j. j\<lparr>job_status_of := Pending, job_locked_by := None, job_last_error := Some err,
      job_next_attempt_at := now + seconds delay, job_updated_at := now\<rparr>" for err delay
  by unfold_locales (auto simp: mark_retry_def)

interpretation failed: fenced_finalizer "mark_failed err"
  "\<lambda>now j. j\<lparr>job_status_of := Failed, job_last_error := Some err, job_updated_at := now\<rparr>" for err
  by unfold_locales (auto simp: mark_failed_def)

end
