(* ===== verification/Outbox_Properties.thy ===== *)
theory Outbox_Properties
  imports Outbox Lifecycle
begin

text \<open>
  The properties of the outbox table under any interleaving of workers: claims are exclusive and
  first-in-first-out, finished jobs are never written again, attempts only grow, a renewed lease is
  not reaped, and finalizers of different jobs commute.
\<close>

section \<open>Selection\<close>

lemma set_claimable: "i \<in> set (claimable now locked n js) \<Longrightarrow> \<exists>j\<in>set js. job_id j = i \<and> due now locked j"
  by (auto simp: claimable_def dest!: in_set_takeD)

lemma claimable_due:
  assumes "distinct (map job_id js)" "j \<in> set js" "job_id j \<in> set (claimable now locked n js)"
  shows "due now locked j"
  using set_claimable[OF assms(3)] pk_unique[OF assms(1,2)] by blast

lemma reaped_stale:
  assumes "distinct (map job_id js)" "j \<in> set js"
    and "job_id j \<in> set (map job_id (take n (filter (stale idle now locked) js)))"
  shows "stale idle now locked j"
  using assms(3) pk_unique[OF assms(1,2)] by (fastforce dest!: in_set_takeD)

lemma inj_job_fifo: "distinct (map job_id js) \<Longrightarrow> inj_on job_fifo (set js)"
  by (auto simp: job_fifo_def inj_on_def distinct_map)

section \<open>Steps of the table\<close>

inductive queue_step :: "jobs \<Rightarrow> jobs \<Rightarrow> bool" where
  enqueue: "i \<notin> job_id ` set js \<Longrightarrow> k \<notin> job_idempotency_key ` set js \<Longrightarrow>
     queue_step js (js @ [new_job i eo ty p k now])"
| claim: "queue_step js (snd (claim_batch w n now locked js))"
| reap: "queue_step js (snd (reap_stale idle n now locked js))"
| complete: "queue_step js (snd (mark_completed jid w now js))"
| retry: "queue_step js (snd (mark_retry err delay jid w now js))"
| fail: "queue_step js (snd (mark_failed err jid w now js))"
| renew: "queue_step js (snd (renew_heartbeat w now js))"

definition finished :: "notification_job \<Rightarrow> bool" where
  "finished j \<longleftrightarrow> job_status_of j = Completed \<or> job_status_of j = Failed"

definition job_ok :: "notification_job \<Rightarrow> bool" where
  "job_ok j \<longleftrightarrow> 0 \<le> job_attempts j \<and> (job_status_of j \<noteq> Pending \<longrightarrow> 1 \<le> job_attempts j)
     \<and> (job_status_of j = Pending \<longrightarrow> job_locked_by j = None)
     \<and> (job_status_of j = Processing \<longrightarrow> job_locked_by j \<noteq> None \<and> job_heartbeat_at j \<noteq> None)"

definition queue_ok :: "jobs \<Rightarrow> bool" where
  "queue_ok js \<longleftrightarrow> distinct (map job_id js) \<and> distinct (map job_idempotency_key js) \<and> (\<forall>j\<in>set js. job_ok j)"

text \<open>What a statement may do to one row.\<close>

definition row_step :: "notification_job \<Rightarrow> notification_job \<Rightarrow> bool" where
  "row_step j j' \<longleftrightarrow> job_id j' = job_id j \<and> job_idempotency_key j' = job_idempotency_key j
     \<and> job_event_type j' = job_event_type j \<and> job_payload j' = job_payload j
     \<and> job_attempts j \<le> job_attempts j' \<and> (finished j \<longrightarrow> j' = j) \<and> (job_ok j \<longrightarrow> job_ok j')"

lemma row_step_refl [simp]: "row_step j j"
  by (simp add: row_step_def)

lemma update_where_rows:
  assumes "\<And>j. j \<in> set js \<Longrightarrow> P j \<Longrightarrow> row_step j (g j)"
  shows "list_all2 row_step js (update_where P g js)"
  using assms by (induction js) auto

lemma row_claim: "due now locked j \<Longrightarrow> row_step j (stamp_claim w now j)"
  by (simp add: due_def row_step_def stamp_claim_def finished_def job_ok_def)

lemma row_reap:
  "stale idle now locked j \<Longrightarrow> row_step j (j\<lparr>job_status_of := Pending, job_locked_by := None, job_updated_at := now\<rparr>)"
  by (simp add: stale_def row_step_def finished_def job_ok_def)

lemma row_finalize:
  "fence jid w j \<Longrightarrow> row_step j (j\<lparr>job_status_of := Completed, job_updated_at := now\<rparr>)"
  "fence jid w j \<Longrightarrow> row_step j (j\<lparr>job_status_of := Pending, job_locked_by := None, job_last_error := e,
      job_next_attempt_at := t, job_updated_at := now\<rparr>)"
  "fence jid w j \<Longrightarrow> row_step j (j\<lparr>job_status_of := Failed, job_last_error := e, job_updated_at := now\<rparr>)"
  "owned w j \<Longrightarrow> row_step j (j\<lparr>job_heartbeat_at := Some now, job_updated_at := now\<rparr>)"
  by (simp_all add: fence_def owned_def row_step_def finished_def job_ok_def)

lemma claim_rows:
  "distinct (map job_id js) \<Longrightarrow> list_all2 row_step js (snd (claim_batch w n now locked js))"
  unfolding claim_batch_def Let_def snd_conv
  by (rule update_where_rows, rule row_claim, rule claimable_due)

lemma reap_rows:
  "distinct (map job_id js) \<Longrightarrow> list_all2 row_step js (snd (reap_stale idle n now locked js))"
  unfolding reap_stale_def Let_def snd_conv
  by (rule update_where_rows, rule row_reap, rule reaped_stale)

lemma queue_step_rows:
  assumes "queue_step js js'" "queue_ok js"
  shows "\<exists>old new. js' = old @ new \<and> list_all2 row_step js old \<and> (\<forall>j\<in>set new. job_ok j)
     \<and> distinct (map job_id js') \<and> distinct (map job_idempotency_key js')"
proof -
  have d: "distinct (map job_id js)" "distinct (map job_idempotency_key js)" using assms(2) by (simp_all add: queue_ok_def)
  have keep: ?thesis if "list_all2 row_step js js'"
  proof -
    have "map job_id js' = map job_id js \<and> map job_idempotency_key js' = map job_idempotency_key js"
      using that by (induction rule: list_all2_induct) (auto simp: row_step_def)
    with d that show ?thesis by (intro exI[where x = js'] exI[where x = "[]"]) auto
  qed
  from assms(1) show ?thesis
  proof cases
    case (enqueue i k eo ty p now)
    with d show ?thesis
      by (intro exI[where x = js] exI[where x = "[new_job i eo ty p k now]"])
        (auto simp: job_ok_def list_all2_same)
  next
    case (claim w n now locked)
    with claim_rows[OF d(1)] keep show ?thesis by blast
  next
    case (reap idle n now locked)
    with reap_rows[OF d(1)] keep show ?thesis by blast
  next
    case (complete jid w now)
    then show ?thesis by (intro keep) (auto simp: mark_completed_def intro!: update_where_rows row_finalize)
  next
    case (retry err delay jid w now)
    then show ?thesis by (intro keep) (auto simp: mark_retry_def intro!: update_where_rows row_finalize)
  next
    case (fail err jid w now)
    then show ?thesis by (intro keep) (auto simp: mark_failed_def intro!: update_where_rows row_finalize)
  next
    case (renew w now)
    then show ?thesis by (intro keep) (auto simp: renew_heartbeat_def intro!: update_where_rows row_finalize)
  qed
qed

lemma queue_step_ok: "queue_ok js \<Longrightarrow> queue_step js js' \<Longrightarrow> queue_ok js'"
proof -
  assume ok: "queue_ok js" and "queue_step js js'"
  then obtain old new where s: "js' = old @ new" "list_all2 row_step js old" "\<forall>j\<in>set new. job_ok j"
      "distinct (map job_id js')" "distinct (map job_idempotency_key js')"
    using queue_step_rows by blast
  have "\<forall>j\<in>set js. job_ok j" using ok by (simp add: queue_ok_def)
  with s(2) have "\<forall>j\<in>set old. job_ok j" by (induction rule: list_all2_induct) (auto simp: row_step_def)
  with s show ?thesis by (auto simp: queue_ok_def)
qed

lemma queue_step_row:
  assumes "queue_ok js" "queue_step js js'" "j \<in> set js"
  shows "\<exists>j'\<in>set js'. row_step j j'"
proof -
  obtain old new where s: "js' = old @ new" "list_all2 row_step js old"
    using queue_step_rows[OF assms(2,1)] by blast
  from assms(3) obtain n where "n < length js" "js ! n = j" by (auto simp: in_set_conv_nth)
  with s show ?thesis by (auto simp: list_all2_conv_all_nth intro!: bexI[where x = "old ! n"])
qed

interpretation job_lifecycle: frozen_lifecycle "\<lambda>js. js" job_id "\<lambda>j. nat (job_attempts j)" queue_ok queue_step finished
proof
  fix js js' :: jobs and j
  assume a: "queue_ok js" "queue_step js js'" "j \<in> set js"
  from queue_step_row[OF this] show "\<exists>j'\<in>set js'. job_id j' = job_id j \<and> nat (job_attempts j) \<le> nat (job_attempts j')"
    by (auto simp: row_step_def intro: nat_mono)
  show "finished j \<Longrightarrow> j \<in> set js'" using queue_step_row[OF a] by (auto simp: row_step_def)
qed (simp add: queue_ok_def, rule queue_step_ok)

section \<open>Properties\<close>

lemma queue_run_rows:
  "queue_step\<^sup>*\<^sup>* js js' \<Longrightarrow> queue_ok js \<Longrightarrow> j \<in> set js \<Longrightarrow> \<exists>j'\<in>set js'. row_step j j'"
proof (induction rule: rtranclp_induct)
  case (step t u)
  then obtain j1 where j1: "j1 \<in> set t" "row_step j j1" by blast
  from queue_step_row[OF job_lifecycle.run_inv[OF step(1,4)] step(2) j1(1)] obtain j2 where "j2 \<in> set u" "row_step j1 j2" by blast
  moreover from this j1 have "row_step j j2" by (auto simp: row_step_def)
  ultimately show ?case by blast
qed (use row_step_refl in blast)

text \<open>
  C20: Under any interleaving of workers, reapers and enqueuers, a finished job is never written
  again, no job disappears, its payload and key never change, and its attempt counter never falls.
\<close>

theorem outbox_rows_persist:
  assumes "queue_step\<^sup>*\<^sup>* js js'" "queue_ok js" "j \<in> set js"
  shows "queue_ok js' \<and> (finished j \<longrightarrow> j \<in> set js')
     \<and> (\<exists>j'\<in>set js'. job_id j' = job_id j \<and> job_idempotency_key j' = job_idempotency_key j
          \<and> job_event_type j' = job_event_type j \<and> job_payload j' = job_payload j \<and> job_attempts j \<le> job_attempts j')"
  using job_lifecycle.run_inv[OF assms(1,2)] job_lifecycle.run_final[OF assms] queue_run_rows[OF assms]
  by (auto simp: row_step_def)

definition sample_queue :: jobs where
  "sample_queue = [new_job 1 None ''A'' Map.empty ''k1'' 20, new_job 2 None ''B'' Map.empty ''k2'' 10,
     (new_job 3 None ''C'' Map.empty ''k3'' 5)\<lparr>job_status_of := Completed, job_attempts := 1\<rparr>]"

lemma sample_queue_ok: "queue_ok sample_queue"
  by (simp add: queue_ok_def sample_queue_def job_ok_def)

lemma sample_claim: "claim_batch ''w'' 1 30 {} sample_queue =
    ([claimed_of (stamp_claim ''w'' 30 (new_job 2 None ''B'' Map.empty ''k2'' 10))],
     [new_job 1 None ''A'' Map.empty ''k1'' 20, stamp_claim ''w'' 30 (new_job 2 None ''B'' Map.empty ''k2'' 10),
      (new_job 3 None ''C'' Map.empty ''k3'' 5)\<lparr>job_status_of := Completed, job_attempts := 1\<rparr>])"
  by (simp add: claim_batch_def claimable_def due_def job_fifo_def sample_queue_def stamp_claim_def)

theorem outbox_rows_persist_witness:
  "queue_ok (snd (claim_batch ''w'' 1 30 {} sample_queue))
   \<and> (new_job 3 None ''C'' Map.empty ''k3'' 5)\<lparr>job_status_of := Completed, job_attempts := 1\<rparr>
       \<in> set (snd (claim_batch ''w'' 1 30 {} sample_queue))"
proof -
  have "queue_step\<^sup>*\<^sup>* sample_queue (snd (claim_batch ''w'' 1 30 {} sample_queue))"
    by (rule r_into_rtranclp) (rule queue_step.claim)
  from outbox_rows_persist[OF this sample_queue_ok,
      of "(new_job 3 None ''C'' Map.empty ''k3'' 5)\<lparr>job_status_of := Completed, job_attempts := 1\<rparr>"]
  show ?thesis by (simp add: sample_queue_def finished_def)
qed

lemma claim_ids:
  assumes "distinct (map job_id js)"
  shows "cj_id ` set (fst (claim_batch w n now locked js)) = set (claimable now locked n js)" (is "?L = ?R")
proof
  show "?L \<subseteq> ?R"
    by (auto simp: claim_batch_def Let_def claimed_of_def)
  show "?R \<subseteq> ?L"
  proof
    fix i assume i: "i \<in> ?R"
    then obtain j where j: "j \<in> set js" "job_id j = i" using set_claimable by blast
    have "stamp_claim w now j \<in> set (filter (\<lambda>j. job_id j \<in> ?R) (update_where (\<lambda>j. job_id j \<in> ?R) (stamp_claim w now) js))"
      using j i by (auto simp: set_update_where stamp_claim_def image_iff intro!: bexI[where x = j])
    then show "i \<in> ?L" using j
      by (auto simp: claim_batch_def Let_def claimed_of_def image_iff stamp_claim_def intro!: bexI[where x = "stamp_claim w now j"])
  qed
qed

lemma claim_row:
  assumes "distinct (map job_id js)" "c \<in> set (fst (claim_batch w n now locked js))"
  obtains j where "j \<in> set js" "due now locked j" "c = claimed_of (stamp_claim w now j)"
    "stamp_claim w now j \<in> set (snd (claim_batch w n now locked js))"
proof -
  let ?ids = "set (claimable now locked n js)"
  from assms(2) obtain x where x: "x \<in> set (update_where (\<lambda>j. job_id j \<in> ?ids) (stamp_claim w now) js)" "job_id x \<in> ?ids" "c = claimed_of x"
    by (auto simp: claim_batch_def Let_def)
  then obtain j where j: "j \<in> set js" "x = (if job_id j \<in> ?ids then stamp_claim w now j else j)" by (auto simp: set_update_where)
  then have i: "job_id j \<in> ?ids" using x(2) by (auto simp: stamp_claim_def split: if_splits)
  with j x have "x = stamp_claim w now j" by simp
  with that j(1) claimable_due[OF assms(1) j(1) i] x show thesis by (auto simp: claim_batch_def Let_def)
qed

lemma claim_count:
  assumes "distinct (map job_id js)"
  shows "length (fst (claim_batch w n now locked js)) = min n (count_where (due now locked) js)"
proof -
  let ?ids = "set (claimable now locked n js)"
  have d: "distinct (claimable now locked n js)"
  proof -
    have "distinct (map job_id (filter (due now locked) js))" using assms by (rule distinct_map_filter)
    then have "distinct (map job_id (sort_key job_fifo (filter (due now locked) js)))"
      by (simp add: distinct_map)
    then show ?thesis by (simp add: claimable_def take_map[symmetric])
  qed
  have "length (fst (claim_batch w n now locked js)) = length (filter (\<lambda>i. i \<in> ?ids) (map job_id (update_where (\<lambda>j. job_id j \<in> ?ids) (stamp_claim w now) js)))"
    by (simp add: claim_batch_def Let_def filter_map comp_def)
  also have "\<dots> = length (filter (\<lambda>i. i \<in> ?ids) (map job_id js))"
    by (simp add: map_update_where stamp_claim_def)
  also have "\<dots> = card (set (filter (\<lambda>i. i \<in> ?ids) (map job_id js)))"
    using assms by (intro distinct_card[symmetric] distinct_filter)
  also have "set (filter (\<lambda>i. i \<in> ?ids) (map job_id js)) = ?ids" using set_claimable by fastforce
  also have "card ?ids = min n (count_where (due now locked) js)"
    using distinct_card[OF d] by (simp add: claimable_def count_where_def min.commute)
  finally show ?thesis .
qed

lemma sorted_take_drop_less:
  assumes "inj_on k (set xs)" "distinct xs" "x \<in> set (take n (sort_key k xs))" "y \<in> set xs" "y \<notin> set (take n (sort_key k xs))"
  shows "k x < k y"
proof -
  have "y \<in> set (drop n (sort_key k xs))" using assms(4,5) by (metis Un_iff append_take_drop_id set_append set_sort)
  moreover have "sorted (map k (take n (sort_key k xs) @ drop n (sort_key k xs)))" by simp
  ultimately have "k x \<le> k y" using assms(3) unfolding map_append sorted_append by auto
  moreover have "x \<in> set xs" using assms(3) by (metis in_set_takeD set_sort)
  ultimately show ?thesis using assms by (metis inj_onD order_le_less)
qed

lemma claim_batch_spec:
  assumes "queue_ok js" "claim_batch w n now locked js = (got, js')"
  shows "length got = min n (count_where (due now locked) js)
     \<and> (\<forall>c\<in>set got. \<exists>j\<in>set js. due now locked j \<and> cj_id c = job_id j \<and> cj_attempts c = job_attempts j + 1
          \<and> stamp_claim w now j \<in> set js'
          \<and> (\<forall>k\<in>set js. due now locked k \<and> job_id k \<notin> cj_id ` set got \<longrightarrow> job_fifo j < job_fifo k))
     \<and> (\<forall>k\<in>set js. job_id k \<notin> cj_id ` set got \<longrightarrow> k \<in> set js')"
proof -
  have d: "distinct (map job_id js)" using assms(1) by (simp add: queue_ok_def)
  have got: "got = fst (claim_batch w n now locked js)" "js' = snd (claim_batch w n now locked js)" using assms(2) by simp_all
  note ids = claim_ids[OF d, of w n now locked, folded got(1)]
  have untouched: "k \<in> set js'" if "k \<in> set js" "job_id k \<notin> cj_id ` set got" for k
    using that unfolding ids by (auto simp: got claim_batch_def Let_def set_update_where image_iff intro!: bexI[where x = k])
  have taken: "\<exists>j\<in>set js. due now locked j \<and> cj_id c = job_id j \<and> cj_attempts c = job_attempts j + 1
          \<and> stamp_claim w now j \<in> set js'
          \<and> (\<forall>k\<in>set js. due now locked k \<and> job_id k \<notin> cj_id ` set got \<longrightarrow> job_fifo j < job_fifo k)"
    if c: "c \<in> set got" for c
  proof -
    from c obtain j where j: "j \<in> set js" "due now locked j" "c = claimed_of (stamp_claim w now j)" "stamp_claim w now j \<in> set js'"
      unfolding got using claim_row[OF d] by metis
    let ?q = "filter (due now locked) js"
    have in_take: "x \<in> set (take n (sort_key job_fifo ?q))" if "x \<in> set js" "job_id x \<in> cj_id ` set got" for x
    proof -
      from that(2) ids obtain y where y: "y \<in> set (take n (sort_key job_fifo ?q))" "job_id y = job_id x" by (auto simp: claimable_def)
      then have "y \<in> set js" by (auto dest!: in_set_takeD)
      with y that(1) show ?thesis using pk_unique[OF d that(1)] by metis
    qed
    have "job_fifo j < job_fifo k" if "k \<in> set js" "due now locked k" "job_id k \<notin> cj_id ` set got" for k
    proof (rule sorted_take_drop_less[where xs = ?q and n = n])
      show "inj_on job_fifo (set ?q)" using inj_job_fifo[OF d] by (rule inj_on_subset) auto
      show "distinct ?q" using d by (simp add: distinct_map)
      show "j \<in> set (take n (sort_key job_fifo ?q))"
        using c j(3) by (intro in_take[OF j(1)]) (force simp: claimed_of_def stamp_claim_def image_iff)
      show "k \<in> set ?q" using that by simp
      show "k \<notin> set (take n (sort_key job_fifo ?q))" using that(3) ids by (auto simp: claimable_def)
    qed
    with j show ?thesis by (intro bexI[OF _ j(1)]) (auto simp: claimed_of_def stamp_claim_def)
  qed
  from claim_count[OF d, of w n now locked] taken untouched show ?thesis by (simp add: got(1))
qed

text \<open>
  C25: A claim takes exactly as many due and unlocked jobs as fit the batch, oldest first: every
  claimed job was pending and due and now carries the worker's lease and one more attempt, every due
  job left behind is younger than all claimed ones, and rows that were not claimed are untouched.
\<close>

theorem claim_batch_takes_oldest_due:
  assumes "queue_ok js" "claim_batch w n now locked js = (got, js')"
    and "is_due = (\<lambda>j. job_status_of j = Pending \<and> job_next_attempt_at j \<le> now \<and> job_id j \<notin> locked)"
  shows "length got = min n (length (filter is_due js))
     \<and> (\<forall>c\<in>set got. \<exists>j\<in>set js. is_due j \<and> cj_id c = job_id j \<and> cj_attempts c = job_attempts j + 1
          \<and> j\<lparr>job_status_of := Processing, job_locked_by := Some w, job_heartbeat_at := Some now,
               job_attempts := job_attempts j + 1, job_updated_at := now\<rparr> \<in> set js'
          \<and> (\<forall>k\<in>set js. is_due k \<and> job_id k \<notin> cj_id ` set got \<longrightarrow> job_next_attempt_at j < job_next_attempt_at k
               \<or> job_next_attempt_at j = job_next_attempt_at k \<and> job_id j < job_id k))
     \<and> (\<forall>k\<in>set js. job_id k \<notin> cj_id ` set got \<longrightarrow> k \<in> set js')"
proof -
  have due: "due now locked = is_due" by (simp add: fun_eq_iff due_def assms(3))
  have fifo: "job_fifo j < job_fifo k \<longleftrightarrow> job_next_attempt_at j < job_next_attempt_at k
      \<or> job_next_attempt_at j = job_next_attempt_at k \<and> job_id j < job_id k" for j k
    by (simp add: job_fifo_def)
  show ?thesis using claim_batch_spec[OF assms(1,2)] unfolding due fifo stamp_claim_def count_where_def .
qed

theorem claim_batch_takes_oldest_due_witness:
  "\<exists>got js'. claim_batch ''w'' 1 30 {} sample_queue = (got, js') \<and> length got = 1
     \<and> new_job 1 None ''A'' Map.empty ''k1'' 20 \<in> set js'"
proof -
  obtain got js' where c: "claim_batch ''w'' 1 30 {} sample_queue = (got, js')" by fastforce
  note t = claim_batch_takes_oldest_due[OF sample_queue_ok c refl]
  have "length (filter (\<lambda>j. job_status_of j = Pending \<and> job_next_attempt_at j \<le> 30 \<and> job_id j \<notin> {}) sample_queue) = 2"
    by (simp add: sample_queue_def)
  moreover have "cj_id ` set got = {2}" using c sample_claim by (simp add: claimed_of_def)
  ultimately have "length got = 1" "new_job 1 None ''A'' Map.empty ''k1'' 20 \<in> set js'"
    using t by (auto simp: sample_queue_def)
  with c show ?thesis by blast
qed

text \<open>
  C16: Two claims never return the same job while the first lease stands: what a second claim, by
  any worker and with any locks, returns after the first is disjoint from it and leaves the first
  worker's rows as they are.
\<close>

theorem claims_are_exclusive:
  assumes "queue_ok js" "claim_batch w1 n1 t1 locked1 js = (got1, js1)" "claim_batch w2 n2 t2 locked2 js1 = (got2, js2)"
  shows "cj_id ` set got1 \<inter> cj_id ` set got2 = {}
     \<and> (\<forall>j\<in>set js1. job_id j \<in> cj_id ` set got1 \<longrightarrow> job_locked_by j = Some w1 \<and> j \<in> set js2)"
proof -
  have step: "queue_step js js1" using queue_step.claim[of js w1 n1 t1 locked1] assms(2) by simp
  have ok1: "queue_ok js1" by (rule queue_step_ok[OF assms(1) step])
  have d: "distinct (map job_id js)" "distinct (map job_id js1)" using assms(1) ok1 by (simp_all add: queue_ok_def)
  note first = claim_batch_spec[OF assms(1,2)] and second = claim_batch_spec[OF ok1 assms(3)]
  have stamped: "job_status_of j = Processing \<and> job_locked_by j = Some w1" if "j \<in> set js1" "job_id j \<in> cj_id ` set got1" for j
  proof -
    from that(2) first obtain x where "stamp_claim w1 t1 x \<in> set js1" "job_id (stamp_claim w1 t1 x) = job_id j"
      by auto
    with pk_unique[OF d(2) that(1)] have "j = stamp_claim w1 t1 x" by metis
    then show ?thesis by simp
  qed
  have disj: "job_id j \<notin> cj_id ` set got2" if "j \<in> set js1" "job_id j \<in> cj_id ` set got1" for j
  proof
    assume "job_id j \<in> cj_id ` set got2"
    with second obtain x where "x \<in> set js1" "due t2 locked2 x" "job_id x = job_id j" by auto
    with pk_unique[OF d(2) that(1)] have "due t2 locked2 j" by metis
    with stamped[OF that] show False by (simp add: due_def)
  qed
  have ex: "\<exists>j\<in>set js1. job_id j = i" if "i \<in> cj_id ` set got1" for i
  proof -
    from that first obtain x where "stamp_claim w1 t1 x \<in> set js1" "job_id x = i" by auto
    then show ?thesis by (intro bexI[where x = "stamp_claim w1 t1 x"]) simp_all
  qed
  have keep: "j \<in> set js2" if "j \<in> set js1" "job_id j \<notin> cj_id ` set got2" for j
    using second that by blast
  show ?thesis
  proof
    show "cj_id ` set got1 \<inter> cj_id ` set got2 = {}" using ex disj by (metis disjoint_iff)
    show "\<forall>j\<in>set js1. job_id j \<in> cj_id ` set got1 \<longrightarrow> job_locked_by j = Some w1 \<and> j \<in> set js2"
      using stamped disj keep by simp
  qed
qed

theorem claims_are_exclusive_witness:
  "\<exists>got1 js1 got2 js2. claim_batch ''w'' 1 30 {} sample_queue = (got1, js1) \<and> claim_batch ''v'' 5 30 {} js1 = (got2, js2)
     \<and> cj_id ` set got1 = {2} \<and> 2 \<notin> cj_id ` set got2"
proof -
  obtain got1 js1 where c1: "claim_batch ''w'' 1 30 {} sample_queue = (got1, js1)" by fastforce
  obtain got2 js2 where c2: "claim_batch ''v'' 5 30 {} js1 = (got2, js2)" by fastforce
  have ids: "cj_id ` set got1 = {2}" using c1 sample_claim by (simp add: claimed_of_def)
  with claims_are_exclusive[OF sample_queue_ok c1 c2] have "2 \<notin> cj_id ` set got2" by auto
  with c1 c2 ids show ?thesis by blast
qed

text \<open>
  A worker that renews in time keeps its leases: after a renewal at \<open>t\<close>, a reaper that runs
  no later than the idle threshold after \<open>t\<close> leaves every row of the worker as it is, so a
  finalizer of the worker still finds its fence.
\<close>

theorem renewed_lease_is_not_reaped:
  assumes "queue_ok js" "j \<in> set js" "owned w j" "now \<le> t + seconds idle"
  shows "let js1 = snd (renew_heartbeat w t js); js2 = snd (reap_stale idle n now locked js1) in
     j\<lparr>job_heartbeat_at := Some t, job_updated_at := t\<rparr> \<in> set js2 \<and> fst (mark_completed (job_id j) w now js2)"
proof -
  let ?j = "j\<lparr>job_heartbeat_at := Some t, job_updated_at := t\<rparr>"
  let ?js1 = "snd (renew_heartbeat w t js)"
  let ?js2 = "snd (reap_stale idle n now locked ?js1)"
  have ok1: "queue_ok ?js1" by (rule queue_step_ok[OF assms(1) queue_step.renew])
  have ok2: "queue_ok ?js2" by (rule queue_step_ok[OF ok1 queue_step.reap])
  have j1: "?j \<in> set ?js1" using assms(2,3)
    by (auto simp: renew_heartbeat_def set_update_where image_iff intro!: bexI[where x = j])
  have "\<not> stale idle now locked ?j" using assms(4) by (simp add: stale_def)
  then have "job_id ?j \<notin> set (map job_id (take n (filter (stale idle now locked) ?js1)))"
    using reaped_stale[OF _ j1, of n idle now locked] ok1 unfolding queue_ok_def by blast
  then have j2: "?j \<in> set ?js2" using j1
    by (auto simp: reap_stale_def Let_def set_update_where image_iff intro!: bexI[where x = ?j])
  have "fence (job_id j) w ?j" using assms(3) by (simp add: fence_def owned_def)
  with completed.fin_held[OF _ j2] ok2 have "fst (mark_completed (job_id j) w now ?js2)" by (simp add: queue_ok_def)
  with j2 show ?thesis by (simp add: Let_def)
qed

lemma claimed_queue_ok: "queue_ok (snd (claim_batch ''w'' 1 30 {} sample_queue))"
  by (rule queue_step_ok[OF sample_queue_ok queue_step.claim])

theorem renewed_lease_is_not_reaped_witness:
  "let js = snd (claim_batch ''w'' 1 30 {} sample_queue); js1 = snd (renew_heartbeat ''w'' 100 js);
       js2 = snd (reap_stale 300 50 (100 + seconds 300) {} js1) in
     fst (mark_completed 2 ''w'' (100 + seconds 300) js2)"
proof -
  let ?j = "stamp_claim ''w'' 30 (new_job 2 None ''B'' Map.empty ''k2'' 10)"
  have "?j \<in> set (snd (claim_batch ''w'' 1 30 {} sample_queue))" unfolding sample_claim by simp
  moreover have "owned ''w'' ?j" by (simp add: owned_def)
  ultimately show ?thesis
    using renewed_lease_is_not_reaped[OF claimed_queue_ok, of ?j "''w''" "100 + seconds 300" 100 300 50 "{}"]
    by (simp add: Let_def)
qed

lemma held_job: "j \<in> set js \<Longrightarrow> owned w j \<Longrightarrow> queue_ok js \<Longrightarrow> distinct (map job_id js) \<and> fence (job_id j) w j"
  by (simp add: owned_def fence_def queue_ok_def)

lemma lost_job:
  "j \<in> set js \<Longrightarrow> \<not> owned w j \<Longrightarrow> queue_ok js \<Longrightarrow> x \<in> set js \<Longrightarrow> \<not> fence (job_id j) w x"
  using pk_unique[of job_id js j x] by (auto simp: owned_def fence_def queue_ok_def)

lemma fence_outcome:
  assumes "queue_ok js" "j \<in> set js"
  shows "mark_completed (job_id j) w now js =
       (if owned w j then (True, update_where (\<lambda>x. job_id x = job_id j)
          (\<lambda>x. x\<lparr>job_status_of := Completed, job_updated_at := now\<rparr>) js) else (False, js))
     \<and> mark_failed err (job_id j) w now js =
       (if owned w j then (True, update_where (\<lambda>x. job_id x = job_id j)
          (\<lambda>x. x\<lparr>job_status_of := Failed, job_last_error := Some err, job_updated_at := now\<rparr>) js) else (False, js))
     \<and> mark_retry err delay (job_id j) w now js =
       (if owned w j then (True, update_where (\<lambda>x. job_id x = job_id j)
          (\<lambda>x. x\<lparr>job_status_of := Pending, job_locked_by := None, job_last_error := Some err,
                 job_next_attempt_at := now + seconds delay, job_updated_at := now\<rparr>) js) else (False, js))"
proof (cases "owned w j")
  case True
  note h = held_job[OF assms(2) True assms(1)]
  from h completed.fin_held[OF conjunct1[OF h] assms(2) conjunct2[OF h]] failed.fin_held[OF conjunct1[OF h] assms(2) conjunct2[OF h]]
    retried.fin_held[OF conjunct1[OF h] assms(2) conjunct2[OF h]] True
  show ?thesis by simp
next
  case False
  note l = lost_job[OF assms(2) False assms(1)]
  from completed.fin_lost[OF l] failed.fin_lost[OF l] retried.fin_lost[OF l] False show ?thesis by simp
qed

text \<open>
  C7: The fence. A finalizer applies exactly when the calling worker still holds the lease of the
  job; otherwise (lease reaped, claimed by another worker, or already finalized) it reports
  \<open>False\<close> and the table is unchanged. This holds for all three finalizers.
\<close>

theorem finalizers_are_fenced:
  assumes "queue_ok js" "j \<in> set js"
  shows "mark_completed (job_id j) w now js =
       (if owned w j then (True, update_where (\<lambda>x. job_id x = job_id j)
          (\<lambda>x. x\<lparr>job_status_of := Completed, job_updated_at := now\<rparr>) js) else (False, js))
     \<and> mark_failed err (job_id j) w now js =
       (if owned w j then (True, update_where (\<lambda>x. job_id x = job_id j)
          (\<lambda>x. x\<lparr>job_status_of := Failed, job_last_error := Some err, job_updated_at := now\<rparr>) js) else (False, js))
     \<and> mark_retry err delay (job_id j) w now js =
       (if owned w j then (True, update_where (\<lambda>x. job_id x = job_id j)
          (\<lambda>x. x\<lparr>job_status_of := Pending, job_locked_by := None, job_last_error := Some err,
                 job_next_attempt_at := now + seconds delay, job_updated_at := now\<rparr>) js) else (False, js))"
  using fence_outcome[OF assms] .

theorem finalizers_are_fenced_witness:
  "fst (mark_completed 2 ''w'' 40 (snd (claim_batch ''w'' 1 30 {} sample_queue)))
   \<and> mark_completed 2 ''v'' 40 (snd (claim_batch ''w'' 1 30 {} sample_queue))
       = (False, snd (claim_batch ''w'' 1 30 {} sample_queue))"
proof -
  let ?j = "stamp_claim ''w'' 30 (new_job 2 None ''B'' Map.empty ''k2'' 10)"
  have "?j \<in> set (snd (claim_batch ''w'' 1 30 {} sample_queue))" unfolding sample_claim by simp
  note f = finalizers_are_fenced[OF claimed_queue_ok this]
  from f[of "''w''" 40] f[of "''v''" 40] show ?thesis by (simp add: owned_def)
qed

section \<open>Order of completion\<close>

text \<open>Fenced updates of different jobs commute, so the jobs of one batch may finish in any order.\<close>

lemma fenced_updates_commute:
  assumes "a \<noteq> b" "\<And>j. job_id (f j) = job_id j" "\<And>j. job_id (g j) = job_id j"
  shows "update_where (fence a v) f (update_where (fence b w) g js) = update_where (fence b w) g (update_where (fence a v) f js)"
  using assms by (induction js) (auto simp: fence_def)

end
