(* ===== verification/Notifications.thy ===== *)
theory Notifications
  imports Models Python_Text
begin

text \<open>
  What a claimed job becomes: the worker's error taxonomy (\<open>worker/errors.py\<close>), the lookup of the
  recipient (\<open>worker/recipients.py\<close>), the email (\<open>worker/templates.py\<close>) and the push message
  (\<open>worker/push_templates.py\<close>). All of them are functions of the job and the database.
\<close>

section \<open>Worker errors\<close>

text \<open>
  An exception of the worker is transient, permanent (which includes \<open>RecipientNotFound\<close>), or
  none of the two classes the consumer catches.
\<close>

datatype worker_exc = TransientError string | PermanentError string | Unexpected string

section \<open>Text helpers\<close>

definition nl :: string where
  "nl = [CHR 0x0A]"

definition py_repr_char :: "char \<Rightarrow> char \<Rightarrow> string" where
  "py_repr_char q c = (if c = q \<or> c = CHR 0x5C then [CHR 0x5C, c]
     else if c = CHR 0x0A then [CHR 0x5C, CHR ''n'']
     else if c = CHR 0x0D then [CHR 0x5C, CHR ''r'']
     else if c = CHR 0x09 then [CHR 0x5C, CHR ''t''] else [c])"

definition py_repr :: "string \<Rightarrow> string" where
  "py_repr s = (let q = (if CHR 0x27 \<in> set s \<and> CHR 0x22 \<notin> set s then CHR 0x22 else CHR 0x27)
     in [q] @ concat (map (py_repr_char q) s) @ [q])"

fun py_repr_scalar :: "json_scalar \<Rightarrow> string" where
  "py_repr_scalar (JStr s) = py_repr s"
| "py_repr_scalar (JInt i) = show_int i"

fun py_str_scalar :: "json_scalar \<Rightarrow> string" where
  "py_str_scalar (JStr s) = s"
| "py_str_scalar (JInt i) = show_int i"

definition month_abbr :: "int \<Rightarrow> string" where
  "month_abbr m = [''Jan'', ''Feb'', ''Mar'', ''Apr'', ''May'', ''Jun'', ''Jul'', ''Aug'', ''Sep'',
     ''Oct'', ''Nov'', ''Dec''] ! nat (m - 1)"

fun wall_clock :: "datetime \<Rightarrow> int" where
  "wall_clock (Aware t) = t"
| "wall_clock (Naive t) = t"

text \<open>\<open>strftime("%d %b %Y at %H:%M UTC")\<close> on the wall-clock fields.\<close>

definition fmt_dt :: "datetime \<Rightarrow> string" where
  "fmt_dt dt =
     (let t = wall_clock dt;
          (y, m, d) = civil_from_days (t div days 1);
          sec = t mod days 1 div seconds 1;
          pad = (\<lambda>w n. pad_left w (show_int n))
      in pad 2 d @ '' '' @ month_abbr m @ '' '' @ show_int y @ '' at '' @
         pad 2 (sec div 3600) @ '':'' @ pad 2 (sec div 60 mod 60) @ '' UTC'')"

section \<open>Recipients\<close>

record recipient =
  rcp_user :: user
  rcp_event :: "event option"

definition uuid_arg :: "json_scalar \<Rightarrow> worker_exc + uuid" where
  "uuid_arg v = (case v of
      JStr s \<Rightarrow> (case uuid_of_str s of None \<Rightarrow> Inl (Unexpected ''ValueError'') | Some i \<Rightarrow> Inr i)
    | JInt _ \<Rightarrow> Inl (Unexpected ''AttributeError''))"

definition load_recipient :: "payload \<Rightarrow> db \<Rightarrow> worker_exc + recipient" where
  "load_recipient payload d =
     (case payload ''student_id'' of
        None \<Rightarrow> Inl (PermanentError (''payload missing required key: '' @ py_repr ''student_id''))
      | Some student_id \<Rightarrow> (case uuid_arg student_id of
          Inl ex \<Rightarrow> Inl ex
        | Inr sid \<Rightarrow> (case user_by_id sid d of
            None \<Rightarrow> Inl (PermanentError (''user '' @ py_repr_scalar student_id @ '' not found''))
          | Some user \<Rightarrow> (case payload ''event_id'' of
              None \<Rightarrow> Inr \<lparr>rcp_user = user, rcp_event = None\<rparr>
            | Some event_id \<Rightarrow> (case uuid_arg event_id of
                Inl ex \<Rightarrow> Inl ex
              | Inr eid \<Rightarrow> (case event_by_id eid d of
                  None \<Rightarrow> Inl (PermanentError (''event '' @ py_repr_scalar event_id @ '' not found''))
                | Some event \<Rightarrow> Inr \<lparr>rcp_user = user, rcp_event = Some event\<rparr>))))))"

definition load_push_tokens :: "user \<Rightarrow> db \<Rightarrow> string list" where
  "load_push_tokens user d =
     map dev_expo_push_token (filter (\<lambda>x. dev_user_id x = usr_id user) (devices d))"

section \<open>Emails\<close>

record email_content =
  em_subject :: string
  em_body :: string

definition render_email ::
  "string \<Rightarrow> user \<Rightarrow> event option \<Rightarrow> payload \<Rightarrow> string option \<Rightarrow> worker_exc + email_content" where
  "render_email event_type user event_opt payload verify_link =
     (if event_type = ''EmailVerify'' then
        (case verify_link of
           None \<Rightarrow> Inl (PermanentError ''EmailVerify job has no verify_link'')
         | Some link \<Rightarrow> Inr \<lparr>em_subject = ''Verify your Hefest email address'',
             em_body = ''Hi '' @ usr_full_name user @ '','' @ nl @ nl @
               ''Welcome to Hefest. Please confirm your email address by opening the link below:'' @ nl @ nl @
               link @ nl @ nl @
               ''If you did not create this account, you can ignore this email.''\<rparr>)
      else (case event_opt of
          None \<Rightarrow> Inl (PermanentError (''event-scoped event_type '' @ py_repr event_type @ '' has no event to render''))
        | Some event \<Rightarrow>
            let starts = fmt_dt (evt_starts_at event);
                title = evt_title event;
                hi = ''Hi '' @ usr_full_name user @ '','' @ nl @ nl;
                place = ''When: '' @ starts @ nl @ ''Where: '' @ evt_location event @ nl @ nl
            in if event_type = ''RegistrationConfirmed'' then
                 Inr \<lparr>em_subject = ''You're registered for '' @ title,
                      em_body = hi @ ''Your registration for '' @ title @ '' is confirmed.'' @ nl @ nl @ place @
                        ''See you there.''\<rparr>
               else if event_type = ''RegistrationWaitlisted'' then
                 Inr \<lparr>em_subject = ''You're on the waitlist for '' @ title,
                      em_body = hi @ ''The event '' @ title @ '' is currently full, but you have been added to the waitlist.'' @ nl @ nl @
                        (case payload ''waitlist_position'' of None \<Rightarrow> ''''
                         | Some pos \<Rightarrow> ''Your current position: '' @ py_str_scalar pos @ ''.'' @ nl) @
                        place @ ''We will notify you if a spot opens up.''\<rparr>
               else if event_type = ''WaitlistPromoted'' then
                 Inr \<lparr>em_subject = ''A spot opened up: you're confirmed for '' @ title,
                      em_body = hi @ ''Good news! A spot opened up and your registration for '' @ title @
                        '' is now confirmed.'' @ nl @ nl @ place @ ''See you there.''\<rparr>
               else if event_type = ''RegistrationCancelled'' then
                 Inr \<lparr>em_subject = ''Your registration for '' @ title @ '' was cancelled'',
                      em_body = hi @ ''Your registration for '' @ title @ '' has been cancelled.'' @ nl @ nl @ place @
                        ''If this was unexpected, please contact the organizer.''\<rparr>
               else if event_type = ''EventCancelled'' then
                 Inr \<lparr>em_subject = title @ '' has been cancelled'',
                      em_body = hi @ ''We regret to inform you that '' @ title @ '' has been cancelled.'' @ nl @ nl @
                        ''Scheduled for: '' @ starts @ nl @ ''Location: '' @ evt_location event @ nl @ nl @
                        ''We apologise for any inconvenience.''\<rparr>
               else Inl (PermanentError (''unknown event_type '' @ py_repr event_type @ '': cannot render email''))))"

section \<open>Push messages\<close>

record push_content =
  pc_title :: string
  pc_body :: string

definition render_push :: "string \<Rightarrow> event option \<Rightarrow> payload \<Rightarrow> worker_exc + push_content" where
  "render_push event_type event_opt payload =
     (case event_opt of
        None \<Rightarrow> Inl (PermanentError (''event-scoped event_type '' @ py_repr event_type @ '' has no event to render''))
      | Some event \<Rightarrow>
          let title = evt_title event
          in if event_type = ''RegistrationConfirmed'' then
               Inr \<lparr>pc_title = ''Registration confirmed'', pc_body = ''You're registered for '' @ title @ ''.''\<rparr>
             else if event_type = ''RegistrationWaitlisted'' then
               Inr \<lparr>pc_title = ''Added to waitlist'',
                    pc_body = ''You're on the waitlist for '' @ title @
                      (case payload ''waitlist_position'' of None \<Rightarrow> ''''
                       | Some pos \<Rightarrow> '' (position '' @ py_str_scalar pos @ '')'') @ ''.''\<rparr>
             else if event_type = ''WaitlistPromoted'' then
               Inr \<lparr>pc_title = ''Spot opened up'', pc_body = ''You're now confirmed for '' @ title @ ''.''\<rparr>
             else if event_type = ''RegistrationCancelled'' then
               Inr \<lparr>pc_title = ''Registration cancelled'',
                    pc_body = ''Your registration for '' @ title @ '' was cancelled.''\<rparr>
             else if event_type = ''EventCancelled'' then
               Inr \<lparr>pc_title = ''Event cancelled'', pc_body = title @ '' has been cancelled.''\<rparr>
             else Inl (PermanentError (''unknown event_type '' @ py_repr event_type @ '': cannot render push'')))"

section \<open>Facts\<close>

definition event_scoped :: "string \<Rightarrow> bool" where
  "event_scoped ty \<longleftrightarrow> ty \<in> {''RegistrationConfirmed'', ''RegistrationWaitlisted'', ''WaitlistPromoted'',
     ''RegistrationCancelled'', ''EventCancelled''}"

lemma render_event_scoped:
  "event_scoped ty \<Longrightarrow> \<exists>c. render_email ty user (Some ev) payload link = Inr c"
  "event_scoped ty \<Longrightarrow> \<exists>c. render_push ty (Some ev) payload = Inr c"
  by (auto simp: event_scoped_def render_email_def render_push_def Let_def)

lemma render_unknown:
  "\<not> event_scoped ty \<Longrightarrow> ty \<noteq> ''EmailVerify'' \<Longrightarrow> \<exists>m. render_email ty user eo payload link = Inl (PermanentError m)"
  "\<not> event_scoped ty \<Longrightarrow> \<exists>m. render_push ty eo payload = Inl (PermanentError m)"
  by (auto simp: event_scoped_def render_email_def render_push_def Let_def split: option.splits)

lemma uuid_arg_str [simp]: "uuid_arg (JStr (str_uuid i)) = Inr i"
  by (simp add: uuid_arg_def uuid_of_str_uuid)

lemma load_recipient_ids:
  assumes "payload ''student_id'' = Some (JStr (str_uuid s))" "payload ''event_id'' = Some (JStr (str_uuid e))"
    and "user_by_id s d = Some u" "event_by_id e d = Some ev"
  shows "load_recipient payload d = Inr \<lparr>rcp_user = u, rcp_event = Some ev\<rparr>"
  using assms by (simp add: load_recipient_def)

lemma load_recipient_jobs [simp]: "load_recipient payload (d\<lparr>notification_jobs := js\<rparr>) = load_recipient payload d"
proof -
  have "user_by_id i (d\<lparr>notification_jobs := js\<rparr>) = user_by_id i d"
    "event_by_id i (d\<lparr>notification_jobs := js\<rparr>) = event_by_id i d" for i
    by (simp_all add: user_by_id_def event_by_id_def)
  then show ?thesis unfolding load_recipient_def by (intro option.case_cong sum.case_cong refl) simp_all
qed

end
