(* ===== verification/Delivery.thy ===== *)
theory Delivery
  imports Notifications
begin

text \<open>
  The two delivery channels of the worker: the SMTP mailer with its connection pool
  (\<open>worker/mailer.py\<close>) and the Expo pusher (\<open>worker/pusher.py\<close>). What the SMTP server and the
  push service answer is an argument: an outcome for each network operation of a send, a response
  for each push request.
\<close>

section \<open>Classification of SMTP failures\<close>

text \<open>
  The exceptions of a send, by the first class test of \<open>_classify_smtp_error\<close> that they pass, with
  the text of the exception.
\<close>

datatype smtp_exc =
    TimeoutErr string
  | RecipientsRefused "int list" string
  | ResponseErr int string
  | ConnectionErr string
  | SmtpErr string
  | OtherErr string

definition py_repr_ints :: "int list \<Rightarrow> string" where
  "py_repr_ints xs = ''['' @ join_with '', '' (map show_int xs) @ '']''"

definition classify_smtp_error :: "smtp_exc \<Rightarrow> worker_exc" where
  "classify_smtp_error exc = (case exc of
      TimeoutErr e \<Rightarrow> TransientError (''SMTP timeout: '' @ e)
    | RecipientsRefused codes e \<Rightarrow>
        if codes \<noteq> [] \<and> 500 \<le> Max (set codes)
        then PermanentError (''SMTP recipients refused (permanent, codes='' @ py_repr_ints codes @ ''): '' @ e)
        else TransientError (''SMTP recipients refused (transient, codes='' @ py_repr_ints codes @ ''): '' @ e)
    | ResponseErr code msg \<Rightarrow>
        if 500 \<le> code then PermanentError (''SMTP '' @ show_int code @ '': '' @ msg)
        else TransientError (''SMTP '' @ show_int code @ '': '' @ msg)
    | ConnectionErr e \<Rightarrow> TransientError (''SMTP connection error: '' @ e)
    | SmtpErr e \<Rightarrow> TransientError (''SMTP error: '' @ e)
    | OtherErr e \<Rightarrow> TransientError (''Unexpected SMTP error: '' @ e))"

section \<open>The mailer\<close>

record smtp_client =
  cl_id :: nat
  cl_connected :: bool

record smtp_env =
  env_connect :: "smtp_exc + unit"
  env_login :: "smtp_exc + unit"
  env_send :: "smtp_exc + unit"
  env_connected_after :: bool

record mailer_config =
  mc_smtp_from :: string
  mc_smtp_username :: string
  mc_send_concurrency :: nat

text \<open>The constructor fills the pool with unconnected clients.\<close>

definition new_mailer :: "mailer_config \<Rightarrow> smtp_client list" where
  "new_mailer cfg = map (\<lambda>i. \<lparr>cl_id = i, cl_connected = False\<rparr>) [0..<mc_send_concurrency cfg]"

definition ensure_connected :: "mailer_config \<Rightarrow> smtp_env \<Rightarrow> smtp_client \<Rightarrow> (smtp_exc + unit) \<times> smtp_client" where
  "ensure_connected cfg env client =
     (if \<not> cl_connected client then
        (case env_connect env of
           Inl ex \<Rightarrow> (Inl ex, client)
         | Inr _ \<Rightarrow>
             let client = client\<lparr>cl_connected := True\<rparr>
             in if mc_smtp_username cfg \<noteq> '''' then
                  (case env_login env of Inl ex \<Rightarrow> (Inl ex, client) | Inr _ \<Rightarrow> (Inr (), client))
                else (Inr (), client))
      else (Inr (), client))"

text \<open>\<open>EmailMessage\<close> refuses header values with line breaks.\<close>

definition header_ok :: "string \<Rightarrow> bool" where
  "header_ok s \<longleftrightarrow> CHR 0x0A \<notin> set s \<and> CHR 0x0D \<notin> set s"

definition build_message :: "mailer_config \<Rightarrow> email_content \<Rightarrow> string \<Rightarrow> smtp_exc + (string \<times> string \<times> string \<times> string)" where
  "build_message cfg content to =
     (if header_ok (mc_smtp_from cfg) \<and> header_ok to \<and> header_ok (em_subject content)
      then Inr (mc_smtp_from cfg, to, em_subject content, em_body content)
      else Inl (OtherErr ''Header values may not contain linefeed or carriage return characters''))"

definition attempt_send ::
  "mailer_config \<Rightarrow> smtp_env \<Rightarrow> email_content \<Rightarrow> string \<Rightarrow> smtp_client \<Rightarrow> (smtp_exc + unit) \<times> smtp_client" where
  "attempt_send cfg env content to client =
     (case ensure_connected cfg env client of
        (Inl ex, client) \<Rightarrow> (Inl ex, client)
      | (Inr _, client) \<Rightarrow> (case build_message cfg content to of
          Inl ex \<Rightarrow> (Inl ex, client)
        | Inr msg \<Rightarrow> (env_send env, client\<lparr>cl_connected := env_connected_after env\<rparr>)))"

text \<open>
  The pool is a queue: the client is taken from the front and, whatever happens, put back at the
  end. \<open>None\<close> is a send that waits because every client is out.
\<close>

definition mailer_send ::
  "mailer_config \<Rightarrow> smtp_env \<Rightarrow> email_content \<Rightarrow> string \<Rightarrow> smtp_client list \<Rightarrow> ((worker_exc + unit) \<times> smtp_client list) option" where
  "mailer_send cfg env content to pool = (case pool of
      [] \<Rightarrow> None
    | client # rest \<Rightarrow> (case attempt_send cfg env content to client of
        (Inl ex, client') \<Rightarrow> Some (Inl (classify_smtp_error ex), rest @ [client'])
      | (Inr _, client') \<Rightarrow> Some (Inr (), rest @ [client'])))"

text \<open>
  Closing takes the clients out one by one. SMTP and socket errors of \<open>quit\<close> (a timeout is one) are
  suppressed; any other exception leaves the remaining clients in the pool.
\<close>

fun mailer_aclose :: "(smtp_client \<Rightarrow> smtp_exc + unit) \<Rightarrow> smtp_client list \<Rightarrow> (smtp_exc + unit) \<times> smtp_client list" where
  "mailer_aclose quit [] = (Inr (), [])"
| "mailer_aclose quit (client # rest) = (case quit client of
      Inl (OtherErr e) \<Rightarrow> (Inl (OtherErr e), rest)
    | _ \<Rightarrow> mailer_aclose quit rest)"

lemma attempt_send_id: "cl_id (snd (attempt_send cfg env content to client)) = cl_id client"
  by (auto simp: attempt_send_def ensure_connected_def Let_def split: sum.splits if_splits)

lemma classify_never_unexpected: "classify_smtp_error ex \<noteq> Unexpected m"
  by (simp add: classify_smtp_error_def split: smtp_exc.splits)

lemma classify_permanent_iff:
  "(\<exists>m. classify_smtp_error ex = PermanentError m) \<longleftrightarrow>
     (\<exists>codes e. ex = RecipientsRefused codes e \<and> (\<exists>c\<in>set codes. 500 \<le> c)) \<or> (\<exists>code m. ex = ResponseErr code m \<and> 500 \<le> code)"
proof (cases ex)
  case (RecipientsRefused codes e)
  have "codes \<noteq> [] \<and> 500 \<le> Max (set codes) \<longleftrightarrow> (\<exists>c\<in>set codes. 500 \<le> c)"
    by (cases "codes = []") (auto simp: Max_ge_iff)
  with RecipientsRefused show ?thesis by (auto simp: classify_smtp_error_def)
qed (auto simp: classify_smtp_error_def)

section \<open>The pusher\<close>

text \<open>
  A push request answers with a transport or HTTP failure, a body that is not an object (reading it
  raises outside the handled classes), or a list of tickets, one per message.
\<close>

record pusher_config =
  pc_expo_push_url :: string
  pc_expo_access_token :: string
  pc_expo_push_timeout :: int

text \<open>The HTTP client of the pusher: its address, the headers of every request, the timeout.\<close>

record pusher =
  pu_url :: string
  pu_headers :: "(string \<times> string) list"
  pu_timeout :: int

definition new_pusher :: "pusher_config \<Rightarrow> pusher" where
  "new_pusher s = \<lparr>pu_url = pc_expo_push_url s,
     pu_headers = [(''Accept'', ''application/json''), (''Content-Type'', ''application/json'')] @
       (if pc_expo_access_token s \<noteq> '''' then [(''Authorization'', ''Bearer '' @ pc_expo_access_token s)] else []),
     pu_timeout = pc_expo_push_timeout s\<rparr>"

record ticket =
  tk_status :: "string option"
  tk_error :: "string option"

datatype push_response = HttpFailure | OddBody | Tickets "ticket list"

definition max_tokens_per_request :: nat where
  "max_tokens_per_request = 100"

definition is_unregistered :: "ticket \<Rightarrow> bool" where
  "is_unregistered t \<longleftrightarrow> tk_status t = Some ''error'' \<and> tk_error t = Some ''DeviceNotRegistered''"

text \<open>
  The result is \<open>False\<close> when an exception escapes. Device rows are deleted for the tokens the
  service reports as unregistered.
\<close>

definition send_batch :: "string list \<Rightarrow> push_response \<Rightarrow> device list \<Rightarrow> bool \<times> device list" where
  "send_batch tokens response devs = (case response of
      HttpFailure \<Rightarrow> (True, devs)
    | OddBody \<Rightarrow> (False, devs)
    | Tickets tickets \<Rightarrow>
        let dead_tokens = map fst (filter (\<lambda>(token, t). is_unregistered t) (zip tokens tickets))
        in (True, if dead_tokens \<noteq> [] then filter (\<lambda>x. dev_expo_push_token x \<notin> set dead_tokens) devs else devs))"

definition token_batches :: "string list \<Rightarrow> string list list" where
  "token_batches tokens =
     map (\<lambda>k. take max_tokens_per_request (drop (k * max_tokens_per_request) tokens))
       [0..<(length tokens + max_tokens_per_request - 1) div max_tokens_per_request]"

fun send_batches :: "string list list \<Rightarrow> (string list \<Rightarrow> push_response) \<Rightarrow> device list \<Rightarrow> bool \<times> device list" where
  "send_batches [] respond devs = (True, devs)"
| "send_batches (b # bs) respond devs =
     (case send_batch b (respond b) devs of
        (False, devs') \<Rightarrow> (False, devs')
      | (True, devs') \<Rightarrow> send_batches bs respond devs')"

definition send_to_tokens :: "string list \<Rightarrow> (string list \<Rightarrow> push_response) \<Rightarrow> device list \<Rightarrow> bool \<times> device list" where
  "send_to_tokens tokens respond devs =
     (if tokens = [] then (True, devs) else send_batches (token_batches tokens) respond devs)"

lemma concat_chunks:
  "0 < n \<Longrightarrow> concat (map (\<lambda>k. take n (drop (k * n) xs)) [0..<m]) = take (m * n) xs"
  by (induction m) (simp_all add: take_add[symmetric] add.commute)

lemma token_batches_concat: "concat (token_batches tokens) = tokens"
proof -
  have "length tokens \<le> (length tokens + 99) div 100 * 100" by arith
  then show ?thesis unfolding token_batches_def
    by (subst concat_chunks) (simp_all add: max_tokens_per_request_def)
qed

lemma token_batches_size: "b \<in> set (token_batches tokens) \<Longrightarrow> 1 \<le> length b \<and> length b \<le> 100"
  by (auto simp: token_batches_def max_tokens_per_request_def)

lemma send_batch_devices:
  "set (snd (send_batch b r devs)) \<subseteq> set devs"
  "x \<in> set devs \<Longrightarrow> dev_expo_push_token x \<notin> set b \<Longrightarrow> x \<in> set (snd (send_batch b r devs))"
  by (auto simp: send_batch_def Let_def split: push_response.splits dest: set_zip_leftD)

lemma send_batches_devices:
  "set (snd (send_batches bs respond devs)) \<subseteq> set devs"
  "x \<in> set devs \<Longrightarrow> dev_expo_push_token x \<notin> set (concat bs) \<Longrightarrow> x \<in> set (snd (send_batches bs respond devs))"
proof (induction bs arbitrary: devs)
  case (Cons b bs)
  {
    case 1
    show ?case using Cons(1)[of "snd (send_batch b (respond b) devs)"] send_batch_devices(1)[of b "respond b" devs]
      by (auto split: prod.splits bool.splits)
  next
    case 2
    with Cons(2)[of "snd (send_batch b (respond b) devs)"] send_batch_devices(2)[of x devs b "respond b"]
    show ?case by (auto split: prod.splits bool.splits)
  }
qed auto

end
