(* ===== verification/Consumer.thy ===== *)
theory Consumer
  imports Outbox_Properties Delivery
begin

text \<open>
  The consumer (\<open>worker/consumer.py\<close>): committing a finalizer with retries, the decision matrix
  for one job, and the drain loop. The outside world is an argument: what the mail server answers
  for a job, what the push service answers, which database operations fail, when statements run,
  and when a stop or a lost lease is seen. The tasks of one batch run concurrently; they write
  different rows, so their effects commute (\<open>fenced_updates_commute\<close>) and the batch is processed here
  in the order in which the tasks finish, which is again an argument. A task that raises cancels the
  ones that have not finished.
\<close>

record worker_settings =
  ws_max_attempts :: int
  ws_backoff_base :: int
  ws_claim_batch_size :: nat
  ws_reap_batch_size :: nat
  ws_reaper_idle :: int

section \<open>Committing a finalizer\<close>

text \<open>
  One attempt at the finalizer's transaction: it commits, it fails transiently before the commit,
  it commits but the acknowledgement is lost (seen as a transient failure), or it fails with an
  error that is not transient.
\<close>

datatype db_fault = NoFault | FaultBefore | FaultAfter | LogicError

definition finalize_max_attempts :: nat where
  "finalize_max_attempts = 3"

fun commit_loop ::
  "(instant \<Rightarrow> jobs \<Rightarrow> bool \<times> jobs) \<Rightarrow> (nat \<Rightarrow> db_fault) \<Rightarrow> (nat \<Rightarrow> instant) \<Rightarrow> nat list \<Rightarrow> jobs \<Rightarrow> (worker_exc + bool) \<times> jobs" where
  "commit_loop fin faults clock [] js = (Inl (Unexpected ''unreachable''), js)"
| "commit_loop fin faults clock (attempt # rest) js = (case faults attempt of
      NoFault \<Rightarrow> (case fin (clock attempt) js of (held, js') \<Rightarrow> (Inr held, js'))
    | FaultBefore \<Rightarrow>
        if attempt = finalize_max_attempts then (Inl (Unexpected ''transient database error''), js)
        else commit_loop fin faults clock rest js
    | FaultAfter \<Rightarrow>
        if attempt = finalize_max_attempts
        then (Inl (Unexpected ''transient database error''), snd (fin (clock attempt) js))
        else commit_loop fin faults clock rest (snd (fin (clock attempt) js))
    | LogicError \<Rightarrow> (Inl (Unexpected ''database error''), js))"

definition commit_finalizer ::
  "(uuid \<Rightarrow> string \<Rightarrow> instant \<Rightarrow> jobs \<Rightarrow> bool \<times> jobs) \<Rightarrow> claimed_job \<Rightarrow> string \<Rightarrow> (nat \<Rightarrow> db_fault) \<Rightarrow> (nat \<Rightarrow> instant)
     \<Rightarrow> jobs \<Rightarrow> (worker_exc + bool) \<times> jobs" where
  "commit_finalizer finalizer job worker_id faults clock js =
     commit_loop (finalizer (cj_id job) worker_id) faults clock [1..<finalize_max_attempts + 1] js"

section \<open>One job\<close>

record worker_env =
  we_verify_link :: "user \<Rightarrow> string"
  we_send :: "claimed_job \<Rightarrow> email_content \<Rightarrow> string \<Rightarrow> worker_exc + unit"
  we_push :: "string list \<Rightarrow> push_response"
  we_faults :: "claimed_job \<Rightarrow> nat \<Rightarrow> db_fault"
  we_clock :: "claimed_job \<Rightarrow> nat \<Rightarrow> instant"

definition finalize ::
  "worker_env \<Rightarrow> (uuid \<Rightarrow> string \<Rightarrow> instant \<Rightarrow> jobs \<Rightarrow> bool \<times> jobs) \<Rightarrow> claimed_job \<Rightarrow> string \<Rightarrow> db \<Rightarrow> (worker_exc + unit) \<times> db" where
  "finalize env finalizer job worker_id d =
     (case commit_finalizer finalizer job worker_id (we_faults env job) (we_clock env job) (notification_jobs d) of
        (Inl ex, js) \<Rightarrow> (Inl ex, d\<lparr>notification_jobs := js\<rparr>)
      | (Inr held, js) \<Rightarrow> (Inr (), d\<lparr>notification_jobs := js\<rparr>))"

definition send_push :: "worker_env \<Rightarrow> claimed_job \<Rightarrow> recipient \<Rightarrow> db \<Rightarrow> db" where
  "send_push env job rcp d = (case rcp_event rcp of
      None \<Rightarrow> d
    | Some event \<Rightarrow>
        let tokens = load_push_tokens (rcp_user rcp) d
        in if tokens = [] then d
           else (case render_push (cj_event_type job) (Some event) (cj_payload job) of
               Inl ex \<Rightarrow> d
             | Inr content \<Rightarrow> d\<lparr>devices := snd (send_to_tokens tokens (we_push env) (devices d))\<rparr>))"

text \<open>The body of the \<open>try\<close> block of \<open>_process_one\<close>.\<close>

definition deliver :: "worker_env \<Rightarrow> claimed_job \<Rightarrow> db \<Rightarrow> worker_exc + recipient" where
  "deliver env job d = (case load_recipient (cj_payload job) d of
      Inl ex \<Rightarrow> Inl ex
    | Inr rcp \<Rightarrow>
        let verify_link = (if cj_event_type job = ''EmailVerify'' then Some (we_verify_link env (rcp_user rcp)) else None)
        in (case render_email (cj_event_type job) (rcp_user rcp) (rcp_event rcp) (cj_payload job) verify_link of
              Inl ex \<Rightarrow> Inl ex
            | Inr content \<Rightarrow> (case we_send env job content (usr_email (rcp_user rcp)) of
                Inl ex \<Rightarrow> Inl ex
              | Inr _ \<Rightarrow> Inr rcp)))"

definition process_one ::
  "worker_settings \<Rightarrow> worker_env \<Rightarrow> string \<Rightarrow> claimed_job \<Rightarrow> db \<Rightarrow> (worker_exc + unit) \<times> db" where
  "process_one cfg env worker_id job d = (case deliver env job d of
      Inl (PermanentError m) \<Rightarrow> finalize env (mark_failed m) job worker_id d
    | Inl (TransientError m) \<Rightarrow>
        if ws_max_attempts cfg \<le> cj_attempts job then finalize env (mark_failed m) job worker_id d
        else finalize env (mark_retry m (backoff_delay (nat (cj_attempts job)) (ws_backoff_base cfg))) job worker_id d
    | Inl (Unexpected m) \<Rightarrow> (Inl (Unexpected m), d)
    | Inr rcp \<Rightarrow> finalize env mark_completed job worker_id (send_push env job rcp d))"

section \<open>The drain loop\<close>

fun process_batch ::
  "worker_settings \<Rightarrow> worker_env \<Rightarrow> string \<Rightarrow> claimed_job list \<Rightarrow> db \<Rightarrow> (worker_exc + unit) \<times> db" where
  "process_batch cfg env worker_id [] d = (Inr (), d)"
| "process_batch cfg env worker_id (job # rest) d =
     (case process_one cfg env worker_id job d of
        (Inl ex, d') \<Rightarrow> (Inl ex, d')
      | (Inr _, d') \<Rightarrow> process_batch cfg env worker_id rest d')"

text \<open>
  Per iteration: the statement time, the rows other transactions hold, whether \<open>stop\<close> or
  \<open>lease_lost\<close> is set, and when the task of each job finishes. Both loops carry fuel; \<open>None\<close> is running out of it.
\<close>

record loop_env =
  le_clock :: "nat \<Rightarrow> instant"
  le_locked :: "nat \<Rightarrow> uuid set"
  le_halted :: "nat \<Rightarrow> bool"
  le_finish :: "nat \<Rightarrow> claimed_job \<Rightarrow> nat"

primrec reap_loop :: "nat \<Rightarrow> worker_settings \<Rightarrow> loop_env \<Rightarrow> nat \<Rightarrow> jobs \<Rightarrow> (nat \<times> jobs) option" where
  "reap_loop 0 cfg env k js = None"
| "reap_loop (Suc fuel) cfg env k js =
     (case reap_stale (ws_reaper_idle cfg) (ws_reap_batch_size cfg) (le_clock env k) (le_locked env k) js of
        (reaped, js') \<Rightarrow>
          if reaped < ws_reap_batch_size cfg \<or> le_halted env k then Some (reaped, js')
          else map_option (\<lambda>(rest, x). (reaped + rest, x)) (reap_loop fuel cfg env (Suc k) js'))"

primrec claim_loop ::
  "nat \<Rightarrow> worker_settings \<Rightarrow> worker_env \<Rightarrow> loop_env \<Rightarrow> string \<Rightarrow> nat \<Rightarrow> db \<Rightarrow> ((worker_exc + unit) \<times> db) option" where
  "claim_loop 0 cfg env lenv worker_id k d = None"
| "claim_loop (Suc fuel) cfg env lenv worker_id k d =
     (if le_halted lenv k then Some (Inr (), d)
      else (case claim_batch worker_id (ws_claim_batch_size cfg) (le_clock lenv k) (le_locked lenv k) (notification_jobs d) of
        (claimed, js) \<Rightarrow>
          let d1 = d\<lparr>notification_jobs := js\<rparr>
          in if claimed = [] then Some (Inr (), d1)
             else (case process_batch cfg env worker_id (sort_key (le_finish lenv k) claimed) d1 of
                 (Inl ex, d2) \<Rightarrow> Some (Inl ex, d2)
               | (Inr _, d2) \<Rightarrow>
                   if length claimed < ws_claim_batch_size cfg then Some (Inr (), d2)
                   else claim_loop fuel cfg env lenv worker_id (Suc k) d2)))"

definition drain ::
  "nat \<Rightarrow> worker_settings \<Rightarrow> worker_env \<Rightarrow> loop_env \<Rightarrow> loop_env \<Rightarrow> string \<Rightarrow> db \<Rightarrow> ((worker_exc + unit) \<times> db) option" where
  "drain fuel cfg env reap_env claim_env worker_id d =
     (case reap_loop fuel cfg reap_env 0 (notification_jobs d) of
        None \<Rightarrow> None
      | Some (total_reaped, js) \<Rightarrow> claim_loop fuel cfg env claim_env worker_id 0 (d\<lparr>notification_jobs := js\<rparr>))"

section \<open>Committing applies a finalizer at most once\<close>

context fenced_finalizer
begin

lemma commit_loop_once:
  "commit_loop (fin jid w) faults clock as js = (res, js') \<Longrightarrow>
     (js' = js \<or> (\<exists>a\<in>set as. js' = snd (fin jid w (clock a) js)))
     \<and> (\<forall>b. res = Inr b \<longrightarrow> (\<exists>a\<in>set as. js' = snd (fin jid w (clock a) js)))
     \<and> (res = Inr True \<longrightarrow> (\<exists>a\<in>set as. fin jid w (clock a) js = (True, js')))"
proof (induction as arbitrary: js)
  case (Cons a as)
  show ?case
  proof (cases "faults a")
    case NoFault
    with Cons.prems show ?thesis by (cases "fin jid w (clock a) js") auto
  next
    case FaultBefore
    with Cons show ?thesis by (cases "a = finalize_max_attempts") (auto split: if_splits)
  next
    case FaultAfter
    let ?js = "snd (fin jid w (clock a) js)"
    show ?thesis
    proof (cases "a = finalize_max_attempts")
      case True
      with FaultAfter Cons.prems show ?thesis by auto
    next
      case False
      with FaultAfter Cons.prems have "commit_loop (fin jid w) faults clock as ?js = (res, js')" by simp
      from Cons.IH[OF this] show ?thesis by (auto simp: fin_again)
    qed
  next
    case LogicError
    with Cons.prems show ?thesis by auto
  qed
qed auto

lemma commit_once:
  assumes "commit_finalizer fin job w faults clock js = (res, js')"
  shows "js' = js \<or> (\<exists>a. js' = snd (fin (cj_id job) w (clock a) js))"
    and "res = Inr b \<Longrightarrow> \<exists>a. js' = snd (fin (cj_id job) w (clock a) js)"
  using commit_loop_once[OF assms[unfolded commit_finalizer_def]] by blast+

lemma finalize_effect:
  assumes "finalize env fin job w d = (res, d')"
  obtains a where "d' = d\<lparr>notification_jobs := snd (fin (cj_id job) w (we_clock env job a) (notification_jobs d))\<rparr>"
  | "d' = d" "res \<noteq> Inr ()"
proof -
  obtain r js where c: "commit_finalizer fin job w (we_faults env job) (we_clock env job) (notification_jobs d) = (r, js)"
    by fastforce
  with assms have d': "d' = d\<lparr>notification_jobs := js\<rparr>" "res = map_sum id (\<lambda>_. ()) r"
    by (auto simp: finalize_def split: sum.splits)
  show thesis
  proof (cases "\<exists>a. js = snd (fin (cj_id job) w (we_clock env job a) (notification_jobs d))")
    case True
    with d' that(1) show ?thesis by blast
  next
    case False
    with commit_once[OF c] have "js = notification_jobs d" "\<And>b. r \<noteq> Inr b" by blast+
    with d' that(2) show ?thesis by (cases r) auto
  qed
qed

lemma finalize_rows:
  assumes "finalize env fin job w d = (Inr (), d')"
  obtains now where "notification_jobs d' = update_where (fence (cj_id job) w) (new now) (notification_jobs d)"
  using assms by (rule finalize_effect) (auto simp: fin_update)

end

end
