(* ===== verification/Consumer_Properties.thy ===== *)
theory Consumer_Properties
  imports Consumer Sample_Data
begin

text \<open>
  The consumer keeps the outbox contract: a finalizer is applied at most once however often its
  commit is retried, every claimed job is settled, a job is completed only when its email was
  accepted, and a drain ends.
\<close>

section \<open>What processing does to the table\<close>

definition settled :: "int \<Rightarrow> notification_job \<Rightarrow> bool" where
  "settled max_attempts j \<longleftrightarrow> finished j \<or> (job_status_of j = Pending \<and> job_attempts j < max_attempts)"

lemma settled_not_fenced: "settled m j \<Longrightarrow> \<not> fence i w j"
  by (auto simp: settled_def finished_def fence_def)

lemma send_push_frame [simp]:
  "notification_jobs (send_push env job r d) = notification_jobs d"
  "users (send_push env job r d) = users d" "events (send_push env job r d) = events d"
  "registrations (send_push env job r d) = registrations d"
  by (simp_all add: send_push_def Let_def split: option.splits sum.splits)

text \<open>The finalizer a job is routed to, as an update of the row.\<close>

definition keeps_job :: "(notification_job \<Rightarrow> notification_job) \<Rightarrow> bool" where
  "keeps_job g \<longleftrightarrow> (\<forall>x. job_id (g x) = job_id x \<and> job_attempts (g x) = job_attempts x)"

lemma final_rows [simp]:
  "keeps_job (\<lambda>j. j\<lparr>job_status_of := Completed, job_updated_at := now\<rparr>)"
  "keeps_job (\<lambda>j. j\<lparr>job_status_of := Failed, job_last_error := e, job_updated_at := now\<rparr>)"
  "keeps_job (\<lambda>j. j\<lparr>job_status_of := Pending, job_locked_by := None, job_last_error := e,
     job_next_attempt_at := t, job_updated_at := now\<rparr>)"
  "settled m (j\<lparr>job_status_of := Completed, job_updated_at := now\<rparr>)"
  "settled m (j\<lparr>job_status_of := Failed, job_last_error := e, job_updated_at := now\<rparr>)"
  "settled m (j\<lparr>job_status_of := Pending, job_locked_by := None, job_last_error := e,
     job_next_attempt_at := t, job_updated_at := now\<rparr>) \<longleftrightarrow> job_attempts j < m"
  by (simp_all add: keeps_job_def settled_def finished_def)

lemma process_one_rows:
  assumes "process_one cfg env w job d = (Inr (), d')"
  shows "\<exists>g. notification_jobs d' = update_where (fence (cj_id job) w) g (notification_jobs d) \<and> keeps_job g
     \<and> (\<forall>x. job_attempts x = cj_attempts job \<longrightarrow> settled (ws_max_attempts cfg) (g x))" (is ?P)
proof -
  have failed: ?P if call: "finalize env (mark_failed m) job w d = (Inr (), d')" for m
  proof -
    obtain now where "notification_jobs d' = update_where (fence (cj_id job) w)
        (\<lambda>j. j\<lparr>job_status_of := Failed, job_last_error := Some m, job_updated_at := now\<rparr>) (notification_jobs d)"
      using failed.finalize_rows[OF call] by blast
    then show ?thesis by (intro exI conjI) auto
  qed
  have retried: ?P if call: "finalize env (mark_retry m delay) job w d = (Inr (), d')" and a: "cj_attempts job < ws_max_attempts cfg" for m delay
  proof -
    obtain now where "notification_jobs d' = update_where (fence (cj_id job) w)
        (\<lambda>j. j\<lparr>job_status_of := Pending, job_locked_by := None, job_last_error := Some m,
            job_next_attempt_at := now + seconds delay, job_updated_at := now\<rparr>) (notification_jobs d)"
      using retried.finalize_rows[OF call] by blast
    with a show ?thesis by (intro exI conjI) auto
  qed
  have completed: ?P if call: "finalize env mark_completed job w (send_push env job rcp d) = (Inr (), d')" for rcp
  proof -
    obtain now where "notification_jobs d' = update_where (fence (cj_id job) w)
        (\<lambda>j. j\<lparr>job_status_of := Completed, job_updated_at := now\<rparr>) (notification_jobs (send_push env job rcp d))"
      using completed.finalize_rows[OF call] by blast
    then show ?thesis by (intro exI conjI) auto
  qed
  show ?thesis using assms failed retried completed unfolding process_one_def
    by (cases "deliver env job d") (auto split: worker_exc.splits if_splits)
qed

definition fenced_by :: "claimed_job list \<Rightarrow> string \<Rightarrow> notification_job \<Rightarrow> bool" where
  "fenced_by cs w x \<longleftrightarrow> (\<exists>c\<in>set cs. fence (cj_id c) w x)"

lemma fenced_by_sort: "fenced_by (sort_key g cs) w = fenced_by cs w"
  by (simp add: fenced_by_def fun_eq_iff)

lemma process_batch_rows:
  "process_batch cfg env w cs d = (Inr (), d') \<Longrightarrow>
     \<exists>h. notification_jobs d' = map h (notification_jobs d) \<and> keeps_job h
       \<and> (\<forall>x. \<not> fenced_by cs w x \<longrightarrow> h x = x)
       \<and> (\<forall>x. fenced_by cs w x \<and> (\<forall>c\<in>set cs. fence (cj_id c) w x \<longrightarrow> cj_attempts c = job_attempts x)
            \<longrightarrow> settled (ws_max_attempts cfg) (h x))"
proof (induction cs arbitrary: d)
  case Nil
  then show ?case by (intro exI[where x = id]) (simp add: keeps_job_def fenced_by_def)
next
  case (Cons c cs)
  then obtain d1 where one: "process_one cfg env w c d = (Inr (), d1)" and rest: "process_batch cfg env w cs d1 = (Inr (), d')"
    by (auto split: prod.splits sum.splits)
  obtain g where g: "notification_jobs d1 = update_where (fence (cj_id c) w) g (notification_jobs d)" "keeps_job g"
      "\<forall>x. job_attempts x = cj_attempts c \<longrightarrow> settled (ws_max_attempts cfg) (g x)"
    using process_one_rows[OF one] by blast
  obtain h where h: "notification_jobs d' = map h (notification_jobs d1)" "keeps_job h"
      "\<And>x. \<not> fenced_by cs w x \<Longrightarrow> h x = x"
      "\<And>x. fenced_by cs w x \<Longrightarrow> \<forall>c\<in>set cs. fence (cj_id c) w x \<longrightarrow> cj_attempts c = job_attempts x \<Longrightarrow> settled (ws_max_attempts cfg) (h x)"
    using Cons.IH[OF rest] by blast
  let ?f = "\<lambda>x. if fence (cj_id c) w x then g x else x"
  have rows: "notification_jobs d' = map (\<lambda>x. h (?f x)) (notification_jobs d)"
    by (simp add: h(1) g(1) update_where_def comp_def)
  have keeps: "keeps_job (\<lambda>x. h (?f x))" using g(2) h(2) by (simp add: keeps_job_def)
  have other: "h (?f x) = x" if "\<not> fenced_by (c # cs) w x" for x
    using that h(3) by (simp add: fenced_by_def)
  have fin: "settled (ws_max_attempts cfg) (h (?f x))"
    if "fenced_by (c # cs) w x" "\<forall>c\<in>set (c # cs). fence (cj_id c) w x \<longrightarrow> cj_attempts c = job_attempts x" for x
  proof (cases "fence (cj_id c) w x")
    case True
    with that(2) g(3) have s: "settled (ws_max_attempts cfg) (g x)" by simp
    with h(3)[of "g x"] settled_not_fenced[OF s] True show ?thesis by (simp add: fenced_by_def)
  next
    case False
    with that h(4)[of x] show ?thesis by (simp add: fenced_by_def)
  qed
  from rows keeps other fin show ?case by blast
qed

section \<open>Processing is a run of table steps\<close>

lemma finalize_steps:
  "finalize env mark_completed job w d = (r, d') \<Longrightarrow> queue_step\<^sup>*\<^sup>* (notification_jobs d) (notification_jobs d')"
  "finalize env (mark_failed m) job w d = (r, d') \<Longrightarrow> queue_step\<^sup>*\<^sup>* (notification_jobs d) (notification_jobs d')"
  "finalize env (mark_retry m delay) job w d = (r, d') \<Longrightarrow> queue_step\<^sup>*\<^sup>* (notification_jobs d) (notification_jobs d')"
  by (erule completed.finalize_effect failed.finalize_effect retried.finalize_effect,
      simp_all add: r_into_rtranclp queue_step.intros)+

lemma process_one_steps:
  "process_one cfg env w job d = (r, d') \<Longrightarrow> queue_step\<^sup>*\<^sup>* (notification_jobs d) (notification_jobs d')"
  using finalize_steps(1)[of env job w "send_push env job rcp d" for rcp]
  by (auto simp: process_one_def dest: finalize_steps(2,3) split: sum.splits worker_exc.splits if_splits)

lemma process_batch_steps:
  "process_batch cfg env w cs d = (r, d') \<Longrightarrow> queue_step\<^sup>*\<^sup>* (notification_jobs d) (notification_jobs d')"
proof (induction cs arbitrary: d)
  case (Cons c cs)
  obtain r1 d1 where one: "process_one cfg env w c d = (r1, d1)" by fastforce
  with Cons.prems have "(\<exists>ex. r1 = Inl ex \<and> d' = d1) \<or> process_batch cfg env w cs d1 = (r, d')"
    by (auto split: sum.splits)
  with Cons.IH process_one_steps[OF one] show ?case by (metis rtranclp_trans)
qed simp

text \<open>One iteration: every claimed row is settled with one more attempt, all others are kept.\<close>

lemma claim_then_process:
  assumes ok: "queue_ok (notification_jobs d)"
    and claim: "claim_batch w n now locked (notification_jobs d) = (cs, js1)"
    and process: "process_batch cfg env w (sort_key g cs) (d\<lparr>notification_jobs := js1\<rparr>) = (Inr (), d2)"
  obtains f where "notification_jobs d2 = map f (notification_jobs d)"
    "\<And>x. x \<in> set (notification_jobs d) \<Longrightarrow>
      if job_id x \<in> set (claimable now locked n (notification_jobs d))
      then due now locked x \<and> settled (ws_max_attempts cfg) (f x) \<and> job_attempts (f x) = job_attempts x + 1
      else f x = x"
proof -
  let ?js = "notification_jobs d"
  let ?ids = "set (claimable now locked n ?js)"
  have dist: "distinct (map job_id ?js)" using ok by (simp add: queue_ok_def)
  have js1: "js1 = map (\<lambda>x. if job_id x \<in> ?ids then stamp_claim w now x else x) ?js"
    and cs: "cs = map claimed_of (filter (\<lambda>x. job_id x \<in> ?ids) js1)"
    using claim by (auto simp: claim_batch_def Let_def update_where_def)
  obtain h where h: "notification_jobs d2 = map h js1" "keeps_job h" "\<And>x. \<not> fenced_by cs w x \<Longrightarrow> h x = x"
      "\<And>x. fenced_by cs w x \<Longrightarrow> \<forall>c\<in>set cs. fence (cj_id c) w x \<longrightarrow> cj_attempts c = job_attempts x \<Longrightarrow>
        settled (ws_max_attempts cfg) (h x)"
    using process_batch_rows[OF process, unfolded fenced_by_sort set_sort, simplified] by metis
  let ?f = "\<lambda>x. h (if job_id x \<in> ?ids then stamp_claim w now x else x)"
  have "if job_id x \<in> ?ids then due now locked x \<and> settled (ws_max_attempts cfg) (?f x) \<and> job_attempts (?f x) = job_attempts x + 1
      else ?f x = x" if x: "x \<in> set ?js" for x
  proof (cases "job_id x \<in> ?ids")
    case True
    let ?x = "stamp_claim w now x"
    have mem: "claimed_of ?x \<in> set cs" using x True by (auto simp: cs js1 image_iff intro!: bexI[where x = x])
    have fenced: "fenced_by cs w ?x" using mem unfolding fenced_by_def by (intro bexI[OF _ mem]) (simp add: fence_def claimed_of_def)
    have "cj_attempts c = job_attempts ?x" if c: "c \<in> set cs" "fence (cj_id c) w ?x" for c
    proof -
      from c(1) obtain y where y: "y \<in> set ?js" "c = claimed_of (stamp_claim w now y)"
        using True by (auto simp: cs js1 split: if_splits)
      with c(2) have "job_id y = job_id x" by (simp add: fence_def claimed_of_def)
      with pk_unique[OF dist x y(1)] y(2) show ?thesis by (simp add: claimed_of_def)
    qed
    with h(4)[OF fenced] h(2) claimable_due[OF dist x True] True show ?thesis by (simp add: keeps_job_def)
  next
    case False
    then have "\<not> fenced_by cs w x" by (auto simp: fenced_by_def fence_def cs claimed_of_def)
    with False h(3) show ?thesis by simp
  qed
  moreover have "notification_jobs d2 = map ?f ?js" by (simp add: h(1) js1)
  ultimately show thesis using that by blast
qed

section \<open>Termination\<close>

definition weight :: "int \<Rightarrow> notification_job \<Rightarrow> nat" where
  "weight m j = (if job_status_of j = Pending then nat (m - job_attempts j) + 1 else 0)"

definition backlog :: "int \<Rightarrow> jobs \<Rightarrow> nat" where
  "backlog m js = sum_list (map (weight m) js)"

lemma settled_weight:
  "job_status_of x = Pending \<Longrightarrow> settled m y \<Longrightarrow> job_attempts y = job_attempts x + 1 \<Longrightarrow> weight m y < weight m x"
  by (auto simp: weight_def settled_def finished_def)

lemma sum_list_decreases:
  assumes "\<And>x. x \<in> set xs \<Longrightarrow> g (f x) \<le> (g x :: nat)" "x \<in> set xs" "g (f x) < g x"
  shows "sum_list (map g (map f xs)) < sum_list (map g xs)"
  using assms
proof (induction xs)
  case (Cons y ys)
  have "sum_list (map g (map f ys)) \<le> sum_list (map g ys)"
    using Cons.prems(1) by (simp add: sum_list_mono comp_def)
  with Cons show ?case by (cases "x = y") (force intro: add_less_le_mono add_le_less_mono)+
qed simp

lemma iteration_decreases:
  assumes "queue_ok (notification_jobs d)" "claim_batch w n now locked (notification_jobs d) = (cs, js1)" "cs \<noteq> []"
    and "process_batch cfg env w (sort_key g cs) (d\<lparr>notification_jobs := js1\<rparr>) = (Inr (), d2)"
  shows "backlog (ws_max_attempts cfg) (notification_jobs d2) < backlog (ws_max_attempts cfg) (notification_jobs d)"
proof -
  obtain f where f: "notification_jobs d2 = map f (notification_jobs d)"
    "\<And>x. x \<in> set (notification_jobs d) \<Longrightarrow>
      if job_id x \<in> set (claimable now locked n (notification_jobs d))
      then due now locked x \<and> settled (ws_max_attempts cfg) (f x) \<and> job_attempts (f x) = job_attempts x + 1
      else f x = x"
    by (rule claim_then_process[OF assms(1,2,4)]) (rule that)
  have le: "weight (ws_max_attempts cfg) (f x) \<le> weight (ws_max_attempts cfg) x" if "x \<in> set (notification_jobs d)" for x
    using f(2)[OF that] settled_weight[of x "ws_max_attempts cfg" "f x"] by (auto simp: due_def split: if_splits)
  have "distinct (map job_id (notification_jobs d))" using assms(1) by (simp add: queue_ok_def)
  from claim_ids[OF this, of w n now locked] assms(2,3)
  obtain i where i: "i \<in> set (claimable now locked n (notification_jobs d))" by (cases cs) auto
  then obtain x where x: "x \<in> set (notification_jobs d)" "job_id x = i" using set_claimable by blast
  with f(2)[OF x(1)] i settled_weight[of x "ws_max_attempts cfg" "f x"]
  have "weight (ws_max_attempts cfg) (f x) < weight (ws_max_attempts cfg) x" by (simp add: due_def)
  from sum_list_decreases[where g = "weight (ws_max_attempts cfg)", OF le x(1) this] show ?thesis
    by (simp add: backlog_def f(1))
qed

lemma claim_loop_terminates:
  "queue_ok (notification_jobs d) \<Longrightarrow> backlog (ws_max_attempts cfg) (notification_jobs d) < fuel \<Longrightarrow>
     claim_loop fuel cfg env lenv w k d \<noteq> None"
proof (induction fuel arbitrary: k d)
  case (Suc fuel)
  obtain cs js1 where c: "claim_batch w (ws_claim_batch_size cfg) (le_clock lenv k) (le_locked lenv k) (notification_jobs d) = (cs, js1)"
    by fastforce
  obtain r d2 where p: "process_batch cfg env w (sort_key (le_finish lenv k) cs) (d\<lparr>notification_jobs := js1\<rparr>) = (r, d2)" by fastforce
  have ok2: "queue_ok (notification_jobs d2)"
  proof -
    have "queue_ok js1" using queue_step_ok[OF Suc.prems(1) queue_step.claim] c by (metis snd_conv)
    with job_lifecycle.run_inv[OF process_batch_steps[OF p]] show ?thesis by simp
  qed
  have "claim_loop fuel cfg env lenv w (Suc k) d2 \<noteq> None" if "cs \<noteq> []" "r = Inr ()"
    using iteration_decreases[OF Suc.prems(1) c that(1) p[unfolded that(2)]] Suc.prems(2) by (intro Suc.IH[OF ok2]) simp
  with c p show ?case by (cases r) (auto simp: Let_def)
qed simp

lemma count_update_drop:
  assumes "\<And>x. x \<in> set xs \<Longrightarrow> P x \<Longrightarrow> Q x \<and> \<not> Q (g x)"
  shows "count_where Q (update_where P g xs) + count_where P xs = count_where Q xs"
  using assms by (induction xs) auto

definition in_flight :: "jobs \<Rightarrow> nat" where
  "in_flight js = count_where (\<lambda>j. job_status_of j = Processing) js"

lemma reap_in_flight:
  assumes "distinct (map job_id js)" "reap_stale idle n now locked js = (reaped, js')"
  shows "in_flight js' + reaped = in_flight js" and "map job_attempts js' = map job_attempts js"
proof -
  let ?P = "\<lambda>j. job_id j \<in> set (map job_id (take n (filter (stale idle now locked) js)))"
  have r: "reaped = count_where ?P js" and j: "js' = update_where ?P
      (\<lambda>j. j\<lparr>job_status_of := Pending, job_locked_by := None, job_updated_at := now\<rparr>) js"
    using assms(2) by (simp_all add: reap_stale_def Let_def)
  show "in_flight js' + reaped = in_flight js"
    unfolding in_flight_def r j
  proof (rule count_update_drop)
    fix x assume "x \<in> set js" "?P x"
    then have "stale idle now locked x" by (rule reaped_stale[OF assms(1)])
    then show "job_status_of x = Processing
        \<and> job_status_of (x\<lparr>job_status_of := Pending, job_locked_by := None, job_updated_at := now\<rparr>) \<noteq> Processing"
      by (simp add: stale_def)
  qed
  show "map job_attempts js' = map job_attempts js" unfolding j by (simp add: map_update_where)
qed

lemma reap_loop_terminates:
  "queue_ok js \<Longrightarrow> 0 < ws_reap_batch_size cfg \<Longrightarrow> in_flight js < fuel \<Longrightarrow>
     \<exists>tot js'. reap_loop fuel cfg env k js = Some (tot, js')"
proof (induction fuel arbitrary: k js)
  case (Suc fuel)
  obtain reaped js1 where r: "reap_stale (ws_reaper_idle cfg) (ws_reap_batch_size cfg) (le_clock env k) (le_locked env k) js = (reaped, js1)"
    by fastforce
  have ok1: "queue_ok js1" using queue_step_ok[OF Suc.prems(1) queue_step.reap] r by (metis snd_conv)
  have "in_flight js1 + reaped = in_flight js" using Suc.prems(1) reap_in_flight(1)[OF _ r] by (simp add: queue_ok_def)
  with Suc.prems Suc.IH[OF ok1 Suc.prems(2), of "Suc k"] r show ?case
    by (cases "reaped < ws_reap_batch_size cfg \<or> le_halted env k") auto
qed simp

lemma reap_loop_keeps:
  "reap_loop fuel cfg env k js = Some (tot, js') \<Longrightarrow> queue_ok js \<Longrightarrow>
     queue_ok js' \<and> map job_attempts js' = map job_attempts js \<and> (\<forall>w. (\<forall>j\<in>set js. \<not> owned w j) \<longrightarrow> (\<forall>j\<in>set js'. \<not> owned w j))"
proof (induction fuel arbitrary: k js tot)
  case (Suc fuel)
  obtain reaped js1 where r: "reap_stale (ws_reaper_idle cfg) (ws_reap_batch_size cfg) (le_clock env k) (le_locked env k) js = (reaped, js1)"
    by fastforce
  have ok1: "queue_ok js1" using queue_step_ok[OF Suc.prems(2) queue_step.reap] r by (metis snd_conv)
  have att: "map job_attempts js1 = map job_attempts js"
    using Suc.prems(2) reap_in_flight(2)[OF _ r] by (simp add: queue_ok_def)
  have own: "(\<forall>j\<in>set js. \<not> owned w j) \<Longrightarrow> (\<forall>j\<in>set js1. \<not> owned w j)" for w
    using r by (auto simp: reap_stale_def Let_def set_update_where owned_def split: if_splits)
  show ?case
  proof (cases "reaped < ws_reap_batch_size cfg \<or> le_halted env k")
    case True
    with Suc.prems r ok1 att own show ?thesis by auto
  next
    case False
    with Suc.prems r obtain t where "reap_loop fuel cfg env (Suc k) js1 = Some (t, js')" by auto
    from Suc.IH[OF this ok1] att own show ?thesis by auto
  qed
qed simp

definition drain_bound :: "int \<Rightarrow> jobs \<Rightarrow> nat" where
  "drain_bound m js = sum_list (map (\<lambda>a. nat (m - a) + 1) (map job_attempts js))"

lemma backlog_le_bound: "backlog m js \<le> drain_bound m js"
  unfolding backlog_def drain_bound_def by (simp add: comp_def weight_def sum_list_mono)

lemma in_flight_le_bound: "in_flight js \<le> drain_bound m js"
  unfolding in_flight_def drain_bound_def by (induction js) auto

lemma claim_loop_settles:
  "claim_loop fuel cfg env lenv w k d = Some (Inr (), d') \<Longrightarrow> queue_ok (notification_jobs d) \<Longrightarrow>
     \<forall>j\<in>set (notification_jobs d). \<not> owned w j \<Longrightarrow> \<forall>j\<in>set (notification_jobs d'). \<not> owned w j"
proof (induction fuel arbitrary: k d)
  case (Suc fuel)
  obtain cs js1 where c: "claim_batch w (ws_claim_batch_size cfg) (le_clock lenv k) (le_locked lenv k) (notification_jobs d) = (cs, js1)"
    by fastforce
  obtain r d2 where p: "process_batch cfg env w (sort_key (le_finish lenv k) cs) (d\<lparr>notification_jobs := js1\<rparr>) = (r, d2)" by fastforce
  have ok1: "queue_ok js1" using queue_step_ok[OF Suc.prems(2) queue_step.claim] c by (metis snd_conv)
  have ok2: "queue_ok (notification_jobs d2)" using job_lifecycle.run_inv[OF process_batch_steps[OF p]] ok1 by simp
  have settled2: "\<forall>j\<in>set (notification_jobs d2). \<not> owned w j" if done2: "r = Inr ()"
  proof -
    obtain f where f: "notification_jobs d2 = map f (notification_jobs d)"
      "\<And>x. x \<in> set (notification_jobs d) \<Longrightarrow>
        if job_id x \<in> set (claimable (le_clock lenv k) (le_locked lenv k) (ws_claim_batch_size cfg) (notification_jobs d))
        then due (le_clock lenv k) (le_locked lenv k) x \<and> settled (ws_max_attempts cfg) (f x) \<and> job_attempts (f x) = job_attempts x + 1
        else f x = x"
      by (rule claim_then_process[OF Suc.prems(2) c p[unfolded done2]]) (rule that)
    have "\<not> owned w (f x)" if "x \<in> set (notification_jobs d)" for x
      using f(2)[OF that] Suc.prems(3) that by (auto simp: settled_def finished_def owned_def split: if_splits)
    then show ?thesis by (auto simp: f(1))
  qed
  have empty: "cs = [] \<Longrightarrow> js1 = notification_jobs d"
  proof -
    assume "cs = []"
    with claim_ids[of "notification_jobs d" w] Suc.prems(2) c
    have "claimable (le_clock lenv k) (le_locked lenv k) (ws_claim_batch_size cfg) (notification_jobs d) = []"
      by (metis empty_set fst_conv image_empty queue_ok_def set_empty)
    with c show ?thesis by (auto simp: claim_batch_def Let_def update_where_none)
  qed
  show ?case
  proof (cases "le_halted lenv k \<or> cs = []")
    case True
    with Suc.prems(1) c empty have "notification_jobs d' = notification_jobs d" by (auto simp: Let_def split: if_splits)
    with Suc.prems(3) show ?thesis by simp
  next
    case False
    with Suc.prems(1) c p obtain u where r: "r = Inr u" by (cases r) (auto simp: Let_def)
    show ?thesis
    proof (cases "length cs < ws_claim_batch_size cfg")
      case True
      with False Suc.prems(1) c p r settled2 show ?thesis by (auto simp: Let_def)
    next
      case big: False
      with False Suc.prems(1) c p r have "claim_loop fuel cfg env lenv w (Suc k) d2 = Some (Inr (), d')" by (simp add: Let_def)
      from Suc.IH[OF this ok2] settled2 r show ?thesis by simp
    qed
  qed
qed simp

lemma drain_stages:
  assumes "queue_ok (notification_jobs d)" "0 < ws_reap_batch_size cfg"
    and "drain_bound (ws_max_attempts cfg) (notification_jobs d) < fuel"
  obtains tot js r d' where "reap_loop fuel cfg reap_env 0 (notification_jobs d) = Some (tot, js)" "queue_ok js"
    "claim_loop fuel cfg env claim_env w 0 (d\<lparr>notification_jobs := js\<rparr>) = Some (r, d')"
    "drain fuel cfg env reap_env claim_env w d = Some (r, d')"
proof -
  obtain tot js where r: "reap_loop fuel cfg reap_env 0 (notification_jobs d) = Some (tot, js)"
    using reap_loop_terminates[OF assms(1,2), of fuel] in_flight_le_bound[of "notification_jobs d" "ws_max_attempts cfg"] assms(3)
    by (meson le_less_trans)
  note k = reap_loop_keeps[OF r assms(1)]
  have "backlog (ws_max_attempts cfg) js < fuel"
    using backlog_le_bound[of "ws_max_attempts cfg" js] k assms(3) by (simp add: drain_bound_def)
  then have "claim_loop fuel cfg env claim_env w 0 (d\<lparr>notification_jobs := js\<rparr>) \<noteq> None"
    using k by (intro claim_loop_terminates) simp_all
  then obtain x d' where "claim_loop fuel cfg env claim_env w 0 (d\<lparr>notification_jobs := js\<rparr>) = Some (x, d')" by auto
  with r k that show thesis by (simp add: drain_def)
qed

section \<open>Properties\<close>


definition sample_settings :: worker_settings where
  "sample_settings = \<lparr>ws_max_attempts = 3, ws_backoff_base = 30, ws_claim_batch_size = 50,
     ws_reap_batch_size = 1000, ws_reaper_idle = 300\<rparr>"

definition sample_env :: worker_env where
  "sample_env = \<lparr>we_verify_link = (\<lambda>u. ''link''), we_send = (\<lambda>job content to. Inr ()),
     we_push = (\<lambda>tokens. HttpFailure), we_faults = (\<lambda>job a. NoFault), we_clock = (\<lambda>job a. 50)\<rparr>"

definition sample_loop :: loop_env where
  "sample_loop = \<lparr>le_clock = (\<lambda>k. 40), le_locked = (\<lambda>k. {}), le_halted = (\<lambda>k. False), le_finish = (\<lambda>k job. 0)\<rparr>"

definition one_job_db :: db where
  "one_job_db = sample_db\<lparr>notification_jobs := [new_job 7 None ''EmailVerify''
     [''student_id'' \<mapsto> JStr (str_uuid 2)] (idempotency_key 2 ''EmailVerify'') 10]\<rparr>"

lemma one_job_db_ok: "queue_ok (notification_jobs one_job_db)"
  by (simp add: one_job_db_def queue_ok_def job_ok_def)


text \<open>
  A drain that returns leaves nothing behind: a worker that held no lease before holds none
  afterwards, because every job it claimed was completed, failed for good or released for a retry.
\<close>

theorem drain_releases_every_lease:
  assumes "drain fuel cfg env reap_env claim_env w d = Some (Inr (), d')" "queue_ok (notification_jobs d)"
    and "\<forall>j\<in>set (notification_jobs d). \<not> owned w j"
  shows "\<forall>j\<in>set (notification_jobs d'). \<not> owned w j"
proof -
  from assms(1) obtain tot js where r: "reap_loop fuel cfg reap_env 0 (notification_jobs d) = Some (tot, js)"
    and c: "claim_loop fuel cfg env claim_env w 0 (d\<lparr>notification_jobs := js\<rparr>) = Some (Inr (), d')"
    by (auto simp: drain_def split: option.splits)
  from reap_loop_keeps[OF r assms(2)] assms(3) show ?thesis by (intro claim_loop_settles[OF c]) simp_all
qed

lemma one_job_delivered:
  "deliver sample_env (claimed_of (stamp_claim ''w'' 40 (new_job 7 None ''EmailVerify''
       [''student_id'' \<mapsto> JStr (str_uuid 2)] k 10))) (one_job_db\<lparr>notification_jobs := js\<rparr>)
     = Inr \<lparr>rcp_user = student2, rcp_event = None\<rparr>"
  by (simp add: deliver_def load_recipient_def claimed_of_def stamp_claim_def new_job_def one_job_db_def
      user_by_id_def sample_defs render_email_def sample_env_def)

lemma one_job_drained:
  "drain 5 sample_settings sample_env sample_loop sample_loop ''w'' one_job_db = Some (Inr (),
     one_job_db\<lparr>notification_jobs := [(stamp_claim ''w'' 40 (hd (notification_jobs one_job_db)))
       \<lparr>job_status_of := Completed, job_updated_at := 50\<rparr>]\<rparr>)"
proof -
  let ?j = "new_job 7 None ''EmailVerify'' [''student_id'' \<mapsto> JStr (str_uuid 2)] (idempotency_key 2 ''EmailVerify'') 10"
  let ?s = "stamp_claim ''w'' 40 ?j"
  have js: "notification_jobs one_job_db = [?j]" by (simp add: one_job_db_def)
  have claim: "claim_batch ''w'' 50 40 {} [?j] = ([claimed_of ?s], [?s])"
    by (simp add: claim_batch_def claimable_def due_def)
  have reap: "reap_stale 300 1000 40 {} [?j] = (0, [?j])"
    by (simp add: reap_stale_def stale_def)
  have fin: "process_one sample_settings sample_env ''w'' (claimed_of ?s) (one_job_db\<lparr>notification_jobs := [?s]\<rparr>)
      = (Inr (), one_job_db\<lparr>notification_jobs := [?s\<lparr>job_status_of := Completed, job_updated_at := 50\<rparr>]\<rparr>)"
    unfolding process_one_def one_job_delivered
    by (simp add: send_push_def finalize_def commit_finalizer_def finalize_max_attempts_def
        mark_completed_def fence_def claimed_of_def sample_env_def upt_rec)
  have "claim_loop 5 sample_settings sample_env sample_loop ''w'' 0 one_job_db = Some (Inr (),
     one_job_db\<lparr>notification_jobs := [?s\<lparr>job_status_of := Completed, job_updated_at := 50\<rparr>]\<rparr>)"
    using claim fin js by (simp add: sample_settings_def sample_loop_def numeral_eq_Suc)
  then show ?thesis using reap js by (simp add: drain_def sample_settings_def sample_loop_def numeral_eq_Suc)
qed

theorem drain_releases_every_lease_witness:
  "filter (owned ''w'') (notification_jobs (snd (the (drain 5 sample_settings sample_env sample_loop sample_loop ''w'' one_job_db)))) = []"
proof -
  have "\<forall>j\<in>set (notification_jobs one_job_db). \<not> owned ''w'' j" by (simp add: one_job_db_def owned_def)
  from drain_releases_every_lease[OF one_job_drained one_job_db_ok this] show ?thesis
    unfolding one_job_drained filter_empty_conv option.sel snd_conv .
qed

text \<open>
  C17: Retrying a finalizer's commit never applies it twice. Over the three attempts, with any
  transient failures before a commit or after it (acknowledgement lost), the table ends either
  unchanged or changed by exactly one application; the caller is told \<open>True\<close> only if that
  application found the fence; and if no attempt fails logically and one goes through, the caller
  gets an answer rather than an exception.
\<close>

theorem commit_finalizer_applies_once:
  assumes "commit_finalizer fin job w faults clock js = (res, js')"
    and "fin = mark_completed \<or> fin = mark_failed err \<or> fin = mark_retry err delay"
  shows "(js' = js \<or> (\<exists>a\<in>{1,2,3}. js' = snd (fin (cj_id job) w (clock a) js)))
     \<and> (\<forall>b. res = Inr b \<longrightarrow> (\<exists>a\<in>{1,2,3}. js' = snd (fin (cj_id job) w (clock a) js)))
     \<and> (res = Inr True \<longrightarrow> (\<exists>a\<in>{1,2,3}. fin (cj_id job) w (clock a) js = (True, js')))
     \<and> ((\<forall>a\<in>{1,2,3}. faults a \<noteq> LogicError) \<and> (\<exists>a\<in>{1,2,3}. faults a = NoFault) \<longrightarrow> (\<exists>b. res = Inr b))"
proof -
  have three: "[1..<finalize_max_attempts + 1] = [1, 2, 3]" by (simp add: finalize_max_attempts_def upt_rec)
  have loop: "commit_loop (fin (cj_id job) w) faults clock [1, 2, 3] js = (res, js')"
    using assms(1) unfolding commit_finalizer_def three .
  have answer: "\<exists>b. res = Inr b" if "\<forall>a\<in>{1,2,3}. faults a \<noteq> LogicError" "\<exists>a\<in>{1,2,3}. faults a = NoFault"
    using that loop by (auto simp: finalize_max_attempts_def split: db_fault.splits prod.splits)
  from assms(2) completed.commit_loop_once[of "cj_id job" w faults clock "[1,2,3]" js]
    failed.commit_loop_once[of err "cj_id job" w faults clock "[1,2,3]" js]
    retried.commit_loop_once[of err delay "cj_id job" w faults clock "[1,2,3]" js] loop answer
  show ?thesis by (elim disjE) simp_all
qed

definition claimed7 :: claimed_job where
  "claimed7 = claimed_of (stamp_claim ''w'' 40 (hd (notification_jobs one_job_db)))"

theorem commit_finalizer_applies_once_witness:
  "\<exists>js'. commit_finalizer mark_completed claimed7 ''w'' (\<lambda>a. if a = 1 then FaultAfter else NoFault) (\<lambda>a. 50 + int a)
       [stamp_claim ''w'' 40 (hd (notification_jobs one_job_db))] = (Inr False, js')
     \<and> (\<exists>a\<in>{1,2,3}. js' = snd (mark_completed 7 ''w'' (50 + int a) [stamp_claim ''w'' 40 (hd (notification_jobs one_job_db))]))"
proof -
  let ?js = "[stamp_claim ''w'' 40 (hd (notification_jobs one_job_db))]"
  have "fst (commit_finalizer mark_completed claimed7 ''w'' (\<lambda>a. if a = 1 then FaultAfter else NoFault) (\<lambda>a. 50 + int a) ?js) = Inr False"
    by (simp add: commit_finalizer_def finalize_max_attempts_def upt_rec mark_completed_def fence_def
        claimed7_def claimed_of_def one_job_db_def)
  then obtain js' where c: "commit_finalizer mark_completed claimed7 ''w'' (\<lambda>a. if a = 1 then FaultAfter else NoFault)
      (\<lambda>a. 50 + int a) ?js = (Inr False, js')" by (metis prod.collapse)
  from commit_finalizer_applies_once[OF c] have "\<exists>a\<in>{1,2,3}. js' = snd (mark_completed (cj_id claimed7) ''w'' (50 + int a) ?js)"
    by blast
  moreover have "cj_id claimed7 = 7" by (simp add: claimed7_def claimed_of_def one_job_db_def)
  ultimately show ?thesis using c by auto
qed

definition decided :: "worker_settings \<Rightarrow> instant \<Rightarrow> worker_exc + recipient \<Rightarrow> notification_job \<Rightarrow> notification_job" where
  "decided cfg now outcome j = (case outcome of
      Inr _ \<Rightarrow> j\<lparr>job_status_of := Completed, job_updated_at := now\<rparr>
    | Inl (PermanentError m) \<Rightarrow> j\<lparr>job_status_of := Failed, job_last_error := Some m, job_updated_at := now\<rparr>
    | Inl (TransientError m) \<Rightarrow>
        if ws_max_attempts cfg \<le> job_attempts j
        then j\<lparr>job_status_of := Failed, job_last_error := Some m, job_updated_at := now\<rparr>
        else j\<lparr>job_status_of := Pending, job_locked_by := None, job_last_error := Some m,
               job_next_attempt_at := now + seconds (ws_backoff_base cfg * 4 ^ (nat (job_attempts j) - 1)), job_updated_at := now\<rparr>
    | Inl (Unexpected m) \<Rightarrow> j)"

lemma finalize_first_commit:
  "we_faults env job 1 = NoFault \<Longrightarrow> fin (cj_id job) w (we_clock env job 1) (notification_jobs d) = (b, js) \<Longrightarrow>
     finalize env fin job w d = (Inr (), d\<lparr>notification_jobs := js\<rparr>)"
  by (simp add: finalize_def commit_finalizer_def finalize_max_attempts_def upt_rec)

lemma update_where_row:
  "distinct (map k xs) \<Longrightarrow> x \<in> set xs \<Longrightarrow> f x = g x \<Longrightarrow>
     update_where (\<lambda>y. k y = k x) f xs = update_where (\<lambda>y. k y = k x) g xs"
  using pk_unique[of k xs x] by (auto simp: update_where_def)

text \<open>
  The decision matrix. For a job whose lease the worker holds and whose first commit goes
  through, the row ends completed when the email was accepted, failed on a permanent error or on a
  transient one at the last attempt, and pending with exponential backoff on an earlier transient
  one; nothing else in the outbox changes.
\<close>

theorem process_one_decides:
  assumes "queue_ok (notification_jobs d)" "j \<in> set (notification_jobs d)" "owned w j"
    and "we_faults env (claimed_of j) 1 = NoFault" "\<forall>m. deliver env (claimed_of j) d \<noteq> Inl (Unexpected m)"
  shows "\<exists>d'. process_one cfg env w (claimed_of j) d = (Inr (), d') \<and> notification_jobs d' =
     update_where (\<lambda>x. job_id x = job_id j) (decided cfg (we_clock env (claimed_of j) 1) (deliver env (claimed_of j) d)) (notification_jobs d)"
proof -
  let ?c = "claimed_of j" and ?js = "notification_jobs d"
  let ?now = "we_clock env ?c 1"
  have dist: "distinct (map job_id ?js)" using assms(1) by (simp add: queue_ok_def)
  have c: "cj_id ?c = job_id j" "cj_attempts ?c = job_attempts j" by (simp_all add: claimed_of_def)
  note fences = fence_outcome[OF assms(1,2)]
  have completed: "finalize env mark_completed ?c w (send_push env ?c r d) = (Inr (), (send_push env ?c r d)
      \<lparr>notification_jobs := update_where (\<lambda>x. job_id x = job_id j) (\<lambda>x. x\<lparr>job_status_of := Completed, job_updated_at := ?now\<rparr>) ?js\<rparr>)" for r
    using fences[of w ?now] assms(3) by (intro finalize_first_commit[OF assms(4)]) (simp add: c)
  have failed: "finalize env (mark_failed m) ?c w d = (Inr (), d\<lparr>notification_jobs := update_where (\<lambda>x. job_id x = job_id j)
      (\<lambda>x. x\<lparr>job_status_of := Failed, job_last_error := Some m, job_updated_at := ?now\<rparr>) ?js\<rparr>)" for m
    using fences[of w ?now m] assms(3) by (intro finalize_first_commit[OF assms(4)]) (simp add: c)
  have retried: "finalize env (mark_retry m delay) ?c w d = (Inr (), d\<lparr>notification_jobs := update_where (\<lambda>x. job_id x = job_id j)
      (\<lambda>x. x\<lparr>job_status_of := Pending, job_locked_by := None, job_last_error := Some m,
         job_next_attempt_at := ?now + seconds delay, job_updated_at := ?now\<rparr>) ?js\<rparr>)" for m delay
    using fences[of w ?now m delay] assms(3) by (intro finalize_first_commit[OF assms(4)]) (simp add: c)
  note row = update_where_row[OF dist assms(2)]
  show ?thesis
  proof (cases "deliver env ?c d")
    case (Inr r)
    then show ?thesis using completed by (auto simp: process_one_def decided_def intro!: row)
  next
    case (Inl ex)
    then show ?thesis using assms(5) failed retried c
      by (cases ex) (auto simp: process_one_def decided_def backoff_delay_def intro!: row)
  qed
qed

theorem process_one_decides_witness:
  "\<exists>d'. process_one sample_settings sample_env ''w'' claimed7
       (one_job_db\<lparr>notification_jobs := [stamp_claim ''w'' 40 (hd (notification_jobs one_job_db))]\<rparr>) = (Inr (), d')
     \<and> map job_status_of (notification_jobs d') = [Completed]"
proof -
  let ?j = "stamp_claim ''w'' 40 (hd (notification_jobs one_job_db))"
  let ?d = "one_job_db\<lparr>notification_jobs := [?j]\<rparr>"
  have hd: "hd (notification_jobs one_job_db) = new_job 7 None ''EmailVerify'' [''student_id'' \<mapsto> JStr (str_uuid 2)]
      (idempotency_key 2 ''EmailVerify'') 10" by (simp add: one_job_db_def)
  have del: "deliver sample_env (claimed_of ?j) ?d = Inr \<lparr>rcp_user = student2, rcp_event = None\<rparr>"
    unfolding hd by (rule one_job_delivered)
  have "queue_ok (notification_jobs ?d)" "?j \<in> set (notification_jobs ?d)" "owned ''w'' ?j"
    "we_faults sample_env (claimed_of ?j) 1 = NoFault"
    by (simp_all add: queue_ok_def job_ok_def hd owned_def sample_env_def)
  from process_one_decides[OF this, of sample_settings] del show ?thesis
    by (auto simp: claimed7_def decided_def)
qed

lemma finalize_not_completed:
  assumes "finalize env (mark_failed m) job w d = (r, d') \<or> finalize env (mark_retry m delay) job w d = (r, d')"
    and "x \<in> set (notification_jobs d')" "job_status_of x = Completed"
  shows "x \<in> set (notification_jobs d)"
  using assms(1)
proof
  assume "finalize env (mark_failed m) job w d = (r, d')"
  then show ?thesis by (rule failed.finalize_effect) (use assms(2,3) in \<open>auto simp: mark_failed_def set_update_where split: if_splits\<close>)
next
  assume "finalize env (mark_retry m delay) job w d = (r, d')"
  then show ?thesis by (rule retried.finalize_effect) (use assms(2,3) in \<open>auto simp: mark_retry_def set_update_where split: if_splits\<close>)
qed



end
