(* ===== verification/Heartbeat.thy ===== *)
theory Heartbeat
  imports Outbox_Properties
begin

text \<open>
  The lease-renewal task (\<open>worker/heartbeat.py\<close>). One turn of \<open>Heartbeat.run\<close> is a beat: how its
  transaction ended, when its statement ran, and what the monotonic clock shows afterwards. The loop
  runs over the beats seen so far; it ends when the worker gives its leases up, or when an exception
  escapes that is not a database error.
\<close>

section \<open>The loop\<close>

datatype beat_outcome = Renewed | FailedBefore | FailedAfter | OtherError

record beat =
  bt_outcome :: beat_outcome
  bt_statement :: instant
  bt_monotonic :: instant

record heartbeat =
  hb_worker_id :: string
  hb_reaper_idle :: int

datatype heartbeat_status = Running instant | LeaseLost | Crashed

text \<open>A failed transaction may still have committed, when only its acknowledgement was lost.\<close>

definition beat_rows :: "heartbeat \<Rightarrow> beat \<Rightarrow> jobs \<Rightarrow> jobs" where
  "beat_rows hb b js = (case bt_outcome b of
      Renewed \<Rightarrow> snd (renew_heartbeat (hb_worker_id hb) (bt_statement b) js)
    | FailedAfter \<Rightarrow> snd (renew_heartbeat (hb_worker_id hb) (bt_statement b) js)
    | _ \<Rightarrow> js)"

fun heartbeat_run :: "heartbeat \<Rightarrow> beat list \<Rightarrow> instant \<Rightarrow> jobs \<Rightarrow> heartbeat_status \<times> jobs" where
  "heartbeat_run hb [] last_success js = (Running last_success, js)"
| "heartbeat_run hb (b # bs) last_success js =
     (let js' = beat_rows hb b js
      in case bt_outcome b of
           Renewed \<Rightarrow> heartbeat_run hb bs (bt_monotonic b) js'
         | OtherError \<Rightarrow> (Crashed, js')
         | _ \<Rightarrow> if seconds (hb_reaper_idle hb) < bt_monotonic b - last_success then (LeaseLost, js')
                else heartbeat_run hb bs last_success js')"

section \<open>Lemmas\<close>

definition failed_beat :: "beat \<Rightarrow> bool" where
  "failed_beat b \<longleftrightarrow> bt_outcome b = FailedBefore \<or> bt_outcome b = FailedAfter"

lemma heartbeat_run_failed:
  "failed_beat b \<Longrightarrow> heartbeat_run hb (b # bs) t js =
     (if seconds (hb_reaper_idle hb) < bt_monotonic b - t then (LeaseLost, beat_rows hb b js)
      else heartbeat_run hb bs t (beat_rows hb b js))"
  by (auto simp: failed_beat_def Let_def)

text \<open>Only heartbeats change, and only those of the worker's own rows.\<close>

lemma beat_rows_owned:
  assumes "j' \<in> set (beat_rows hb b js)" "owned (hb_worker_id hb) j'"
  obtains "bt_outcome b = Renewed \<or> bt_outcome b = FailedAfter" "job_heartbeat_at j' = Some (bt_statement b)"
  | "bt_outcome b = FailedBefore \<or> bt_outcome b = OtherError" "j' \<in> set js"
  using assms by (cases "bt_outcome b") (auto simp: beat_rows_def renew_heartbeat_def set_update_where owned_def split: if_splits)

lemma beat_rows_steps: "queue_step\<^sup>*\<^sup>* js (beat_rows hb b js)"
  using queue_step.renew by (cases "bt_outcome b") (auto simp: beat_rows_def)

lemma heartbeat_run_steps: "heartbeat_run hb bs t js = (st, js') \<Longrightarrow> queue_step\<^sup>*\<^sup>* js js'"
proof (induction bs arbitrary: t js)
  case (Cons b bs)
  from Cons.prems have "js' = beat_rows hb b js \<or> (\<exists>t. heartbeat_run hb bs t (beat_rows hb b js) = (st, js'))"
    by (auto simp: Let_def split: beat_outcome.splits if_splits)
  with Cons.IH beat_rows_steps[of js hb b] show ?case by (metis rtranclp_trans)
qed simp

lemma heartbeat_run_append:
  "heartbeat_run hb pre t js = (Running t1, js1) \<Longrightarrow> heartbeat_run hb (pre @ bs) t js = heartbeat_run hb bs t1 js1"
  by (induction pre arbitrary: t js) (auto simp: Let_def split: beat_outcome.splits if_splits)

lemma heartbeat_outage:
  "\<forall>b\<in>set bs. failed_beat b \<Longrightarrow>
     fst (heartbeat_run hb bs t js) = (if \<exists>b\<in>set bs. seconds (hb_reaper_idle hb) < bt_monotonic b - t then LeaseLost else Running t)"
  by (induction bs arbitrary: js) (auto simp: heartbeat_run_failed simp del: heartbeat_run.simps(2))

text \<open>Heartbeats never run ahead of the last success the task knows of, unless an acknowledgement was lost.\<close>

definition renewed_by :: "string \<Rightarrow> instant \<Rightarrow> jobs \<Rightarrow> bool" where
  "renewed_by w t js \<longleftrightarrow> (\<forall>j\<in>set js. owned w j \<longrightarrow> (\<exists>h. job_heartbeat_at j = Some h \<and> h \<le> t))"

lemma renewed_by_beat:
  assumes "renewed_by (hb_worker_id hb) t js" "bt_outcome b \<noteq> FailedAfter" "bt_statement b \<le> bt_monotonic b"
  shows "renewed_by (hb_worker_id hb) (if bt_outcome b = Renewed then bt_monotonic b else t) (beat_rows hb b js)"
  unfolding renewed_by_def
proof (intro ballI impI)
  fix j assume "j \<in> set (beat_rows hb b js)" "owned (hb_worker_id hb) j"
  then show "\<exists>h. job_heartbeat_at j = Some h \<and> h \<le> (if bt_outcome b = Renewed then bt_monotonic b else t)"
    by (rule beat_rows_owned) (use assms \<open>owned (hb_worker_id hb) j\<close> in \<open>auto simp: renewed_by_def\<close>)
qed

lemma renewed_by_stale:
  assumes "renewed_by w t js" "seconds idle < now - t" "j \<in> set js" "owned w j"
  shows "stale idle now {} j"
  using assms by (force simp: renewed_by_def stale_def owned_def)

text \<open>
  Giving up is justified: if statements run no later than the clock is read afterwards and no
  acknowledgement was lost, every lease the worker still holds on paper may be reaped from the
  failing beat on.
\<close>

lemma heartbeat_lost_stale:
  assumes "heartbeat_run hb bs t js = (LeaseLost, js')" "renewed_by (hb_worker_id hb) t js"
    and "\<forall>b\<in>set bs. bt_outcome b \<noteq> FailedAfter \<and> bt_statement b \<le> bt_monotonic b"
  shows "\<exists>b\<in>set bs. failed_beat b \<and> (\<forall>now \<ge> bt_monotonic b. \<forall>j\<in>set js'. owned (hb_worker_id hb) j \<longrightarrow>
           stale (hb_reaper_idle hb) now {} j)"
  using assms
proof (induction bs arbitrary: t js)
  case (Cons b bs)
  note beat = renewed_by_beat[OF Cons.prems(2), of b]
  show ?case
  proof (cases "failed_beat b")
    case fail: True
    with Cons.prems(3) beat have rows: "renewed_by (hb_worker_id hb) t (beat_rows hb b js)" by (auto simp: failed_beat_def)
    show ?thesis
    proof (cases "seconds (hb_reaper_idle hb) < bt_monotonic b - t")
      case True
      with fail Cons.prems(1) have "js' = beat_rows hb b js" by (simp add: heartbeat_run_failed del: heartbeat_run.simps)
      with fail True renewed_by_stale[OF rows] show ?thesis by (intro bexI[where x = b]) auto
    next
      case False
      with fail Cons.prems(1) have "heartbeat_run hb bs t (beat_rows hb b js) = (LeaseLost, js')"
        by (simp add: heartbeat_run_failed del: heartbeat_run.simps)
      from Cons.IH[OF this rows] Cons.prems(3) show ?thesis by auto
    qed
  next
    case False
    with Cons.prems(1) have ok: "bt_outcome b = Renewed" and run: "heartbeat_run hb bs (bt_monotonic b) (beat_rows hb b js) = (LeaseLost, js')"
      by (auto simp: failed_beat_def Let_def split: beat_outcome.splits)
    from Cons.IH[OF run] beat ok Cons.prems(3) show ?thesis by auto
  qed
qed simp

section \<open>Properties\<close>


definition sample_heartbeat :: heartbeat where
  "sample_heartbeat = \<lparr>hb_worker_id = ''w'', hb_reaper_idle = 300\<rparr>"

definition sample_beat :: "beat_outcome \<Rightarrow> int \<Rightarrow> beat" where
  "sample_beat out s = \<lparr>bt_outcome = out, bt_statement = seconds s, bt_monotonic = seconds s\<rparr>"

lemmas heartbeat_sample_defs = sample_heartbeat_def sample_beat_def failed_beat_def seconds_def Let_def


end
