(* ===== verification/Auth.thy ===== *)
theory Auth
  imports Models Python_Text
begin

text \<open>
  Accounts and tokens: the service \<open>hefest/services/auth.py\<close> and the request validators of
  \<open>hefest/schemas/auth.py\<close>. The libraries the code calls are the fields of \<open>crypto\<close>: PyJWT's
  \<open>encode\<close> and \<open>decode\<close> (with the secret and the algorithm fixed by the settings), SHA-256, and
  bcrypt. Random values (\<open>secrets.token_urlsafe\<close>, \<open>uuid4\<close>, the bcrypt salt) and readings of the
  clock are arguments.
\<close>

section \<open>Settings and libraries\<close>

record auth_settings =
  as_jwt_audience :: string
  as_jwt_expire_minutes :: int
  as_refresh_token_expire_days :: int
  as_email_verify_expire_hours :: int
  as_email_verify_url :: string
  as_refresh_cookie_name :: string
  as_refresh_cookie_secure :: bool
  as_env :: string
  as_frontend_oauth_success_url :: string
  as_mobile_oauth_success_url :: string

text \<open>The claims the program puts into its tokens; an absent claim is \<open>None\<close>.\<close>

datatype claims = Claims (claim_sub: "string option") (claim_role: "string option") (claim_iss: "string option")
  (claim_aud: "string option") (claim_iat: "instant option") (claim_exp: "instant option") (claim_type: "string option")

text \<open>
  \<open>decode aud now token\<close> is \<open>jwt.decode\<close> with the expected audience (none when the argument is
  not given); \<open>None\<close> is a \<open>PyJWTError\<close>.
\<close>

record crypto =
  jwt_encode :: "claims \<Rightarrow> string"
  jwt_decode :: "string option \<Rightarrow> instant \<Rightarrow> string \<Rightarrow> claims option"
  sha256_hex :: "string \<Rightarrow> string"
  bcrypt_hashpw :: "string \<Rightarrow> string \<Rightarrow> string option"
  bcrypt_checkpw :: "string \<Rightarrow> string \<Rightarrow> bool option"

text \<open>
  What the program relies on of PyJWT, as its documentation states it: a token that was encoded
  decodes to its claims as long as it has not expired (expiry is kept in whole seconds) and its
  audience is the expected one; an audience claim without an expected audience, or an expected
  audience without a claim, is an error.
\<close>

definition whole_seconds :: "instant \<Rightarrow> instant" where
  "whole_seconds t = seconds (t div seconds 1)"

definition jwt_laws :: "crypto \<Rightarrow> bool" where
  "jwt_laws cr \<longleftrightarrow> (\<forall>aud now c. jwt_decode cr aud now (jwt_encode cr c) =
     (if claim_aud c = aud \<and> (\<forall>e. claim_exp c = Some e \<longrightarrow> now < whole_seconds e) then Some c else None))"

text \<open>
  What the program relies on of bcrypt (release 5): hashing and checking raise \<open>ValueError\<close>
  (\<open>None\<close>) for a password of more than 72 bytes and for no other, and a hash verifies exactly the
  password it was made from. Text is its encoded bytes here.
\<close>

definition bcrypt_laws :: "crypto \<Rightarrow> bool" where
  "bcrypt_laws cr \<longleftrightarrow>
     (\<forall>salt p. bcrypt_hashpw cr salt p = None \<longleftrightarrow> 72 < length p)
   \<and> (\<forall>q h. 72 < length q \<longrightarrow> bcrypt_checkpw cr q h = None)
   \<and> (\<forall>salt p q h. bcrypt_hashpw cr salt p = Some h \<and> length q \<le> 72 \<longrightarrow> bcrypt_checkpw cr q h = Some (q = p))"

section \<open>Password hashing\<close>

definition password_too_long :: exc where
  "password_too_long = ValueError ''password cannot be longer than 72 bytes, truncate manually if necessary (e.g. my_password[:72])''"

definition hash_password :: "crypto \<Rightarrow> string \<Rightarrow> string \<Rightarrow> exc + string" where
  "hash_password cr salt plain = (case bcrypt_hashpw cr salt plain of
      None \<Rightarrow> Inl password_too_long | Some h \<Rightarrow> Inr h)"

definition verify_password :: "crypto \<Rightarrow> string \<Rightarrow> string \<Rightarrow> exc + bool" where
  "verify_password cr plain hashed = (case bcrypt_checkpw cr plain hashed of
      None \<Rightarrow> Inl password_too_long | Some b \<Rightarrow> Inr b)"

section \<open>Validators\<close>

definition password_validator :: "string \<Rightarrow> exc + string" where
  "password_validator v =
     (if length v < 12 then Inl (ValueError ''Password must be at least 12 characters long'') else Inr v)"

definition full_name_validator :: "string \<Rightarrow> exc + string" where
  "full_name_validator v =
     (let trimmed = strip v
      in if trimmed = '''' then Inl (ValueError ''Full name must not be empty'')
         else if 200 < length trimmed then Inl (ValueError ''Full name must be at most 200 characters long'')
         else Inr trimmed)"

section \<open>Tokens\<close>

fun str_role :: "user_role \<Rightarrow> string" where
  "str_role Student = ''student''"
| "str_role Organizer = ''organizer''"

definition create_access_token :: "crypto \<Rightarrow> auth_settings \<Rightarrow> user \<Rightarrow> instant \<Rightarrow> string" where
  "create_access_token cr st user now = jwt_encode cr (Claims
     (Some (str_uuid (usr_id user))) (Some (str_role (usr_role user))) (Some ''hefest'') (Some (as_jwt_audience st))
     (Some now) (Some (now + seconds (as_jwt_expire_minutes st * 60))) (Some ''access''))"

definition create_email_verify_token :: "crypto \<Rightarrow> auth_settings \<Rightarrow> user \<Rightarrow> instant \<Rightarrow> string" where
  "create_email_verify_token cr st user now = jwt_encode cr (Claims
     (Some (str_uuid (usr_id user))) None None (Some ''hefest-verify'')
     None (Some (now + hours (as_email_verify_expire_hours st))) (Some ''email_verify''))"

definition build_email_verify_link :: "crypto \<Rightarrow> auth_settings \<Rightarrow> user \<Rightarrow> instant \<Rightarrow> string" where
  "build_email_verify_link cr st user now =
     as_email_verify_url st @ (if CHR ''?'' \<in> set (as_email_verify_url st) then ''&'' else ''?'') @
     ''token='' @ create_email_verify_token cr st user now"

definition save_user :: "uuid \<Rightarrow> (user \<Rightarrow> user) \<Rightarrow> db \<Rightarrow> db" where
  "save_user i f d = d\<lparr>users := update_where (\<lambda>u. usr_id u = i) f (users d)\<rparr>"

definition uuid_filter :: "string \<Rightarrow> exc + uuid" where
  "uuid_filter s = (case uuid_of_str s of
      None \<Rightarrow> Inl (ValueError ''badly formed hexadecimal UUID string'') | Some i \<Rightarrow> Inr i)"

definition consume_email_verify_token :: "crypto \<Rightarrow> string \<Rightarrow> instant \<Rightarrow> (db, user) prog" where
  "consume_email_verify_token cr token now d =
     (case jwt_decode cr (Some ''hefest-verify'') now token of
        None \<Rightarrow> raise (ValueError ''invalid or expired verification token'') d
      | Some payload \<Rightarrow>
          if claim_type payload \<noteq> Some ''email_verify'' then raise (ValueError ''wrong token type'') d
          else (case claim_sub payload of
              None \<Rightarrow> raise (KeyError ''sub'') d
            | Some sub \<Rightarrow> (case uuid_filter sub of
                Inl ex \<Rightarrow> raise ex d
              | Inr uid \<Rightarrow> (case user_by_id uid d of
                  None \<Rightarrow> raise (ValueError ''user not found'') d
                | Some user \<Rightarrow>
                    if usr_email_verified_at user = None
                    then ret (user\<lparr>usr_email_verified_at := Some now\<rparr>)
                           (save_user uid (\<lambda>u. u\<lparr>usr_email_verified_at := Some now\<rparr>) d)
                    else ret user d))))"

section \<open>Refresh tokens\<close>

definition hash_token :: "crypto \<Rightarrow> string \<Rightarrow> string" where
  "hash_token cr token = sha256_hex cr token"

definition issue_refresh_token ::
  "crypto \<Rightarrow> auth_settings \<Rightarrow> user \<Rightarrow> refresh_client \<Rightarrow> string \<Rightarrow> uuid \<Rightarrow> instant \<Rightarrow> (db, string) prog" where
  "issue_refresh_token cr st user client raw new_id now =
     and_then (create_refresh_token \<lparr>tok_id = new_id, tok_user_id = usr_id user, tok_token_hash = hash_token cr raw,
         tok_client = client, tok_expires_at = now + days (as_refresh_token_expire_days st),
         tok_revoked_at = None, tok_created_at = now\<rparr>) (\<lambda>_. ret raw)"

definition save_tokens :: "(refresh_token \<Rightarrow> bool) \<Rightarrow> (refresh_token \<Rightarrow> refresh_token) \<Rightarrow> db \<Rightarrow> db" where
  "save_tokens P f d = d\<lparr>refresh_tokens := update_where P f (refresh_tokens d)\<rparr>"

definition rotate_refresh_token ::
  "crypto \<Rightarrow> auth_settings \<Rightarrow> string \<Rightarrow> refresh_client \<Rightarrow> string \<Rightarrow> uuid \<Rightarrow> instant \<Rightarrow> (db, string \<times> string \<times> refresh_client) prog" where
  "rotate_refresh_token cr st raw_token presented_client new_raw new_id now = in_transaction (\<lambda>d.
     case get_or_none (\<lambda>t. tok_token_hash t = hash_token cr raw_token) (refresh_tokens d) of
       None \<Rightarrow> raise (ValueError ''refresh token not found'') d
     | Some record \<Rightarrow>
         if tok_expires_at record < now \<and> tok_revoked_at record = None
         then raise (ValueError ''refresh token expired'') d
         else if tok_revoked_at record \<noteq> None
         then raise (PermissionError ''token_reuse_detected'')
                (save_tokens (\<lambda>t. tok_user_id t = tok_user_id record \<and> tok_revoked_at t = None)
                   (\<lambda>t. t\<lparr>tok_revoked_at := Some now\<rparr>) d)
         else if tok_client record \<noteq> presented_client then raise (ValueError ''client mismatch'') d
         else
           let d1 = save_tokens (\<lambda>t. tok_id t = tok_id record) (\<lambda>t. t\<lparr>tok_revoked_at := Some now\<rparr>) d
           in (case user_by_id (tok_user_id record) d1 of
                 None \<Rightarrow> raise DoesNotExist d1
               | Some user \<Rightarrow>
                   and_then (issue_refresh_token cr st user (tok_client record) new_raw new_id now)
                     (\<lambda>new_refresh. ret (create_access_token cr st user now, new_refresh, tok_client record)) d1))"

definition revoke_refresh_token :: "crypto \<Rightarrow> string \<Rightarrow> instant \<Rightarrow> db \<Rightarrow> db" where
  "revoke_refresh_token cr raw_token now =
     save_tokens (\<lambda>t. tok_token_hash t = hash_token cr raw_token \<and> tok_revoked_at t = None)
       (\<lambda>t. t\<lparr>tok_revoked_at := Some now\<rparr>)"

definition revoke_all_for_user :: "string \<Rightarrow> instant \<Rightarrow> (db, unit) prog" where
  "revoke_all_for_user user_id now d = (case uuid_filter user_id of
      Inl ex \<Rightarrow> raise ex d
    | Inr uid \<Rightarrow> ret () (save_tokens (\<lambda>t. tok_user_id t = uid \<and> tok_revoked_at t = None)
                          (\<lambda>t. t\<lparr>tok_revoked_at := Some now\<rparr>) d))"

definition user_id_from_access_token :: "crypto \<Rightarrow> auth_settings \<Rightarrow> string \<Rightarrow> instant \<Rightarrow> string option" where
  "user_id_from_access_token cr st token now =
     (case jwt_decode cr (Some (as_jwt_audience st)) now token of
        None \<Rightarrow> None
      | Some payload \<Rightarrow> if claim_type payload \<noteq> Some ''access'' then None else claim_sub payload)"

definition user_id_for_active_refresh_token :: "crypto \<Rightarrow> string \<Rightarrow> instant \<Rightarrow> db \<Rightarrow> string option" where
  "user_id_for_active_refresh_token cr raw_token now d =
     (case get_or_none (\<lambda>t. tok_token_hash t = hash_token cr raw_token \<and> tok_revoked_at t = None) (refresh_tokens d) of
        None \<Rightarrow> None
      | Some record \<Rightarrow> if tok_expires_at record < now then None else Some (str_uuid (tok_user_id record)))"

section \<open>Cookies\<close>

datatype cookie =
    SetCookie (ck_key: string) (ck_value: string) (ck_httponly: bool) (ck_secure: bool) (ck_samesite: string)
      (ck_path: string) (ck_max_age: int)
  | DeleteCookie string string

definition set_refresh_cookie :: "auth_settings \<Rightarrow> string \<Rightarrow> cookie" where
  "set_refresh_cookie st raw_token = SetCookie (as_refresh_cookie_name st) raw_token True (as_refresh_cookie_secure st)
     ''strict'' ''/auth'' (as_refresh_token_expire_days st * 86400)"

section \<open>OAuth accounts\<close>

record openid =
  oi_id :: string
  oi_email :: string
  oi_display_name :: "string option"

definition display_or :: "string option \<Rightarrow> string \<Rightarrow> string" where
  "display_or dn fallback = (case dn of None \<Rightarrow> fallback | Some n \<Rightarrow> if n = '''' then fallback else n)"

definition new_identity :: "uuid \<Rightarrow> uuid \<Rightarrow> string \<Rightarrow> openid \<Rightarrow> instant \<Rightarrow> oauth_identity" where
  "new_identity new_id uid provider oi now = \<lparr>oid_id = new_id, oid_user_id = uid, oid_provider = provider,
     oid_subject = oi_id oi, oid_email = oi_email oi, oid_created_at = now\<rparr>"

text \<open>
  The reads of \<open>_inner\<close> see \<open>snapshot\<close>; its writes are checked against the store as it is when
  they run, which a concurrent request may have changed in between.
\<close>

definition oauth_inner ::
  "string \<Rightarrow> openid \<Rightarrow> uuid \<Rightarrow> uuid \<Rightarrow> instant \<Rightarrow> db \<Rightarrow> (db, user) prog" where
  "oauth_inner provider oi new_user_id new_identity_id now snapshot d =
     (case get_or_none (\<lambda>i. oid_provider i = provider \<and> oid_subject i = oi_id oi) (oauth_identities snapshot) of
        Some identity \<Rightarrow>
          (case user_by_id (oid_user_id identity) snapshot of
             None \<Rightarrow> raise DoesNotExist d
           | Some user \<Rightarrow>
               if oid_email identity \<noteq> oi_email oi
               then if \<not> fits 254 (oi_email oi) then raise too_long d
                 else ret user (d\<lparr>oauth_identities := update_where (\<lambda>i. oid_id i = oid_id identity)
                       (\<lambda>i. i\<lparr>oid_email := oi_email oi\<rparr>) (oauth_identities d)\<rparr>)
               else ret user d)
      | None \<Rightarrow>
          (case get_or_none (\<lambda>u. usr_email u = oi_email oi) (users snapshot) of
             Some existing \<Rightarrow>
               if usr_email_verified_at existing \<noteq> None
               then and_then (create_oauth_identity (new_identity new_identity_id (usr_id existing) provider oi now))
                      (\<lambda>_. ret existing) d
               else
                 let name = display_or (oi_display_name oi) (usr_full_name existing);
                     upd = (\<lambda>u. u\<lparr>usr_email_verified_at := Some now, usr_password_hash := None, usr_full_name := name\<rparr>)
                 in if \<not> fits 255 name then raise too_long d
                    else and_then (create_oauth_identity (new_identity new_identity_id (usr_id existing) provider oi now))
                      (\<lambda>_. ret (upd existing)) (save_user (usr_id existing) upd d)
           | None \<Rightarrow>
               let user = \<lparr>usr_id = new_user_id, usr_email = oi_email oi, usr_password_hash = None,
                     usr_full_name = display_or (oi_display_name oi) '''', usr_role = Student,
                     usr_email_verified_at = Some now, usr_created_at = now\<rparr>
               in and_then (create_user user) (\<lambda>user.
                    and_then (create_oauth_identity (new_identity new_identity_id (usr_id user) provider oi now))
                      (\<lambda>_. ret user)) d))"

text \<open>
  The second call of \<open>_inner\<close> runs inside the transaction whose statement has just failed, and
  PostgreSQL refuses every statement of an aborted transaction, the first read of \<open>_inner\<close> already.
\<close>

definition find_or_create_oauth_user ::
  "string \<Rightarrow> openid \<Rightarrow> uuid \<Rightarrow> uuid \<Rightarrow> instant \<Rightarrow> db \<Rightarrow> (db, user) prog" where
  "find_or_create_oauth_user provider oi new_user_id new_identity_id now snapshot = in_transaction (\<lambda>d.
     case oauth_inner provider oi new_user_id new_identity_id now snapshot d of
       (Inl IntegrityError, d') \<Rightarrow> (Inl OperationalError, d')
     | r \<Rightarrow> r)"

end
