(* ===== verification/Rate_Limit.thy ===== *)
theory Rate_Limit
  imports Auth
begin

text \<open>
  The rate limiter (\<open>middleware/rate_limit.py\<close>) and the endpoint that flushes its counters
  (\<open>routers/internal.py\<close>). A counter is a Redis sorted set with an expiry; scores are instants, and
  the server's clock is the one the requests are stamped with. The Lua script runs atomically, so
  one check is one function on the store.
\<close>

section \<open>The store\<close>

record counter =
  ct_entries :: "(instant \<times> string) list"
  ct_expires_at :: instant

type_synonym redis = "string \<rightharpoonup> counter"

definition entries_at :: "instant \<Rightarrow> string \<Rightarrow> redis \<Rightarrow> (instant \<times> string) list" where
  "entries_at now key st = (case st key of
      None \<Rightarrow> []
    | Some c \<Rightarrow> if ct_expires_at c \<le> now then [] else ct_entries c)"

definition zadd :: "instant \<Rightarrow> string \<Rightarrow> (instant \<times> string) list \<Rightarrow> (instant \<times> string) list" where
  "zadd score member zs = filter (\<lambda>(s, m). m \<noteq> member) zs @ [(score, member)]"

definition zremrangebyscore :: "instant \<Rightarrow> instant \<Rightarrow> (instant \<times> string) list \<Rightarrow> (instant \<times> string) list" where
  "zremrangebyscore lo hi zs = filter (\<lambda>(s, m). \<not> (lo \<le> s \<and> s \<le> hi)) zs"

text \<open>A sorted set that becomes empty is removed; removals keep the expiry.\<close>

definition put_entries :: "string \<Rightarrow> (instant \<times> string) list \<Rightarrow> redis \<Rightarrow> redis" where
  "put_entries key zs st = (case st key of
      None \<Rightarrow> st
    | Some c \<Rightarrow> if zs = [] then st(key := None) else st(key \<mapsto> c\<lparr>ct_entries := zs\<rparr>))"

text \<open>\<open>math.ceil\<close> of a duration, in seconds.\<close>

definition ceil_seconds :: "int \<Rightarrow> int" where
  "ceil_seconds t = - ((- t) div seconds 1)"

section \<open>The Lua script\<close>

definition sliding_window ::
  "string \<Rightarrow> instant \<Rightarrow> int \<Rightarrow> int \<Rightarrow> string \<Rightarrow> redis \<Rightarrow> (bool \<times> int) \<times> redis" where
  "sliding_window key now window limit member st =
     (let kept = zremrangebyscore 0 (now - seconds window) (entries_at now key st)
      in if int (length kept) < limit
         then ((False, 0), st(key \<mapsto> \<lparr>ct_entries = zadd now member kept, ct_expires_at = now + seconds window\<rparr>))
         else let retry_after = (if kept = [] then window
                    else max 1 (ceil_seconds (seconds window - (now - Min (fst ` set kept)))))
              in ((True, retry_after), put_entries key kept st))"

section \<open>Rules\<close>

datatype identifier_kind = ByIp | ByUser

record rule =
  rl_methods :: "string list"
  rl_identifier :: identifier_kind
  rl_tag :: string
  rl_limit :: int
  rl_window :: int
  rl_path_exact :: "string option"
  rl_path_re :: "(string \<Rightarrow> bool) option"
  rl_fallback :: bool

definition rule_matches :: "rule \<Rightarrow> string \<Rightarrow> string \<Rightarrow> bool" where
  "rule_matches r meth path =
     (if meth \<notin> set (rl_methods r) then False
      else if rl_fallback r then True
      else (case rl_path_exact r of
          Some p \<Rightarrow> path = p
        | None \<Rightarrow> (case rl_path_re r of Some re \<Rightarrow> re path | None \<Rightarrow> False)))"

text \<open>
  The pattern \<open>^/events/[^/]+/registrations$\<close>; the dollar sign also matches before a line break that
  ends the string.
\<close>

definition events_register_path :: "string \<Rightarrow> bool" where
  "events_register_path p =
     (let pre = ''/events/''; post = ''/registrations'';
          mid = take (length p - length pre - length post) (drop (length pre) p)
      in length pre + length post < length p \<and> p = pre @ mid @ post \<and> CHR ''/'' \<notin> set mid)"

definition events_register_re :: "string \<Rightarrow> bool" where
  "events_register_re p \<longleftrightarrow> events_register_path p
     \<or> (p \<noteq> [] \<and> last p = CHR 0x0A \<and> events_register_path (butlast p))"

record rate_settings =
  rs_login_count :: int
  rs_login_window :: int
  rs_register_count :: int
  rs_register_window :: int
  rs_event_register_count :: int
  rs_event_register_window :: int
  rs_global_count :: int
  rs_global_window :: int

definition rules :: "rate_settings \<Rightarrow> rule list" where
  "rules rs =
    [\<lparr>rl_methods = [''POST''], rl_identifier = ByIp, rl_tag = ''login'', rl_limit = rs_login_count rs,
      rl_window = rs_login_window rs, rl_path_exact = Some ''/login'', rl_path_re = None, rl_fallback = False\<rparr>,
     \<lparr>rl_methods = [''POST''], rl_identifier = ByIp, rl_tag = ''register'', rl_limit = rs_register_count rs,
      rl_window = rs_register_window rs, rl_path_exact = Some ''/register'', rl_path_re = None, rl_fallback = False\<rparr>,
     \<lparr>rl_methods = [''POST''], rl_identifier = ByUser, rl_tag = ''event_register'', rl_limit = rs_event_register_count rs,
      rl_window = rs_event_register_window rs, rl_path_exact = None, rl_path_re = Some events_register_re, rl_fallback = False\<rparr>,
     \<lparr>rl_methods = [''GET'', ''POST'', ''PUT'', ''DELETE'', ''PATCH'', ''HEAD'', ''OPTIONS''], rl_identifier = ByIp,
      rl_tag = ''global'', rl_limit = rs_global_count rs, rl_window = rs_global_window rs,
      rl_path_exact = None, rl_path_re = None, rl_fallback = True\<rparr>]"

section \<open>The middleware\<close>

record request =
  rq_method :: string
  rq_path :: string
  rq_client_host :: "string option"
  rq_authorization :: "string option"

definition client_ip :: "request \<Rightarrow> string" where
  "client_ip rq = (case rq_client_host rq of Some h \<Rightarrow> h | None \<Rightarrow> ''unknown'')"

definition request_bearer_token :: "request \<Rightarrow> string option" where
  "request_bearer_token rq =
     (let auth = (case rq_authorization rq of None \<Rightarrow> '''' | Some a \<Rightarrow> a)
      in if take 7 auth = ''Bearer '' then Some (drop 7 auth) else None)"

text \<open>The token is decoded without an expected audience.\<close>

definition verified_user_id :: "crypto \<Rightarrow> string option \<Rightarrow> instant \<Rightarrow> string option" where
  "verified_user_id cr token now = (case token of
      None \<Rightarrow> None
    | Some t \<Rightarrow> (case jwt_decode cr None now t of
        None \<Rightarrow> None
      | Some payload \<Rightarrow> (case claim_sub payload of
          None \<Rightarrow> None
        | Some sub \<Rightarrow> if sub = '''' then None else Some sub)))"

definition ratelimit_prefix :: string where
  "ratelimit_prefix = ''hefest:ratelimit''"

definition request_key :: "crypto \<Rightarrow> rule \<Rightarrow> request \<Rightarrow> instant \<Rightarrow> string" where
  "request_key cr r rq now =
     (let identifier = (case rl_identifier r of
            ByUser \<Rightarrow> (case verified_user_id cr (request_bearer_token rq) now of
                Some uid \<Rightarrow> ''user:'' @ uid
              | None \<Rightarrow> ''ip:'' @ client_ip rq)
          | ByIp \<Rightarrow> ''ip:'' @ client_ip rq)
      in ratelimit_prefix @ '':'' @ rl_tag r @ '':'' @ identifier)"

datatype response = CallNext | TooMany (retry_after: int)

text \<open>
  \<open>_check\<close> asks the script with the time and a member that is unique to the request.
\<close>

definition check :: "string \<Rightarrow> int \<Rightarrow> int \<Rightarrow> instant \<Rightarrow> string \<Rightarrow> redis \<Rightarrow> (bool \<times> int) \<times> redis" where
  "check key limit window now member st = sliding_window key now window limit member st"

definition dispatch ::
  "crypto \<Rightarrow> rate_settings \<Rightarrow> request \<Rightarrow> instant \<Rightarrow> string \<Rightarrow> redis \<Rightarrow> response \<times> redis" where
  "dispatch cr rs rq now member st =
     (case find (\<lambda>r. rule_matches r (rq_method rq) (rq_path rq)) (rules rs) of
        None \<Rightarrow> (CallNext, st)
      | Some r \<Rightarrow> (case check (request_key cr r rq now) (rl_limit r) (rl_window r) now member st of
          ((limited, retry), st') \<Rightarrow> (if limited then TooMany retry else CallNext, st')))"

section \<open>Flushing\<close>

text \<open>The keys that match the glob \<open>hefest:ratelimit:*:ip:<ip>\<close>.\<close>

definition flush_pattern :: "string \<Rightarrow> string \<Rightarrow> bool" where
  "flush_pattern ip key \<longleftrightarrow>
     (let pre = ratelimit_prefix @ '':''; post = '':ip:'' @ ip
      in length pre + length post \<le> length key \<and> take (length pre) key = pre
         \<and> drop (length key - length post) key = post)"

definition flush_ratelimit :: "request \<Rightarrow> redis \<Rightarrow> redis" where
  "flush_ratelimit rq st = (\<lambda>key. if flush_pattern (client_ip rq) key then None else st key)"

end
