(* ===== verification/Auth_Api.thy ===== *)
theory Auth_Api
  imports Auth
begin

text \<open>
  The endpoints of \<open>routers/auth.py\<close> and \<open>routers/sso.py\<close> and the dependencies of
  \<open>routers/deps.py\<close>. A handler returns its body and the cookies it sets, or raises.
\<close>

section \<open>Dependencies\<close>

definition web_client_id :: string where
  "web_client_id = ''web_app''"

definition mobile_client_id :: string where
  "mobile_client_id = ''mobile_app''"

definition client_ids :: "string \<rightharpoonup> refresh_client" where
  "client_ids = [web_client_id \<mapsto> Web, mobile_client_id \<mapsto> Mobile]"

definition get_refresh_client :: "string option \<Rightarrow> refresh_client" where
  "get_refresh_client x_client_id =
     (case client_ids (case x_client_id of None \<Rightarrow> '''' | Some h \<Rightarrow> h) of None \<Rightarrow> Web | Some client \<Rightarrow> client)"

definition credentials_exc :: exc where
  "credentials_exc = HTTPException 401 ''could not validate credentials'' [(''WWW-Authenticate'', ''Bearer'')]"

definition get_current_user :: "crypto \<Rightarrow> auth_settings \<Rightarrow> string \<Rightarrow> instant \<Rightarrow> db \<Rightarrow> exc + user" where
  "get_current_user cr st token now d =
     (case jwt_decode cr (Some (as_jwt_audience st)) now token of
        None \<Rightarrow> Inl credentials_exc
      | Some payload \<Rightarrow>
          if claim_type payload \<noteq> Some ''access'' then Inl credentials_exc
          else (case claim_sub payload of
              None \<Rightarrow> Inl credentials_exc
            | Some user_id \<Rightarrow> (case uuid_filter user_id of
                Inl ex \<Rightarrow> Inl ex
              | Inr uid \<Rightarrow> (case user_by_id uid d of
                  None \<Rightarrow> Inl credentials_exc
                | Some user \<Rightarrow> Inr user))))"

definition require_role :: "user_role list \<Rightarrow> exc + user \<Rightarrow> exc + user" where
  "require_role roles current = (case current of
      Inl ex \<Rightarrow> Inl ex
    | Inr user \<Rightarrow> if usr_role user \<in> set roles then Inr user
                  else Inl (HTTPException 403 ''insufficient permissions'' []))"

section \<open>Token responses\<close>

record token_response =
  tr_access_token :: string
  tr_expires_in :: int
  tr_refresh_token :: "string option"
  tr_cookies :: "cookie list"

definition build_token_response :: "auth_settings \<Rightarrow> string \<Rightarrow> string \<Rightarrow> refresh_client \<Rightarrow> token_response" where
  "build_token_response st access refresh client =
     \<lparr>tr_access_token = access, tr_expires_in = as_jwt_expire_minutes st * 60,
      tr_refresh_token = (if client = Mobile then Some refresh else None),
      tr_cookies = (if client = Mobile then [] else [set_refresh_cookie st refresh])\<rparr>"

section \<open>routers/auth.py\<close>

definition email_exists :: exc where
  "email_exists = HTTPException 409 ''email already registered'' [(''X-Error-Code'', ''email_exists'')]"

text \<open>
  The existence check runs outside the transaction and sees \<open>snapshot\<close>. The result is the message
  and, in the development environment, a verification token.
\<close>

definition register_account ::
  "crypto \<Rightarrow> auth_settings \<Rightarrow> string \<Rightarrow> string \<Rightarrow> string \<Rightarrow> string \<Rightarrow> uuid \<Rightarrow> uuid \<Rightarrow> instant \<Rightarrow> db \<Rightarrow> (db, string \<times> string option) prog" where
  "register_account cr st email password full_name salt new_user_id new_job_id now snapshot d =
     (if email \<in> usr_email ` set (users snapshot) then raise email_exists d
      else and_then (in_transaction (
          and_then (\<lambda>d. (hash_password cr salt password, d)) (\<lambda>h.
          and_then (create_user \<lparr>usr_id = new_user_id, usr_email = email,
              usr_password_hash = Some h, usr_full_name = full_name,
              usr_role = Student, usr_email_verified_at = None, usr_created_at = now\<rparr>) (\<lambda>user.
          and_then (create_job (new_job new_job_id None ''EmailVerify''
              [''student_id'' \<mapsto> JStr (str_uuid (usr_id user))]
              (idempotency_key (usr_id user) ''EmailVerify'') now)) (\<lambda>_.
          ret user))))) (\<lambda>user.
        ret (''registered; check your email to verify your account'',
             if as_env st = ''dev'' then Some (create_email_verify_token cr st user now) else None)) d)"

definition issue_pair ::
  "crypto \<Rightarrow> auth_settings \<Rightarrow> user \<Rightarrow> refresh_client \<Rightarrow> string \<Rightarrow> uuid \<Rightarrow> instant \<Rightarrow> (db, token_response) prog" where
  "issue_pair cr st user client raw new_id now =
     and_then (issue_refresh_token cr st user client raw new_id now)
       (\<lambda>refresh. ret (build_token_response st (create_access_token cr st user now) refresh client))"

definition invalid_verify_token :: "string \<Rightarrow> exc" where
  "invalid_verify_token m = HTTPException 400 m [(''X-Error-Code'', ''invalid_verify_token'')]"

definition verify_email ::
  "crypto \<Rightarrow> auth_settings \<Rightarrow> string \<Rightarrow> refresh_client \<Rightarrow> string \<Rightarrow> uuid \<Rightarrow> instant \<Rightarrow> (db, token_response) prog" where
  "verify_email cr st token client raw new_id now d =
     (case consume_email_verify_token cr token now d of
        (Inl (ValueError m), d') \<Rightarrow> raise (invalid_verify_token m) d'
      | (Inl ex, d') \<Rightarrow> raise ex d'
      | (Inr user, d') \<Rightarrow> issue_pair cr st user client raw new_id now d')"

definition invalid_credentials :: exc where
  "invalid_credentials = HTTPException 401 ''invalid credentials'' [(''X-Error-Code'', ''invalid_credentials'')]"

definition email_not_verified :: exc where
  "email_not_verified = HTTPException 403 ''email not verified'' [(''X-Error-Code'', ''email_not_verified'')]"

text \<open>An account without a password matches nothing.\<close>

definition password_matches :: "crypto \<Rightarrow> string \<Rightarrow> user \<Rightarrow> exc + bool" where
  "password_matches cr password user = (case usr_password_hash user of
      None \<Rightarrow> Inr False
    | Some h \<Rightarrow> verify_password cr password h)"

definition login ::
  "crypto \<Rightarrow> auth_settings \<Rightarrow> string \<Rightarrow> string \<Rightarrow> refresh_client \<Rightarrow> string \<Rightarrow> uuid \<Rightarrow> instant \<Rightarrow> (db, token_response) prog" where
  "login cr st email password client raw new_id now d =
     (case get_or_none (\<lambda>u. usr_email u = email) (users d) of
        None \<Rightarrow> raise invalid_credentials d
      | Some user \<Rightarrow> (case password_matches cr password user of
          Inl ex \<Rightarrow> raise ex d
        | Inr matches \<Rightarrow>
            if \<not> matches then raise invalid_credentials d
            else if usr_email_verified_at user = None then raise email_not_verified d
            else issue_pair cr st user client raw new_id now d))"

text \<open>The raw token of a request: the cookie, or else the body of a mobile client.\<close>

definition presented_token :: "string option \<Rightarrow> (string \<rightharpoonup> string) option \<Rightarrow> string option" where
  "presented_token cookie_token payload = (case cookie_token of
      Some t \<Rightarrow> Some t
    | None \<Rightarrow> (case payload of None \<Rightarrow> None | Some p \<Rightarrow> p ''refresh_token''))"

definition refresh_tokens_endpoint ::
  "crypto \<Rightarrow> auth_settings \<Rightarrow> refresh_client \<Rightarrow> string option \<Rightarrow> (string \<rightharpoonup> string) option \<Rightarrow> string \<Rightarrow> uuid \<Rightarrow> instant
     \<Rightarrow> (db, token_response) prog" where
  "refresh_tokens_endpoint cr st client cookie_token payload new_raw new_id now d =
     (let raw = presented_token cookie_token payload
      in if raw = None \<or> raw = Some '''' then raise (HTTPException 401 ''refresh token required'' []) d
         else (case rotate_refresh_token cr st (the raw) client new_raw new_id now d of
             (Inl (PermissionError m), d') \<Rightarrow>
               raise (HTTPException 401 ''refresh token revoked'' [(''X-Error-Code'', ''token_reuse_detected'')]) d'
           | (Inl (ValueError m), d') \<Rightarrow> raise (HTTPException 401 m []) d'
           | (Inl ex, d') \<Rightarrow> raise ex d'
           | (Inr (new_access, new_refresh, bound_client), d') \<Rightarrow>
               ret (build_token_response st new_access new_refresh bound_client) d'))"

definition logout :: "crypto \<Rightarrow> auth_settings \<Rightarrow> string option \<Rightarrow> (string \<rightharpoonup> string) option \<Rightarrow> instant \<Rightarrow> db \<Rightarrow> cookie list \<times> db" where
  "logout cr st cookie_token payload now d =
     (let raw = presented_token cookie_token payload;
          d' = (if raw = None \<or> raw = Some '''' then d else revoke_refresh_token cr (the raw) now d)
      in ([DeleteCookie (as_refresh_cookie_name st) ''/auth''], d'))"

type_synonym user_me_response = "uuid \<times> string \<times> string \<times> user_role"

definition get_me :: "user \<Rightarrow> user_me_response" where
  "get_me user = (usr_id user, usr_email user, usr_full_name user, usr_role user)"

definition update_me :: "string \<Rightarrow> user \<Rightarrow> db \<Rightarrow> user_me_response \<times> db" where
  "update_me full_name user d =
     (get_me (user\<lparr>usr_full_name := full_name\<rparr>), save_user (usr_id user) (\<lambda>u. u\<lparr>usr_full_name := full_name\<rparr>) d)"

definition wrong_password :: exc where
  "wrong_password = HTTPException 401 ''current password is incorrect'' [(''X-Error-Code'', ''invalid_credentials'')]"

definition change_password ::
  "crypto \<Rightarrow> auth_settings \<Rightarrow> string \<Rightarrow> string \<Rightarrow> string \<Rightarrow> user \<Rightarrow> instant \<Rightarrow> (db, cookie list) prog" where
  "change_password cr st current_password new_password salt user now d =
     (case password_matches cr current_password user of
        Inl ex \<Rightarrow> raise ex d
      | Inr matches \<Rightarrow>
          if \<not> matches then raise wrong_password d
          else (case hash_password cr salt new_password of
              Inl ex \<Rightarrow> raise ex d
            | Inr h \<Rightarrow> and_then (revoke_all_for_user (str_uuid (usr_id user)) now)
                (\<lambda>_. ret [DeleteCookie (as_refresh_cookie_name st) ''/auth''])
                (save_user (usr_id user) (\<lambda>u. u\<lparr>usr_password_hash := Some h\<rparr>) d)))"

definition bearer_token :: "string option \<Rightarrow> string option" where
  "bearer_token authorization = (case authorization of
      None \<Rightarrow> None
    | Some a \<Rightarrow> if take 7 a = ''Bearer '' then Some (drop 7 a) else None)"

definition logout_all ::
  "crypto \<Rightarrow> auth_settings \<Rightarrow> string option \<Rightarrow> string option \<Rightarrow> instant \<Rightarrow> (db, cookie list) prog" where
  "logout_all cr st cookie_token authorization now d =
     (let by_cookie = (case cookie_token of
            None \<Rightarrow> None
          | Some t \<Rightarrow> if t = '''' then None else user_id_for_active_refresh_token cr t now d);
          user_id = (case by_cookie of
            Some u \<Rightarrow> Some u
          | None \<Rightarrow> (case bearer_token authorization of
              None \<Rightarrow> None | Some t \<Rightarrow> user_id_from_access_token cr st t now))
      in case user_id of
           None \<Rightarrow> raise credentials_exc d
         | Some uid \<Rightarrow> and_then (revoke_all_for_user uid now)
             (\<lambda>_. ret [DeleteCookie (as_refresh_cookie_name st) ''/auth'']) d)"

section \<open>routers/sso.py\<close>

definition build_state :: "string \<Rightarrow> refresh_client \<Rightarrow> string" where
  "build_state nonce client = nonce @ '':'' @ (case client of Web \<Rightarrow> ''web'' | Mobile \<Rightarrow> ''mobile'')"

definition after_last :: "char \<Rightarrow> string \<Rightarrow> string" where
  "after_last c s = rev (takeWhile (\<lambda>x. x \<noteq> c) (rev s))"

definition client_from_state :: "string option \<Rightarrow> refresh_client" where
  "client_from_state state = (case state of
      None \<Rightarrow> Web
    | Some s \<Rightarrow> if s \<noteq> '''' \<and> after_last (CHR '':'') s = ''mobile'' then Mobile else Web)"

record redirect =
  rd_url :: string
  rd_cookies :: "cookie list"

definition success_redirect :: "auth_settings \<Rightarrow> refresh_client \<Rightarrow> string \<Rightarrow> string \<Rightarrow> redirect" where
  "success_redirect st client access refresh =
     (if client = Mobile
      then \<lparr>rd_url = as_mobile_oauth_success_url st @ ''#access_token='' @ access @ ''&refresh_token='' @ refresh, rd_cookies = []\<rparr>
      else \<lparr>rd_url = as_frontend_oauth_success_url st @ ''#access_token='' @ access,
            rd_cookies = [set_refresh_cookie st refresh]\<rparr>)"

text \<open>\<open>verified\<close> is the result of \<open>sso.verify_and_process\<close>.\<close>

definition oauth_callback ::
  "crypto \<Rightarrow> auth_settings \<Rightarrow> string \<Rightarrow> exc + openid \<Rightarrow> string option \<Rightarrow> uuid \<Rightarrow> uuid \<Rightarrow> string \<Rightarrow> uuid \<Rightarrow> instant \<Rightarrow> db \<Rightarrow> (db, redirect) prog" where
  "oauth_callback cr st provider verified state new_user_id new_identity_id raw new_id now snapshot d =
     (case verified of
        Inl ex \<Rightarrow> raise ex d
      | Inr oi \<Rightarrow>
          let client = client_from_state state
          in and_then (find_or_create_oauth_user provider oi new_user_id new_identity_id now snapshot) (\<lambda>user.
             and_then (issue_refresh_token cr st user client raw new_id now) (\<lambda>refresh.
             ret (success_redirect st client (create_access_token cr st user now) refresh))) d)"

end
