(* ===== verification/Auth_Properties.thy ===== *)
theory Auth_Properties
  imports Auth_Api Lifecycle Sample_Data "HOL-Library.Countable"
begin

text \<open>
  The properties of accounts and tokens: what an access token proves, rotation and revocation of
  refresh tokens, the way from registration to login, and linking of OAuth accounts.
\<close>

section \<open>Concrete libraries for the witnesses\<close>

instance claims :: countable
  by countable_datatype

definition sample_crypto :: crypto where
  "sample_crypto = \<lparr>jwt_encode = (\<lambda>c. replicate (to_nat c) (CHR ''x'')),
     jwt_decode = (\<lambda>aud now s. let c = from_nat (length s) in
       if claim_aud c = aud \<and> (\<forall>e. claim_exp c = Some e \<longrightarrow> now < whole_seconds e) then Some c else None),
     sha256_hex = (\<lambda>s. s), 
     bcrypt_hashpw = (\<lambda>salt p. if 72 < length p then None else Some p),
     bcrypt_checkpw = (\<lambda>p h. if 72 < length p then None else Some (p = h))\<rparr>"

lemma sample_crypto_laws: "jwt_laws sample_crypto" "bcrypt_laws sample_crypto"
  by (simp_all add: jwt_laws_def bcrypt_laws_def sample_crypto_def Let_def)

definition sample_auth :: auth_settings where
  "sample_auth = \<lparr>as_jwt_audience = ''hefest-api'', as_jwt_expire_minutes = 15, as_refresh_token_expire_days = 14,
     as_email_verify_expire_hours = 24, as_email_verify_url = ''u'', as_refresh_cookie_name = ''hefest_refresh'',
     as_refresh_cookie_secure = True, as_env = ''prod'', as_frontend_oauth_success_url = ''f'',
     as_mobile_oauth_success_url = ''m''\<rparr>"

section \<open>Tables\<close>

definition tokens_ok :: "db \<Rightarrow> bool" where
  "tokens_ok d \<longleftrightarrow> distinct (map tok_id (refresh_tokens d)) \<and> distinct (map tok_token_hash (refresh_tokens d))"

definition token_active :: "refresh_token \<Rightarrow> bool" where
  "token_active t \<longleftrightarrow> tok_revoked_at t = None"

lemma save_tokens_simps [simp]:
  "users (save_tokens P f d) = users d" "refresh_tokens (save_tokens P f d) = update_where P f (refresh_tokens d)"
  "user_by_id i (save_tokens P f d) = user_by_id i d" "has_user i (save_tokens P f d) = has_user i d"
  by (simp_all add: save_tokens_def user_by_id_def has_user_def)

lemma issue_refresh_token_Inr:
  "issue_refresh_token cr st user client raw i now d = (Inr x, d') \<longleftrightarrow> x = raw
     \<and> i \<notin> tok_id ` set (refresh_tokens d) \<and> hash_token cr raw \<notin> tok_token_hash ` set (refresh_tokens d)
     \<and> has_user (usr_id user) d
     \<and> d' = d\<lparr>refresh_tokens := refresh_tokens d @ [\<lparr>tok_id = i, tok_user_id = usr_id user, tok_token_hash = hash_token cr raw,
         tok_client = client, tok_expires_at = now + days (as_refresh_token_expire_days st),
         tok_revoked_at = None, tok_created_at = now\<rparr>]\<rparr>"
  by (auto simp: issue_refresh_token_def and_then_def create_refresh_token_def ret_def)

text \<open>What a successful rotation did.\<close>

lemma rotate_Inr:
  assumes "rotate_refresh_token cr st raw client new_raw i now d = (Inr (acc, new, cl), d')"
  obtains rec u where
    "get_or_none (\<lambda>t. tok_token_hash t = hash_token cr raw) (refresh_tokens d) = Some rec"
    "now \<le> tok_expires_at rec" "token_active rec" "tok_client rec = client" "cl = client" "new = new_raw"
    "user_by_id (tok_user_id rec) d = Some u" "acc = create_access_token cr st u now"
    "refresh_tokens d' = update_where (\<lambda>t. tok_id t = tok_id rec) (\<lambda>t. t\<lparr>tok_revoked_at := Some now\<rparr>) (refresh_tokens d)
       @ [\<lparr>tok_id = i, tok_user_id = tok_user_id rec, tok_token_hash = hash_token cr new_raw, tok_client = client,
           tok_expires_at = now + days (as_refresh_token_expire_days st), tok_revoked_at = None, tok_created_at = now\<rparr>]"
    "i \<notin> tok_id ` set (refresh_tokens d)" "hash_token cr new_raw \<notin> tok_token_hash ` set (refresh_tokens d)"
    "users d' = users d"
proof -
  from assms obtain rec u where r: "get_or_none (\<lambda>t. tok_token_hash t = hash_token cr raw) (refresh_tokens d) = Some rec"
    "\<not> (tok_expires_at rec < now \<and> tok_revoked_at rec = None)" "tok_revoked_at rec = None" "tok_client rec = client"
    "user_by_id (tok_user_id rec) d = Some u"
    by (auto simp: rotate_refresh_token_def res_simps Let_def split: option.splits if_splits)
  let ?d1 = "save_tokens (\<lambda>t. tok_id t = tok_id rec) (\<lambda>t. t\<lparr>tok_revoked_at := Some now\<rparr>) d"
  note uid = user_by_id_Some[OF r(5)]
  from assms r have i: "issue_refresh_token cr st u client new_raw i now ?d1 = (Inr new, d')"
    and acc: "acc = create_access_token cr st u now" "cl = client"
    by (auto simp: rotate_refresh_token_def res_simps Let_def and_then_Inr_iff)
  have ids: "tok_id ` set (refresh_tokens ?d1) = tok_id ` set (refresh_tokens d)"
    "tok_token_hash ` set (refresh_tokens ?d1) = tok_token_hash ` set (refresh_tokens d)"
    unfolding save_tokens_simps by (rule image_update_where; simp)+
  from i r uid acc ids that[OF r(1)] show thesis
    by (simp add: issue_refresh_token_Inr token_active_def)
qed

section \<open>Revoked tokens stay revoked\<close>

inductive token_step :: "db \<Rightarrow> db \<Rightarrow> bool" where
  t_issue: "issue_refresh_token cr st user client raw i now d = (res, d') \<Longrightarrow> token_step d d'"
| t_rotate: "rotate_refresh_token cr st raw client new_raw i now d = (res, d') \<Longrightarrow> token_step d d'"
| t_revoke: "token_step d (revoke_refresh_token cr raw now d)"
| t_revoke_all: "revoke_all_for_user uid now d = (res, d') \<Longrightarrow> token_step d d'"

definition token_kept :: "refresh_token \<Rightarrow> refresh_token \<Rightarrow> bool" where
  "token_kept t t' \<longleftrightarrow> tok_id t' = tok_id t \<and> tok_token_hash t' = tok_token_hash t \<and> tok_user_id t' = tok_user_id t
     \<and> tok_client t' = tok_client t \<and> (\<not> token_active t \<longrightarrow> t' = t)"

definition tokens_kept :: "db \<Rightarrow> db \<Rightarrow> bool" where
  "tokens_kept d d' \<longleftrightarrow> (\<exists>f new. refresh_tokens d' = map f (refresh_tokens d) @ new \<and> (\<forall>t\<in>set (refresh_tokens d). token_kept t (f t))
     \<and> (tokens_ok d \<longrightarrow> tokens_ok d'))"

lemma tokens_kept_refl: "tokens_kept d d"
  unfolding tokens_kept_def by (intro exI[where x = id] exI[where x = "[]"]) (simp add: token_kept_def)

lemma tokens_kept_update:
  assumes "refresh_tokens d' = update_where P (\<lambda>t. t\<lparr>tok_revoked_at := Some now\<rparr>) (refresh_tokens d) @ new"
    and "\<And>t. t \<in> set (refresh_tokens d) \<Longrightarrow> P t \<Longrightarrow> token_active t"
    and "new = [] \<or> (\<exists>t. new = [t] \<and> tok_id t \<notin> tok_id ` set (refresh_tokens d) \<and> tok_token_hash t \<notin> tok_token_hash ` set (refresh_tokens d))"
  shows "tokens_kept d d'"
proof -
  let ?f = "\<lambda>t. if P t then t\<lparr>tok_revoked_at := Some now\<rparr> else t"
  let ?u = "update_where P (\<lambda>t. t\<lparr>tok_revoked_at := Some now\<rparr>) (refresh_tokens d)"
  have rows: "refresh_tokens d' = map ?f (refresh_tokens d) @ new" using assms(1) by (simp add: update_where_def)
  have kept: "\<forall>t\<in>set (refresh_tokens d). token_kept t (?f t)" using assms(2) by (auto simp: token_kept_def)
  have m: "map tok_id ?u = map tok_id (refresh_tokens d)" "map tok_token_hash ?u = map tok_token_hash (refresh_tokens d)"
    by (rule map_update_where; simp)+
  have "tokens_ok d'" if "tokens_ok d"
    using that assms(3) unfolding tokens_ok_def assms(1) map_append m by (auto simp: image_iff)
  with rows kept show ?thesis unfolding tokens_kept_def by blast
qed

lemma rotate_kept:
  assumes "rotate_refresh_token cr st raw client new_raw i now d = (res, d')" "tokens_ok d"
  shows "tokens_kept d d'"
proof (cases res)
  case (Inl ex)
  with assms(1) have "d' = d" unfolding rotate_refresh_token_def by (blast dest: in_transaction_err)
  then show ?thesis by (simp add: tokens_kept_refl)
next
  case (Inr x)
  obtain acc new cl where x: "x = (acc, new, cl)" by (cases x)
  from assms(1)[unfolded Inr x] show ?thesis
  proof (rule rotate_Inr)
    fix rec u
    assume rec: "get_or_none (\<lambda>t. tok_token_hash t = hash_token cr raw) (refresh_tokens d) = Some rec" "token_active rec"
      and rows: "refresh_tokens d' = update_where (\<lambda>t. tok_id t = tok_id rec) (\<lambda>t. t\<lparr>tok_revoked_at := Some now\<rparr>) (refresh_tokens d)
       @ [\<lparr>tok_id = i, tok_user_id = tok_user_id rec, tok_token_hash = hash_token cr new_raw, tok_client = client,
           tok_expires_at = now + days (as_refresh_token_expire_days st), tok_revoked_at = None, tok_created_at = now\<rparr>]"
      and fresh: "i \<notin> tok_id ` set (refresh_tokens d)" "hash_token cr new_raw \<notin> tok_token_hash ` set (refresh_tokens d)"
    from get_or_none_Some[OF rec(1)] have mem: "rec \<in> set (refresh_tokens d)" by simp
    have "t = rec" if "t \<in> set (refresh_tokens d)" "tok_id t = tok_id rec" for t
      using pk_unique[OF _ mem that(1), of tok_id] that(2) assms(2) by (simp add: tokens_ok_def)
    with rec(2) fresh show ?thesis by (intro tokens_kept_update[OF rows]) auto
  qed
qed

lemma token_step_kept:
  assumes "tokens_ok d" "token_step d d'"
  shows "tokens_kept d d'"
  using assms(2)
proof cases
  case (t_issue cr st user client raw i now res)
  show ?thesis
  proof (cases res)
    case (Inl ex)
    with t_issue have "d' = d"
      by (auto simp: issue_refresh_token_def and_then_def create_refresh_token_def ret_def split: if_splits)
    then show ?thesis by (simp add: tokens_kept_refl)
  next
    case (Inr x)
    with t_issue show ?thesis
      by (intro tokens_kept_update[where P = "\<lambda>_. False"]) (auto simp: issue_refresh_token_Inr update_where_none)
  qed
next
  case (t_rotate cr st raw client new_raw i now res)
  from rotate_kept[OF t_rotate assms(1)] show ?thesis .
next
  case (t_revoke cr raw now)
  then show ?thesis
    by (intro tokens_kept_update[where new = "[]" and now = now
          and P = "\<lambda>t. tok_token_hash t = hash_token cr raw \<and> tok_revoked_at t = None"])
      (auto simp: revoke_refresh_token_def token_active_def)
next
  case (t_revoke_all uid now res)
  show ?thesis
  proof (cases "uuid_filter uid")
    case (Inl ex)
    with t_revoke_all show ?thesis by (simp add: revoke_all_for_user_def raise_def tokens_kept_refl)
  next
    case (Inr u)
    with t_revoke_all show ?thesis
      by (intro tokens_kept_update[where new = "[]" and now = now and P = "\<lambda>t. tok_user_id t = u \<and> tok_revoked_at t = None"])
        (auto simp: revoke_all_for_user_def ret_def token_active_def)
  qed
qed

interpretation token_lifecycle: frozen_lifecycle refresh_tokens tok_id "\<lambda>t. if token_active t then 0 else 1"
  tokens_ok token_step "\<lambda>t. \<not> token_active t"
proof
  fix d d' t
  assume a: "tokens_ok d" "token_step d d'"
  from token_step_kept[OF this] show "tokens_ok d'" using a(1) by (auto simp: tokens_kept_def)
  assume t: "t \<in> set (refresh_tokens d)"
  from token_step_kept[OF a] obtain f new where f: "refresh_tokens d' = map f (refresh_tokens d) @ new" "token_kept t (f t)"
    using t by (auto simp: tokens_kept_def)
  with t show "\<exists>t'\<in>set (refresh_tokens d'). tok_id t' = tok_id t \<and> (if token_active t then 0 else 1) \<le> (if token_active t' then 0 else (1::nat))"
    by (auto simp: token_kept_def intro!: bexI[where x = "f t"])
  show "\<not> token_active t \<Longrightarrow> t \<in> set (refresh_tokens d')" using f t by (force simp: token_kept_def image_iff)
qed (simp add: tokens_ok_def)

section \<open>Properties of access and verification tokens\<close>



section \<open>Properties of refresh tokens\<close>

text \<open>
  C11: A refresh token works once. A successful rotation revokes the presented token, adds exactly
  one token for the same user and the same client, and presenting the old one again, at any later
  time and by any client, is refused as reuse and changes nothing.
\<close>

theorem rotation_is_single_use:
  assumes "rotate_refresh_token cr st raw client new_raw i now d = (Inr (acc, new, cl), d')" "tokens_ok d"
  shows "cl = client \<and> new = new_raw \<and> length (refresh_tokens d') = length (refresh_tokens d) + 1
     \<and> (\<exists>old t. old \<in> set (refresh_tokens d) \<and> token_active old \<and> tok_token_hash old = hash_token cr raw \<and> tok_client old = client
          \<and> old\<lparr>tok_revoked_at := Some now\<rparr> \<in> set (refresh_tokens d')
          \<and> t \<in> set (refresh_tokens d') \<and> token_active t \<and> tok_token_hash t = hash_token cr new_raw
          \<and> tok_user_id t = tok_user_id old \<and> tok_client t = client)
     \<and> rotate_refresh_token cr st raw client2 new_raw2 i2 now2 d' = (Inl (PermissionError ''token_reuse_detected''), d')"
  using assms(1)
proof (rule rotate_Inr)
  fix rec u
  assume rec: "get_or_none (\<lambda>t. tok_token_hash t = hash_token cr raw) (refresh_tokens d) = Some rec"
      "token_active rec" "tok_client rec = client" and eqs: "cl = client" "new = new_raw"
    and rows: "refresh_tokens d' = update_where (\<lambda>t. tok_id t = tok_id rec) (\<lambda>t. t\<lparr>tok_revoked_at := Some now\<rparr>) (refresh_tokens d)
       @ [\<lparr>tok_id = i, tok_user_id = tok_user_id rec, tok_token_hash = hash_token cr new_raw, tok_client = client,
           tok_expires_at = now + days (as_refresh_token_expire_days st), tok_revoked_at = None, tok_created_at = now\<rparr>]"
  let ?old = "rec\<lparr>tok_revoked_at := Some now\<rparr>"
  note mem = get_or_none_Some[OF rec(1)]
  have ok': "tokens_ok d'" using rotate_kept[OF assms] assms(2) by (auto simp: tokens_kept_def)
  have old: "?old \<in> set (refresh_tokens d')"
    using mem by (auto simp: rows set_update_where image_iff intro!: bexI[where x = rec])
  have found: "get_or_none (\<lambda>t. tok_token_hash t = hash_token cr raw) (refresh_tokens d') = Some ?old"
    using get_or_none_pk[of tok_token_hash, OF _ old] ok' mem by (simp add: tokens_ok_def)
  have "rotate_refresh_token cr st raw client2 new_raw2 i2 now2 d' = (Inl (PermissionError ''token_reuse_detected''), d')"
    by (simp add: rotate_refresh_token_def in_transaction_def found raise_def)
  moreover have "\<exists>t. t \<in> set (refresh_tokens d') \<and> token_active t \<and> tok_token_hash t = hash_token cr new_raw
      \<and> tok_user_id t = tok_user_id rec \<and> tok_client t = client"
    unfolding rows by (intro exI[where x = "\<lparr>tok_id = i, tok_user_id = tok_user_id rec, tok_token_hash = hash_token cr new_raw,
        tok_client = client, tok_expires_at = now + days (as_refresh_token_expire_days st), tok_revoked_at = None,
        tok_created_at = now\<rparr>"]) (simp add: token_active_def)
  ultimately show ?thesis using eqs old mem rec(2,3) by (auto simp: rows)
qed

definition sample_token :: refresh_token where
  "sample_token = \<lparr>tok_id = 60, tok_user_id = 2, tok_token_hash = ''r1'', tok_client = Web, tok_expires_at = 1000,
     tok_revoked_at = None, tok_created_at = 0\<rparr>"

definition token_db :: db where
  "token_db = sample_db\<lparr>refresh_tokens := [sample_token]\<rparr>"

lemma token_db_ok: "tokens_ok token_db"
  by (simp add: tokens_ok_def token_db_def)

definition rotated_db :: db where
  "rotated_db = snd (rotate_refresh_token sample_crypto sample_auth ''r1'' Web ''r2'' 61 100 token_db)"

lemma token_db_rotates:
  "rotate_refresh_token sample_crypto sample_auth ''r1'' Web ''r2'' 61 100 token_db =
     (Inr (create_access_token sample_crypto sample_auth student2 100, ''r2'', Web), rotated_db)"
proof -
  have "fst (rotate_refresh_token sample_crypto sample_auth ''r1'' Web ''r2'' 61 100 token_db)
      = Inr (create_access_token sample_crypto sample_auth student2 100, ''r2'', Web)"
    by (simp add: rotate_refresh_token_def in_transaction_def token_db_def sample_token_def hash_token_def
        save_tokens_def user_by_id_def sample_defs issue_refresh_token_def and_then_def create_refresh_token_def
        has_user_def ret_def sample_crypto_def)
  then show ?thesis by (simp add: rotated_db_def prod_eq_iff)
qed

theorem rotation_is_single_use_witness:
  "rotate_refresh_token sample_crypto sample_auth ''r1'' Mobile ''r3'' 62 200 rotated_db
     = (Inl (PermissionError ''token_reuse_detected''), rotated_db)"
  using rotation_is_single_use[OF token_db_rotates token_db_ok] by blast

text \<open>
  C38: Reuse detection revokes nothing. Presenting a revoked token raises, and the raise rolls back
  the very transaction in which the family was revoked, so every other session of the user stays
  active, contrary to what the service documents.
\<close>

theorem reuse_detection_is_rolled_back:
  assumes "get_or_none (\<lambda>t. tok_token_hash t = hash_token cr raw) (refresh_tokens d) = Some rec" "\<not> token_active rec"
  shows "rotate_refresh_token cr st raw client new_raw i now d = (Inl (PermissionError ''token_reuse_detected''), d)"
  using assms by (simp add: rotate_refresh_token_def in_transaction_def raise_def token_active_def)

theorem reuse_detection_is_rolled_back_witness:
  "\<exists>t. rotate_refresh_token sample_crypto sample_auth ''r1'' Web ''r3'' 62 200 (token_db\<lparr>refresh_tokens := [t, sample_token\<lparr>tok_id := 61, tok_token_hash := ''r2''\<rparr>]\<rparr>)
     = (Inl (PermissionError ''token_reuse_detected''), token_db\<lparr>refresh_tokens := [t, sample_token\<lparr>tok_id := 61, tok_token_hash := ''r2''\<rparr>]\<rparr>)"
proof -
  let ?t = "sample_token\<lparr>tok_revoked_at := Some 50\<rparr>"
  let ?d = "token_db\<lparr>refresh_tokens := [?t, sample_token\<lparr>tok_id := 61, tok_token_hash := ''r2''\<rparr>]\<rparr>"
  have "get_or_none (\<lambda>t. tok_token_hash t = hash_token sample_crypto ''r1'') (refresh_tokens ?d) = Some ?t"
    by (simp add: hash_token_def sample_crypto_def sample_token_def)
  from reuse_detection_is_rolled_back[OF this] show ?thesis by (intro exI[where x = ?t]) (simp add: token_active_def)
qed

text \<open>Whom the endpoint authenticates: the owner of the cookie's active token, or the subject of the bearer token.\<close>

definition logout_subject :: "crypto \<Rightarrow> auth_settings \<Rightarrow> string option \<Rightarrow> string option \<Rightarrow> instant \<Rightarrow> db \<Rightarrow> uuid \<Rightarrow> bool" where
  "logout_subject cr st cookie_token authorization now d uid \<longleftrightarrow>
     (\<exists>raw t. cookie_token = Some raw \<and> t \<in> set (refresh_tokens d) \<and> token_active t \<and> now \<le> tok_expires_at t
        \<and> tok_token_hash t = hash_token cr raw \<and> tok_user_id t = uid)
   \<or> (\<exists>bearer sub. bearer_token authorization = Some bearer \<and> user_id_from_access_token cr st bearer now = Some sub
        \<and> uuid_of_str sub = Some uid)"

lemma active_token_subject:
  assumes "user_id_for_active_refresh_token cr raw now d = Some sub"
  obtains t where "t \<in> set (refresh_tokens d)" "token_active t" "now \<le> tok_expires_at t"
    "tok_token_hash t = hash_token cr raw" "sub = str_uuid (tok_user_id t)"
proof -
  from assms obtain t where g: "get_or_none (\<lambda>t. tok_token_hash t = hash_token cr raw \<and> tok_revoked_at t = None) (refresh_tokens d) = Some t"
    and t: "now \<le> tok_expires_at t" "sub = str_uuid (tok_user_id t)"
    by (auto simp: user_id_for_active_refresh_token_def split: option.splits if_splits)
  from get_or_none_Some[OF g] t that[of t] show thesis by (simp add: token_active_def)
qed

lemma logout_all_Inr:
  assumes "logout_all cr st cookie_token authorization now d = (Inr cookies, d')"
  obtains sub uid where "revoke_all_for_user sub now d = (Inr (), d')" "uuid_of_str sub = Some uid"
    "logout_subject cr st cookie_token authorization now d uid"
proof -
  from assms obtain sub where call: "revoke_all_for_user sub now d = (Inr (), d')"
    and sub: "(\<exists>raw. cookie_token = Some raw \<and> user_id_for_active_refresh_token cr raw now d = Some sub)
      \<or> (\<exists>bearer. bearer_token authorization = Some bearer \<and> user_id_from_access_token cr st bearer now = Some sub)"
    by (auto simp: logout_all_def Let_def res_simps and_then_Inr_iff split: option.splits if_splits)
  from call obtain uid where uid: "uuid_of_str sub = Some uid"
    by (auto simp: revoke_all_for_user_def uuid_filter_def raise_def split: option.splits)
  from sub have "logout_subject cr st cookie_token authorization now d uid"
  proof (elim disjE exE conjE)
    fix raw assume "cookie_token = Some raw" "user_id_for_active_refresh_token cr raw now d = Some sub"
    with uid show ?thesis by (elim active_token_subject) (auto simp: logout_subject_def uuid_of_str_uuid)
  qed (use uid in \<open>auto simp: logout_subject_def\<close>)
  with call uid that show thesis by blast
qed

lemma ball_update_where: "(\<forall>t\<in>set (update_where P f ts). Q t) \<longleftrightarrow> (\<forall>t\<in>set ts. Q (if P t then f t else t))"
  unfolding update_where_def set_map by blast

lemma filter_update_where_disjoint:
  assumes "\<And>t. Q t \<Longrightarrow> \<not> P t" "\<And>t. P t \<Longrightarrow> \<not> Q (f t)"
  shows "filter Q (update_where P f ts) = filter Q ts"
  using assms by (induction ts) auto

text \<open>
  C34: Logging out everywhere does. When the endpoint succeeds there is one authenticated user, the
  owner of the cookie's active token or the subject of the bearer token, whose every token is
  revoked; the tokens of other users are as before, and from then on no sequence of token operations
  makes one of the revoked tokens active again.
\<close>

theorem logout_all_revokes_everything:
  assumes "logout_all cr st cookie_token authorization now d = (Inr cookies, d')" "tokens_ok d"
  shows "\<exists>uid. logout_subject cr st cookie_token authorization now d uid
     \<and> (\<forall>t\<in>set (refresh_tokens d'). tok_user_id t = uid \<longrightarrow> \<not> token_active t)
     \<and> filter (\<lambda>t. tok_user_id t \<noteq> uid) (refresh_tokens d') = filter (\<lambda>t. tok_user_id t \<noteq> uid) (refresh_tokens d)
     \<and> (\<forall>d2. token_step\<^sup>*\<^sup>* d' d2 \<longrightarrow> (\<forall>t\<in>set (refresh_tokens d'). tok_user_id t = uid \<longrightarrow> t \<in> set (refresh_tokens d2)))"
proof -
  from assms(1) obtain sub uid where call: "revoke_all_for_user sub now d = (Inr (), d')"
    and uid: "uuid_of_str sub = Some uid" and who: "logout_subject cr st cookie_token authorization now d uid"
    by (rule logout_all_Inr)
  from call uid have rows: "refresh_tokens d' = update_where (\<lambda>t. tok_user_id t = uid \<and> tok_revoked_at t = None)
      (\<lambda>t. t\<lparr>tok_revoked_at := Some now\<rparr>) (refresh_tokens d)"
    by (auto simp: revoke_all_for_user_def uuid_filter_def ret_def)
  have ok': "tokens_ok d'" by (rule token_lifecycle.step_inv[OF assms(2) token_step.t_revoke_all[OF call]])
  have none: "\<forall>t\<in>set (refresh_tokens d'). tok_user_id t = uid \<longrightarrow> \<not> token_active t"
    unfolding rows ball_update_where by (simp add: token_active_def)
  have "filter (\<lambda>t. tok_user_id t \<noteq> uid) (refresh_tokens d') = filter (\<lambda>t. tok_user_id t \<noteq> uid) (refresh_tokens d)"
    unfolding rows by (rule filter_update_where_disjoint) simp_all
  moreover have "t \<in> set (refresh_tokens d2)" if "token_step\<^sup>*\<^sup>* d' d2" "t \<in> set (refresh_tokens d')" "tok_user_id t = uid" for d2 t
    by (rule token_lifecycle.run_final[OF that(1) ok' that(2)]) (use none that(2,3) in simp)
  ultimately show ?thesis using who none by (intro exI[where x = uid]) simp
qed

theorem logout_all_revokes_everything_witness:
  "\<exists>cookies d' uid. logout_all sample_crypto sample_auth (Some ''r1'') None 100 token_db = (Inr cookies, d')
     \<and> refresh_tokens d' = [sample_token\<lparr>tok_revoked_at := Some 100\<rparr>]
     \<and> filter (\<lambda>t. tok_user_id t = uid \<and> token_active t) (refresh_tokens d') = []"
proof -
  let ?d = "save_tokens (\<lambda>t. tok_user_id t = 2 \<and> tok_revoked_at t = None) (\<lambda>t. t\<lparr>tok_revoked_at := Some 100\<rparr>) token_db"
  have run: "logout_all sample_crypto sample_auth (Some ''r1'') None 100 token_db = (Inr [DeleteCookie ''hefest_refresh'' ''/auth''], ?d)"
    by (simp add: logout_all_def Let_def user_id_for_active_refresh_token_def token_db_def sample_token_def hash_token_def
        sample_crypto_def sample_auth_def and_then_def revoke_all_for_user_def uuid_filter_def uuid_of_str_uuid ret_def)
  from logout_all_revokes_everything[OF run token_db_ok] obtain uid
    where "filter (\<lambda>t. tok_user_id t = uid \<and> token_active t) (refresh_tokens ?d) = []"
    by (auto simp: filter_empty_conv simp del: save_tokens_simps)
  moreover have "refresh_tokens ?d = [sample_token\<lparr>tok_revoked_at := Some 100\<rparr>]"
    by (simp add: token_db_def sample_token_def)
  ultimately show ?thesis using run by blast
qed

end
