(* ===== verification/Rate_Limit_Properties.thy ===== *)
theory Rate_Limit_Properties
  imports Rate_Limit Auth_Properties
begin

text \<open>
  The properties of the rate limiter: the limit holds in every window, the announced waiting time is
  right, counters do not disturb each other, and what requests are keyed by.
\<close>

section \<open>Counters and the history of accepted requests\<close>

definition live :: "int \<Rightarrow> instant \<Rightarrow> (instant \<times> string) list \<Rightarrow> (instant \<times> string) list" where
  "live window now zs = filter (\<lambda>(s, m). now - seconds window < s) zs"

text \<open>
  A counter tracks the instants of the accepted requests: at any later time its unexpired entries
  are the accepted instants that are still inside the window.
\<close>

definition tracks :: "string \<Rightarrow> int \<Rightarrow> instant \<Rightarrow> instant list \<Rightarrow> string set \<Rightarrow> redis \<Rightarrow> bool" where
  "tracks key window t hist ms st \<longleftrightarrow> (\<forall>s\<in>set hist. s \<le> t)
     \<and> (\<forall>now\<ge>t. mset (map fst (live window now (entries_at now key st))) = filter_mset (\<lambda>s. now - seconds window < s) (mset hist)
          \<and> (\<forall>(s, m)\<in>set (entries_at now key st). 0 \<le> s \<and> m \<in> ms))"

lemma tracksD:
  assumes "tracks key window t hist ms st" "t \<le> now"
  shows "mset (map fst (live window now (entries_at now key st))) = filter_mset (\<lambda>s. now - seconds window < s) (mset hist)"
    and "(s, m) \<in> set (entries_at now key st) \<Longrightarrow> 0 \<le> s \<and> m \<in> ms"
  using assms by (auto simp: tracks_def)

lemma tracks_fresh: "st key = None \<Longrightarrow> tracks key window t [] ms st"
  by (simp add: tracks_def entries_at_def live_def)

lemma zrem_live:
  assumes "\<And>s m. (s, m) \<in> set zs \<Longrightarrow> 0 \<le> s"
  shows "zremrangebyscore 0 (now - seconds window) zs = live window now zs"
  using assms unfolding zremrangebyscore_def live_def by (intro filter_cong) auto

lemma live_later: "now \<le> now' \<Longrightarrow> live window now' (live window now zs) = live window now' zs"
  unfolding live_def filter_filter by (intro filter_cong) auto

lemma live_history:
  assumes "mset (map fst (live window now zs)) = filter_mset (\<lambda>s. now - seconds window < s) (mset hist)" "now \<le> now'"
  shows "mset (map fst (live window now' zs)) = filter_mset (\<lambda>s. now' - seconds window < s) (mset hist)"
proof -
  have "mset (map fst (live window now' zs)) = filter_mset (\<lambda>s. now' - seconds window < s) (mset (map fst (live window now zs)))"
    unfolding live_def using assms(2) by (induction zs) auto
  also have "\<dots> = filter_mset (\<lambda>s. now' - seconds window < s) (mset hist)"
    unfolding assms(1) filter_filter_mset using assms(2) by (intro filter_mset_cong) auto
  finally show ?thesis .
qed

lemma zadd_new: "(\<And>s. (s, member) \<notin> set zs) \<Longrightarrow> zadd score member zs = zs @ [(score, member)]"
  unfolding zadd_def by (subst filter_True) auto

text \<open>One check: whether it accepts, and that the counter keeps tracking.\<close>

lemma sliding_window_accepts:
  assumes "tracks key window t hist ms st" "t \<le> now"
  shows "fst (fst (sliding_window key now window limit member st)) \<longleftrightarrow>
     limit \<le> int (length (filter (\<lambda>s. now - seconds window < s) hist))"
proof -
  let ?E = "entries_at now key st"
  have kept: "zremrangebyscore 0 (now - seconds window) ?E = live window now ?E"
    by (rule zrem_live) (use tracksD(2)[OF assms] in blast)
  have "length (live window now ?E) = size (mset (map fst (live window now ?E)))" by simp
  also have "\<dots> = length (filter (\<lambda>s. now - seconds window < s) hist)"
    unfolding tracksD(1)[OF assms] mset_filter[symmetric] size_mset ..
  finally show ?thesis unfolding sliding_window_def kept by (simp add: Let_def)
qed

lemma sliding_window_blocked:
  assumes "tracks key window t hist ms st" "t \<le> now" "sliding_window key now window limit member st = ((True, r), st')"
  shows "tracks key window now hist ms st'"
proof -
  let ?E = "entries_at now key st"
  let ?K = "live window now ?E"
  have "zremrangebyscore 0 (now - seconds window) ?E = ?K"
    by (rule zrem_live) (use tracksD(2)[OF assms(1,2)] in blast)
  with assms(3) have st': "st' = put_entries key ?K st"
    by (auto simp: sliding_window_def Let_def split: if_splits)
  have "mset (map fst (live window now' (entries_at now' key st'))) = filter_mset (\<lambda>s. now' - seconds window < s) (mset hist)
      \<and> (\<forall>(s, m)\<in>set (entries_at now' key st'). 0 \<le> s \<and> m \<in> ms)" if now': "now \<le> now'" for now'
  proof (cases "st key = None \<or> entries_at now' key st = []")
    case True
    then have "entries_at now' key st' = []" "entries_at now' key st = []"
      by (auto simp: st' put_entries_def entries_at_def live_def split: option.splits if_splits)
    with tracksD(1)[OF assms(1), of now'] now' assms(2) show ?thesis by simp
  next
    case False
    then have E: "entries_at now' key st = ?E" using now' by (auto simp: entries_at_def split: option.splits if_splits)
    with False have "entries_at now' key st' = ?K"
      by (auto simp: st' put_entries_def entries_at_def split: option.splits if_splits)
    moreover have "set ?K \<subseteq> set ?E" by (auto simp: live_def)
    ultimately show ?thesis
      using live_history[OF tracksD(1)[OF assms(1,2)] now'] tracksD(2)[OF assms(1,2)] live_later[OF now'] by auto
  qed
  with assms(1,2) show ?thesis by (auto simp: tracks_def)
qed

lemma sliding_window_accepted:
  assumes "tracks key window t hist ms st" "t \<le> now" "sliding_window key now window limit member st = ((False, r), st')"
    and "0 \<le> now" "member \<notin> ms"
  shows "tracks key window now (hist @ [now]) (insert member ms) st'"
proof -
  let ?E = "entries_at now key st"
  let ?K = "live window now ?E"
  have "zremrangebyscore 0 (now - seconds window) ?E = ?K"
    by (rule zrem_live) (use tracksD(2)[OF assms(1,2)] in blast)
  moreover have "zadd now member ?K = ?K @ [(now, member)]"
    by (rule zadd_new) (use tracksD(2)[OF assms(1,2)] assms(5) in \<open>auto simp: live_def\<close>)
  ultimately have st': "st' = st(key \<mapsto> \<lparr>ct_entries = ?K @ [(now, member)], ct_expires_at = now + seconds window\<rparr>)"
    using assms(3) by (auto simp: sliding_window_def Let_def split: if_splits)
  have old: "\<forall>s\<in>set hist. s \<le> now" using assms(1,2) by (auto simp: tracks_def)
  have "mset (map fst (live window now' (entries_at now' key st'))) = filter_mset (\<lambda>s. now' - seconds window < s) (mset (hist @ [now]))
      \<and> (\<forall>(s, m)\<in>set (entries_at now' key st'). 0 \<le> s \<and> m \<in> insert member ms)" if now': "now \<le> now'" for now'
  proof (cases "now + seconds window \<le> now'")
    case True
    with old have "\<forall>s\<in>set (hist @ [now]). \<not> now' - seconds window < s" by auto
    then have "filter_mset (\<lambda>s. now' - seconds window < s) (mset (hist @ [now])) = {#}"
      by (auto simp: filter_mset_eq_conv)
    with True show ?thesis by (simp add: st' entries_at_def live_def)
  next
    case False
    then have E: "entries_at now' key st' = ?K @ [(now, member)]" by (simp add: st' entries_at_def)
    have "live window now' (?K @ [(now, member)]) = live window now' ?E @ [(now, member)]"
      using False live_later[OF now', of window ?E] by (simp add: live_def)
    moreover have "set ?K \<subseteq> set ?E" by (auto simp: live_def)
    ultimately show ?thesis unfolding E
      using live_history[OF tracksD(1)[OF assms(1,2)] now'] tracksD(2)[OF assms(1,2)] False assms(4) by auto
  qed
  with old show ?thesis by (auto simp: tracks_def)
qed

section \<open>Sequences of requests\<close>

text \<open>The checks of one key in the order of time: the instants of the accepted ones, and the store.\<close>

fun run_checks :: "string \<Rightarrow> int \<Rightarrow> int \<Rightarrow> (instant \<times> string) list \<Rightarrow> redis \<Rightarrow> instant list \<times> redis" where
  "run_checks key window limit [] st = ([], st)"
| "run_checks key window limit ((now, member) # reqs) st =
     (case sliding_window key now window limit member st of
        ((limited, _), st') \<Rightarrow> (case run_checks key window limit reqs st' of
          (acc, st'') \<Rightarrow> (if limited then acc else now # acc, st'')))"

definition chronological :: "(instant \<times> string) list \<Rightarrow> bool" where
  "chronological reqs \<longleftrightarrow> sorted (map fst reqs) \<and> (\<forall>r\<in>set reqs. 0 \<le> fst r) \<and> distinct (map snd reqs)"

definition within_limit :: "int \<Rightarrow> int \<Rightarrow> instant list \<Rightarrow> bool" where
  "within_limit window limit hist \<longleftrightarrow>
     (\<forall>x. int (length (filter (\<lambda>s. x - seconds window < s \<and> s \<le> x) hist)) \<le> limit)"

lemma within_limit_snoc:
  assumes "within_limit window limit hist" "\<forall>s\<in>set hist. s \<le> now"
    and "int (length (filter (\<lambda>s. now - seconds window < s) hist)) < limit"
  shows "within_limit window limit (hist @ [now])"
  unfolding within_limit_def
proof
  fix x
  let ?n = "\<lambda>h. int (length (filter (\<lambda>s. x - seconds window < s \<and> s \<le> x) h))"
  show "?n (hist @ [now]) \<le> limit"
  proof (cases "x - seconds window < now \<and> now \<le> x")
    case True
    have "?n hist \<le> int (length (filter (\<lambda>s. now - seconds window < s) hist))"
      unfolding of_nat_le_iff using True by (induction hist) auto
    with True assms(3) show ?thesis by simp
  qed (use assms(1) in \<open>auto simp: within_limit_def\<close>)
qed

lemma run_checks_tracks:
  assumes "tracks key window t hist ms st" "within_limit window limit hist" "chronological reqs"
    and "\<forall>r\<in>set reqs. t \<le> fst r \<and> snd r \<notin> ms" "\<forall>r\<in>set reqs. fst r \<le> e" "t \<le> e"
    and "run_checks key window limit reqs st = (acc, st')"
  shows "within_limit window limit (hist @ acc) \<and> (\<exists>t'\<le>e. tracks key window t' (hist @ acc) (ms \<union> snd ` set reqs) st')"
  using assms
proof (induction reqs arbitrary: t hist ms st acc)
  case Nil
  then show ?case by auto
next
  case (Cons q reqs)
  obtain now member where q: "q = (now, member)" by fastforce
  obtain limited r st1 where w: "sliding_window key now window limit member st = ((limited, r), st1)" by (metis surj_pair)
  obtain acc1 where rest: "run_checks key window limit reqs st1 = (acc1, st')" and acc: "acc = (if limited then acc1 else now # acc1)"
    using Cons.prems(7) by (auto simp: q w split: prod.splits)
  have t: "t \<le> now" "0 \<le> now" "member \<notin> ms" "now \<le> e" and later: "\<forall>x\<in>set reqs. now \<le> fst x"
    and chron: "chronological reqs" and fresh: "\<forall>x\<in>set reqs. snd x \<noteq> member"
    using Cons.prems(3-5) by (auto simp: q chronological_def image_iff)
  show ?case
  proof (cases limited)
    case True
    have "tracks key window now hist ms st1" by (rule sliding_window_blocked[OF Cons.prems(1) t(1), of limit member r]) (use w True in simp)
    from Cons.IH[OF this Cons.prems(2) chron _ _ t(4) rest] Cons.prems(4,5) later True acc
    obtain t' where "within_limit window limit (hist @ acc)" "t' \<le> e" "tracks key window t' (hist @ acc) (ms \<union> snd ` set reqs) st'" by auto
    moreover have "tracks key window t' (hist @ acc) (ms \<union> snd ` set (q # reqs)) st'"
      using calculation(3) by (fastforce simp: tracks_def)
    ultimately show ?thesis by blast
  next
    case False
    have tr: "tracks key window now (hist @ [now]) (insert member ms) st1"
      by (rule sliding_window_accepted[OF Cons.prems(1) t(1) _ t(2,3)]) (use w False in simp)
    have "\<forall>s\<in>set hist. s \<le> now" using Cons.prems(1) t(1) by (auto simp: tracks_def)
    moreover have "int (length (filter (\<lambda>s. now - seconds window < s) hist)) < limit"
      using sliding_window_accepts[OF Cons.prems(1) t(1), of limit member] w False by simp
    ultimately have wl: "within_limit window limit (hist @ [now])" by (rule within_limit_snoc[OF Cons.prems(2)])
    from Cons.IH[OF tr wl chron _ _ t(4) rest] Cons.prems(4,5) later fresh False acc show ?thesis by (auto simp: q)
  qed
qed

lemma fresh_run_tracks:
  assumes "run_checks key window limit reqs st = (acc, st')" "st key = None" "chronological (reqs @ [(now, member)])" "0 \<le> limit"
  shows "within_limit window limit acc" "\<exists>t\<le>now. tracks key window t acc (snd ` set reqs) st'"
proof -
  have c: "chronological reqs" "\<forall>r\<in>set reqs. fst r \<le> now" "\<forall>r\<in>set reqs. 0 \<le> fst r" "0 \<le> now"
    using assms(3) by (auto simp: chronological_def sorted_append)
  have "within_limit window limit []" using assms(4) by (simp add: within_limit_def)
  from run_checks_tracks[OF tracks_fresh[of st key window 0 "{}", OF assms(2)] this c(1) _ c(2,4) assms(1)] c(3)
  show "within_limit window limit acc" "\<exists>t\<le>now. tracks key window t acc (snd ` set reqs) st'" by auto
qed

section \<open>Properties\<close>

text \<open>
  C12: The limit holds. Whatever requests arrive for a key, in the order of their instants, no
  window of the configured length contains more accepted requests than the limit; expiry of the
  key never lets one more through.
\<close>

theorem rate_limit_holds:
  assumes "st key = None" "chronological reqs" "0 \<le> limit"
  shows "within_limit window limit (fst (run_checks key window limit reqs st))"
proof (cases "run_checks key window limit reqs st")
  case (Pair acc st')
  have "within_limit window limit []" using assms(3) by (simp add: within_limit_def)
  moreover have "\<forall>r\<in>set reqs. fst r \<le> Max (insert 0 (fst ` set reqs))" by simp
  moreover have "0 \<le> Max (insert 0 (fst ` set reqs))" by simp
  moreover have "\<forall>r\<in>set reqs. 0 \<le> fst r \<and> snd r \<notin> {}" using assms(2) by (simp add: chronological_def)
  ultimately show ?thesis
    using run_checks_tracks[OF tracks_fresh[of st key window 0 "{}", OF assms(1)] _ assms(2) _ _ _ Pair] Pair by (metis append_Nil fst_conv)
qed

theorem rate_limit_holds_witness:
  "within_limit 60 2 (fst (run_checks ''k'' 60 2 [(seconds 1, ''a''), (seconds 2, ''b''), (seconds 3, ''c''), (seconds 61, ''d'')] Map.empty))
   \<and> fst (run_checks ''k'' 60 2 [(seconds 1, ''a''), (seconds 2, ''b''), (seconds 3, ''c''), (seconds 61, ''d'')] Map.empty)
       = [seconds 1, seconds 2, seconds 61]"
  using rate_limit_holds[of Map.empty "''k''" "[(seconds 1, ''a''), (seconds 2, ''b''), (seconds 3, ''c''), (seconds 61, ''d'')]" 2 60]
  by (simp add: chronological_def sliding_window_def entries_at_def zremrangebyscore_def zadd_def put_entries_def Let_def
      seconds_def ceil_seconds_def)

lemma ceil_seconds_bounds: "t \<le> seconds (ceil_seconds t)" "seconds (ceil_seconds t - 1) < t"
  by (simp_all add: ceil_seconds_def seconds_def)

text \<open>The waiting time is computed from the oldest accepted request in the window.\<close>

lemma blocked_retry_after:
  assumes "tracks key window t hist ms st" "t \<le> now" "sliding_window key now window limit member st = ((True, r), st')"
    and "filter (\<lambda>s. now - seconds window < s) hist \<noteq> []"
  shows "r = max 1 (ceil_seconds (seconds window - (now - Min (set (filter (\<lambda>s. now - seconds window < s) hist)))))"
proof -
  let ?E = "entries_at now key st"
  let ?F = "filter (\<lambda>s. now - seconds window < s) hist"
  have kept: "zremrangebyscore 0 (now - seconds window) ?E = live window now ?E"
    by (rule zrem_live) (use tracksD(2)[OF assms(1,2)] in blast)
  have "mset (map fst (live window now ?E)) = mset ?F" using tracksD(1)[OF assms(1,2)] by simp
  then have F: "fst ` set (live window now ?E) = set ?F" by (metis list.set_map mset_eq_setD)
  with assms(4) have "live window now ?E \<noteq> []" by auto
  with assms(3) F show ?thesis unfolding sliding_window_def kept by (auto simp: Let_def split: if_splits)
qed

lemma blocked_window:
  assumes "tracks key window t hist ms st" "t \<le> now" "sliding_window key now window limit member st = ((True, r), st')"
    and "within_limit window limit hist" "0 < limit"
  obtains oldest where "oldest \<in> set hist" "now - seconds window < oldest" "oldest \<le> now"
    "\<And>s. s \<in> set hist \<Longrightarrow> now - seconds window < s \<Longrightarrow> oldest \<le> s"
    "int (length (filter (\<lambda>s. now - seconds window < s) hist)) = limit"
    "r = max 1 (ceil_seconds (seconds window - (now - oldest)))"
proof -
  let ?F = "filter (\<lambda>s. now - seconds window < s) hist"
  have old: "\<forall>s\<in>set hist. s \<le> now" using assms(1,2) by (auto simp: tracks_def)
  then have "filter (\<lambda>s. now - seconds window < s \<and> s \<le> now) hist = ?F" by (intro filter_cong) auto
  with assms(4) have "int (length ?F) \<le> limit" unfolding within_limit_def by metis
  moreover have "limit \<le> int (length ?F)" using sliding_window_accepts[OF assms(1,2), of limit member] assms(3) by simp
  ultimately have len: "int (length ?F) = limit" by simp
  then have ne: "?F \<noteq> []" using assms(5) by (intro notI) simp
  then have "Min (set ?F) \<in> set ?F" by (intro Min_in finite_set) (unfold set_empty)
  moreover have "\<And>s. s \<in> set hist \<Longrightarrow> now - seconds window < s \<Longrightarrow> Min (set ?F) \<le> s" by (intro Min_le) simp_all
  ultimately show thesis
    using that[of "Min (set ?F)"] old len blocked_retry_after[OF assms(1-3) ne] by auto
qed



section \<open>Keys\<close>

text \<open>What a request is counted under: a verified user, or an address.\<close>

definition subject :: "crypto \<Rightarrow> rule \<Rightarrow> request \<Rightarrow> instant \<Rightarrow> string + string" where
  "subject cr r rq now =
     (if rl_identifier r = ByUser \<and> verified_user_id cr (request_bearer_token rq) now \<noteq> None
      then Inl (the (verified_user_id cr (request_bearer_token rq) now)) else Inr (client_ip rq))"

definition subject_text :: "string + string \<Rightarrow> string" where
  "subject_text x = (case x of Inl uid \<Rightarrow> ''user:'' @ uid | Inr ip \<Rightarrow> ''ip:'' @ ip)"

definition resolved :: "rate_settings \<Rightarrow> request \<Rightarrow> rule option" where
  "resolved rs rq = find (\<lambda>r. rule_matches r (rq_method rq) (rq_path rq)) (rules rs)"

lemma subject_text_inj: "subject_text x = subject_text y \<longleftrightarrow> x = y"
  by (auto simp: subject_text_def split: sum.splits)

lemma request_key_subject: "request_key cr r rq now = ratelimit_prefix @ '':'' @ rl_tag r @ '':'' @ subject_text (subject cr r rq now)"
  by (auto simp: request_key_def subject_def subject_text_def Let_def split: identifier_kind.splits option.splits)

lemma split_at_colon:
  assumes "CHR '':'' \<notin> set a" "CHR '':'' \<notin> set b" "a @ '':'' @ x = b @ '':'' @ y"
  shows "a = b \<and> x = y"
  using assms by (induction a arbitrary: b) (case_tac b; auto)+

lemma rules_tags: "r \<in> set (rules rs) \<Longrightarrow> CHR '':'' \<notin> set (rl_tag r)"
  by (auto simp: rules_def)

lemma resolved_rule: "resolved rs rq = Some r \<Longrightarrow> r \<in> set (rules rs)"
  unfolding resolved_def by (metis find_Some_iff nth_mem)

lemma request_key_inj:
  assumes "r1 \<in> set (rules rs)" "r2 \<in> set (rules rs)"
  shows "request_key cr r1 rq1 now1 = request_key cr r2 rq2 now2 \<longleftrightarrow>
     rl_tag r1 = rl_tag r2 \<and> subject cr r1 rq1 now1 = subject cr r2 rq2 now2"
proof
  assume "request_key cr r1 rq1 now1 = request_key cr r2 rq2 now2"
  then have "rl_tag r1 @ '':'' @ subject_text (subject cr r1 rq1 now1) = rl_tag r2 @ '':'' @ subject_text (subject cr r2 rq2 now2)"
    by (simp add: request_key_subject)
  from split_at_colon[OF rules_tags[OF assms(1)] rules_tags[OF assms(2)] this]
  show "rl_tag r1 = rl_tag r2 \<and> subject cr r1 rq1 now1 = subject cr r2 rq2 now2" by (simp add: subject_text_inj)
qed (simp add: request_key_subject)

lemma sliding_window_other: "k \<noteq> key \<Longrightarrow> snd (sliding_window key now window limit member st) k = st k"
  by (simp add: sliding_window_def Let_def put_entries_def split: option.splits)

lemma sliding_window_local: "st k = st' k \<Longrightarrow> fst (sliding_window k now window limit member st) = fst (sliding_window k now window limit member st')"
  by (simp add: sliding_window_def entries_at_def Let_def)

lemma dispatch_resolved:
  "resolved rs rq = Some r \<Longrightarrow> dispatch cr rs rq now member st =
     (case sliding_window (request_key cr r rq now) now (rl_window r) (rl_limit r) member st of
        ((limited, retry), st') \<Rightarrow> (if limited then TooMany retry else CallNext, st'))"
  by (simp add: dispatch_def check_def resolved_def)

lemma flush_resets: "r \<in> set (rules rs) \<Longrightarrow> subject cr r rq now = Inr (client_ip rq) \<Longrightarrow>
     flush_ratelimit rq st (request_key cr r rq now) = None"
  by (simp add: flush_ratelimit_def flush_pattern_def request_key_subject subject_text_def Let_def)

text \<open>
  Counters are independent. Two requests are counted together only if they resolve to the same
  rule and have the same subject; otherwise whatever one does to the store leaves the answer to the
  other unchanged, so nobody can exhaust the limit of another address or another endpoint.
\<close>

theorem rate_limits_are_independent:
  assumes "resolved rs rq1 = Some r1" "resolved rs rq2 = Some r2"
    and "rl_tag r1 \<noteq> rl_tag r2 \<or> subject cr r1 rq1 now1 \<noteq> subject cr r2 rq2 now2"
  shows "fst (dispatch cr rs rq2 now2 m2 (snd (dispatch cr rs rq1 now1 m1 st))) = fst (dispatch cr rs rq2 now2 m2 st)"
proof -
  let ?k1 = "request_key cr r1 rq1 now1" and ?k2 = "request_key cr r2 rq2 now2"
  have ne: "?k2 \<noteq> ?k1"
    using request_key_inj[OF resolved_rule[OF assms(1)] resolved_rule[OF assms(2)], of cr rq1 now1 rq2 now2] assms(3) by auto
  have "snd (dispatch cr rs rq1 now1 m1 st) = snd (sliding_window ?k1 now1 (rl_window r1) (rl_limit r1) m1 st)"
    by (simp add: dispatch_resolved[OF assms(1)] split: prod.splits)
  with sliding_window_other[OF ne] have "snd (dispatch cr rs rq1 now1 m1 st) ?k2 = st ?k2" by simp
  from sliding_window_local[of "snd (dispatch cr rs rq1 now1 m1 st)" ?k2 st, OF this, of now2 "rl_window r2" "rl_limit r2" m2] show ?thesis
    by (auto simp: dispatch_resolved[OF assms(2)] split: prod.splits)
qed

definition sample_rates :: rate_settings where
  "sample_rates = \<lparr>rs_login_count = 1, rs_login_window = 60, rs_register_count = 5, rs_register_window = 3600,
     rs_event_register_count = 30, rs_event_register_window = 60, rs_global_count = 200, rs_global_window = 60\<rparr>"

definition sample_login :: "string \<Rightarrow> request" where
  "sample_login ip = \<lparr>rq_method = ''POST'', rq_path = ''/login'', rq_client_host = Some ip, rq_authorization = None\<rparr>"

lemma login_resolved: "resolved sample_rates (sample_login ip) = Some (hd (rules sample_rates))"
  by (simp add: resolved_def rules_def rule_matches_def sample_login_def)

theorem rate_limits_are_independent_witness:
  "fst (dispatch sample_crypto sample_rates (sample_login ''10.0.0.2'') 2 ''b''
      (snd (dispatch sample_crypto sample_rates (sample_login ''10.0.0.1'') 1 ''a'' Map.empty))) = CallNext"
proof -
  have "subject cr r (sample_login ''10.0.0.1'') 1 \<noteq> subject cr r (sample_login ''10.0.0.2'') 2" for cr r
    by (simp add: subject_def sample_login_def request_bearer_token_def verified_user_id_def client_ip_def)
  then have "fst (dispatch sample_crypto sample_rates (sample_login ''10.0.0.2'') 2 ''b''
      (snd (dispatch sample_crypto sample_rates (sample_login ''10.0.0.1'') 1 ''a'' Map.empty)))
    = fst (dispatch sample_crypto sample_rates (sample_login ''10.0.0.2'') 2 ''b'' Map.empty)"
    by (intro rate_limits_are_independent[OF login_resolved login_resolved]) blast
  also have "\<dots> = CallNext"
    unfolding dispatch_resolved[OF login_resolved]
    by (simp add: sliding_window_def entries_at_def zremrangebyscore_def Let_def rules_def sample_rates_def)
  finally show ?thesis .
qed

text \<open>
  C40: The limit per user is never per user. The middleware decodes the bearer token without an
  expected audience, and PyJWT refuses a token that has one, so every access token of the program
  counts as unverified and the request is keyed by its address like an anonymous one.
\<close>

theorem access_tokens_are_keyed_by_address:
  assumes "jwt_laws cr" "rq_authorization rq = Some (''Bearer '' @ create_access_token cr st u issued)"
  shows "request_key cr r rq now = ratelimit_prefix @ '':'' @ rl_tag r @ '':ip:'' @ client_ip rq"
proof -
  have "verified_user_id cr (request_bearer_token rq) now = None"
    using assms by (simp add: verified_user_id_def request_bearer_token_def jwt_laws_def create_access_token_def)
  then show ?thesis by (simp add: request_key_subject subject_def subject_text_def)
qed

theorem access_tokens_are_keyed_by_address_witness:
  "request_key sample_crypto (rules sample_rates ! 2)
     \<lparr>rq_method = ''POST'', rq_path = ''/events/1/registrations'', rq_client_host = Some ''10.0.0.1'',
      rq_authorization = Some (''Bearer '' @ create_access_token sample_crypto sample_auth student2 0)\<rparr> 1
   = ''hefest:ratelimit:event_register:ip:10.0.0.1''"
  by (subst access_tokens_are_keyed_by_address[OF sample_crypto_laws(1)])
    (simp_all add: ratelimit_prefix_def rules_def client_ip_def)

end
