(* ===== verification/Wakeup.thy ===== *)
theory Wakeup
  imports Outbox_Properties
begin

text \<open>
  When the consumer drains: the loop of \<open>run\<close> and the LISTEN task \<open>_listen\<close> of
  \<open>worker/consumer.py\<close>, with the API committing jobs and other workers moving theirs at any moment.
  The event loop switches tasks at awaits only, so each step below is one stretch of code between
  two awaits. A notification is in transit between the commit and the callback that sets \<open>wake\<close>;
  what is in transit is lost when the LISTEN connection drops.
\<close>

section \<open>State\<close>

text \<open>\<open>Processing_batch b\<close>: the batch of the last claim is being sent; \<open>b\<close> tells that it was a short one.\<close>

datatype run_pc = LoopHead | Draining | Processing_batch bool | Waiting | Finished

record wake_state =
  w_pc :: run_pc
  w_wake :: bool
  w_connected :: bool
  w_backoff :: int
  w_transit :: nat
  w_clock :: instant
  w_jobs :: jobs

section \<open>The LISTEN task\<close>

definition reconnect_backoff_initial :: int where
  "reconnect_backoff_initial = 1"

definition reconnect_backoff_max :: int where
  "reconnect_backoff_max = 30"

definition connect_failed :: "wake_state \<Rightarrow> wake_state" where
  "connect_failed s = s\<lparr>w_backoff := min (w_backoff s * 2) reconnect_backoff_max\<rparr>"

definition connect_succeeded :: "wake_state \<Rightarrow> wake_state" where
  "connect_succeeded s = s\<lparr>w_backoff := reconnect_backoff_initial, w_connected := True, w_wake := True\<rparr>"

definition connection_lost :: "wake_state \<Rightarrow> wake_state" where
  "connection_lost s = s\<lparr>w_connected := False, w_transit := 0\<rparr>"

definition notify_callback :: "wake_state \<Rightarrow> wake_state" where
  "notify_callback s = s\<lparr>w_transit := w_transit s - 1, w_wake := True\<rparr>"

section \<open>The loop of run\<close>

definition loop_head :: "bool \<Rightarrow> wake_state \<Rightarrow> wake_state" where
  "loop_head stopped s = (if stopped then s\<lparr>w_pc := Finished\<rparr> else s\<lparr>w_wake := False, w_pc := Draining\<rparr>)"

text \<open>One turn of the drain: it ends at once when it is told to stop, else it claims a batch.\<close>

definition drain_turn :: "bool \<Rightarrow> string \<Rightarrow> nat \<Rightarrow> wake_state \<Rightarrow> wake_state" where
  "drain_turn halted worker_id batch_size s =
     (if halted then s\<lparr>w_pc := Waiting\<rparr>
      else (case claim_batch worker_id batch_size (w_clock s) {} (w_jobs s) of
        (claimed, js) \<Rightarrow> s\<lparr>w_jobs := js,
          w_pc := (if claimed = [] then Waiting else Processing_batch (length claimed < batch_size))\<rparr>))"

definition batch_done :: "wake_state \<Rightarrow> wake_state" where
  "batch_done s = (case w_pc s of
      Processing_batch short \<Rightarrow> s\<lparr>w_pc := (if short then Waiting else Draining)\<rparr> | _ \<Rightarrow> s)"

text \<open>The wait ends when \<open>wake\<close> is set or when the poll interval has passed.\<close>

definition wait_ends :: "wake_state \<Rightarrow> wake_state" where
  "wait_ends s = s\<lparr>w_pc := LoopHead\<rparr>"

section \<open>Steps\<close>

text \<open>A job as the services write it, which no worker has claimed yet.\<close>

definition fresh :: "notification_job \<Rightarrow> bool" where
  "fresh j \<longleftrightarrow> job_status_of j = Pending \<and> job_attempts j = 0"

text \<open>A halted turn is taken only once \<open>stop\<close> or \<open>lease_lost\<close> is set, and these stay set.\<close>

inductive wake_step :: "string \<Rightarrow> nat \<Rightarrow> bool \<Rightarrow> wake_state \<Rightarrow> wake_state \<Rightarrow> bool" for w n halted where
  failed: "\<not> w_connected s \<Longrightarrow> wake_step w n halted s (connect_failed s)"
| connected: "\<not> w_connected s \<Longrightarrow> wake_step w n halted s (connect_succeeded s)"
| lost: "w_connected s \<Longrightarrow> wake_step w n halted s (connection_lost s)"
| callback: "0 < w_transit s \<Longrightarrow> wake_step w n halted s (notify_callback s)"
| head: "w_pc s = LoopHead \<Longrightarrow> wake_step w n halted s (loop_head halted s)"
| turn: "w_pc s = Draining \<Longrightarrow> wake_step w n halted s (drain_turn halted w n s)"
| batch: "w_pc s = Processing_batch short \<Longrightarrow> wake_step w n halted s (batch_done s)"
| waited: "w_pc s = Waiting \<Longrightarrow> wake_step w n halted s (wait_ends s)"
| tick: "w_clock s \<le> t \<Longrightarrow> wake_step w n halted s (s\<lparr>w_clock := t\<rparr>)"
| commit: "queue_ok (w_jobs s @ js) \<Longrightarrow> \<forall>j\<in>set js. job_next_attempt_at j \<le> w_clock s \<Longrightarrow>
     wake_step w n halted s (s\<lparr>w_jobs := w_jobs s @ js, w_transit := (if w_connected s then w_transit s + 1 else 0)\<rparr>)"
| workers: "queue_step (w_jobs s) js \<Longrightarrow> length js = length (w_jobs s) \<Longrightarrow> wake_step w n halted s (s\<lparr>w_jobs := js\<rparr>)"

section \<open>Lemmas\<close>

lemma update_where_fresh:
  "\<lbrakk>j \<in> set (update_where P g js); fresh j; \<And>x. x \<in> set js \<Longrightarrow> P x \<Longrightarrow> \<not> fresh (g x)\<rbrakk> \<Longrightarrow> j \<in> set js"
  by (auto simp: set_update_where split: if_splits)

lemma processing_attempts: "queue_ok js \<Longrightarrow> j \<in> set js \<Longrightarrow> job_status_of j = Processing \<Longrightarrow> job_attempts j \<noteq> 0"
  by (force simp: queue_ok_def job_ok_def)

text \<open>No statement of a worker makes a job fresh.\<close>

lemma queue_step_fresh:
  assumes "queue_step js js'" "length js' = length js" "queue_ok js" "j \<in> set js'" "fresh j"
  shows "j \<in> set js"
  using assms(1)
proof cases
  case (enqueue i k eo ty p now)
  with assms(2) show ?thesis by simp
next
  case (claim w n now locked)
  with assms(4,5) show ?thesis
    by (auto simp: claim_batch_def Let_def fresh_def stamp_claim_def elim!: update_where_fresh)
next
  case (reap idle n now locked)
  have d: "distinct (map job_id js)" using assms(3) by (simp add: queue_ok_def)
  have "\<not> fresh (x\<lparr>job_status_of := Pending, job_locked_by := None, job_updated_at := now\<rparr>)"
    if "x \<in> set js" "job_id x \<in> set (map job_id (take n (filter (stale idle now locked) js)))" for x
    using reaped_stale[OF d that] processing_attempts[OF assms(3) that(1)] by (simp add: stale_def fresh_def)
  then show ?thesis by (rule update_where_fresh[OF assms(4)[unfolded reap reap_stale_def Let_def snd_conv] assms(5)])
next
  case (complete jid w now)
  with assms(4,5) show ?thesis by (auto simp: mark_completed_def fresh_def elim!: update_where_fresh)
next
  case (retry err delay jid w now)
  with assms(4,5) show ?thesis
    by (auto simp: mark_retry_def fence_def fresh_def dest: processing_attempts[OF assms(3)] elim!: update_where_fresh)
next
  case (fail err jid w now)
  with assms(4,5) show ?thesis by (auto simp: mark_failed_def fresh_def elim!: update_where_fresh)
next
  case (renew w now)
  with assms(4,5) show ?thesis by (auto simp: renew_heartbeat_def fresh_def owned_def elim!: update_where_fresh)
qed

text \<open>A short claim leaves nothing that is due.\<close>

lemma short_claim:
  assumes "queue_ok js" "claim_batch w n now {} js = (cs, js')" "length cs < n" "j \<in> set js'"
  shows "\<not> due now {} j"
proof -
  have d: "distinct (map job_id js)" using assms(1) by (simp add: queue_ok_def)
  have "count_where (due now {}) js < n" using claim_count[OF d, of w n now "{}"] assms(2,3) by simp
  then have ids: "set (claimable now {} n js) = job_id ` set (filter (due now {}) js)"
    by (simp add: claimable_def count_where_def)
  from assms(2,4) obtain x where x: "x \<in> set js" "j = (if job_id x \<in> set (claimable now {} n js) then stamp_claim w now x else x)"
    by (auto simp: claim_batch_def Let_def set_update_where)
  show ?thesis
  proof (cases "due now {} x")
    case True
    with x ids show ?thesis by (simp add: due_def)
  next
    case False
    with x show ?thesis by (auto simp: due_def stamp_claim_def)
  qed
qed

section \<open>The invariant\<close>

definition on_the_way :: "wake_state \<Rightarrow> bool" where
  "on_the_way s \<longleftrightarrow> w_wake s \<or> 0 < w_transit s \<or> \<not> w_connected s"

definition wake_inv :: "bool \<Rightarrow> wake_state \<Rightarrow> bool" where
  "wake_inv halted s \<longleftrightarrow> queue_ok (w_jobs s) \<and> (\<forall>j\<in>set (w_jobs s). fresh j \<longrightarrow> job_next_attempt_at j \<le> w_clock s)
     \<and> reconnect_backoff_initial \<le> w_backoff s \<and> w_backoff s \<le> reconnect_backoff_max
     \<and> (w_pc s \<in> {Processing_batch True, Waiting} \<and> (\<exists>j\<in>set (w_jobs s). fresh j) \<longrightarrow> halted \<or> on_the_way s)"

lemmas wake_defs = wake_inv_def on_the_way_def reconnect_backoff_initial_def reconnect_backoff_max_def

lemma drain_turn_inv:
  assumes "wake_inv halted s" "0 < n"
  shows "wake_inv halted (drain_turn halted w n s)"
proof (cases halted)
  case True
  with assms show ?thesis by (simp add: drain_turn_def wake_defs)
next
  case False
  obtain cs js where c: "claim_batch w n (w_clock s) {} (w_jobs s) = (cs, js)" by fastforce
  have ok: "queue_ok (w_jobs s)" using assms(1) by (simp add: wake_inv_def)
  have step: "queue_step (w_jobs s) js" using queue_step.claim[of "w_jobs s" w n "w_clock s" "{}"] c by simp
  have len: "length js = length (w_jobs s)" using c by (auto simp: claim_batch_def Let_def)
  have ok': "queue_ok js" by (rule queue_step_ok[OF ok step])
  have old: "job_next_attempt_at j \<le> w_clock s" if "j \<in> set js" "fresh j" for j
    using queue_step_fresh[OF step len ok that] that(2) assms(1) by (simp add: wake_inv_def)
  have none: "\<not> fresh j" if "length cs < n" "j \<in> set js" for j
    using short_claim[OF ok c that] old[OF that(2)] by (auto simp: due_def fresh_def)
  from False c ok' old none assms show ?thesis by (auto simp: drain_turn_def wake_defs)
qed

lemma wake_step_inv:
  assumes "wake_inv halted s" "wake_step w n halted s s'" "0 < n"
  shows "wake_inv halted s'"
  using assms(2)
proof cases
  case turn
  with drain_turn_inv[OF assms(1,3)] show ?thesis by simp
next
  case (workers js)
  then have "queue_ok js" using queue_step_ok assms(1) by (auto simp: wake_inv_def)
  moreover have "\<And>j. j \<in> set js \<Longrightarrow> fresh j \<Longrightarrow> j \<in> set (w_jobs s)"
    using queue_step_fresh workers assms(1) by (auto simp: wake_inv_def)
  ultimately show ?thesis using workers assms(1) by (auto simp: wake_defs)
next
  case (batch short)
  with assms(1) show ?thesis by (cases short) (auto simp: batch_done_def wake_defs)
next
  case (commit js)
  with assms(1) show ?thesis by (auto simp: wake_defs)
qed (use assms(1) in \<open>auto simp: wake_defs connect_failed_def connect_succeeded_def connection_lost_def notify_callback_def
      loop_head_def wait_ends_def\<close>)

lemma wake_run_inv: "(wake_step w n halted)\<^sup>*\<^sup>* s s' \<Longrightarrow> wake_inv halted s \<Longrightarrow> 0 < n \<Longrightarrow> wake_inv halted s'"
  by (induction rule: rtranclp_induct) (auto intro: wake_step_inv)

definition start_state :: "instant \<Rightarrow> jobs \<Rightarrow> wake_state" where
  "start_state now js = \<lparr>w_pc = LoopHead, w_wake = False, w_connected = False, w_backoff = reconnect_backoff_initial,
     w_transit = 0, w_clock = now, w_jobs = js\<rparr>"


text \<open>A run: the connection comes up, the table is drained, a job is committed, its notification arrives.\<close>

definition woken :: wake_state where
  "woken = \<lparr>w_pc = Waiting, w_wake = True, w_connected = True, w_backoff = 1, w_transit = 0, w_clock = 10,
     w_jobs = [new_job 7 None ''EmailVerify'' Map.empty ''k'' 5]\<rparr>"

lemma woken_reachable: "(wake_step ''w'' 5 False)\<^sup>*\<^sup>* (start_state 10 []) woken"
proof -
  let ?R = "wake_step ''w'' 5 False"
  let ?s0 = "start_state 10 []"
  let ?s1 = "connect_succeeded ?s0"
  let ?s2 = "loop_head False ?s1"
  let ?s3 = "drain_turn False ''w'' 5 ?s2"
  let ?s4 = "?s3\<lparr>w_jobs := w_jobs ?s3 @ [new_job 7 None ''EmailVerify'' Map.empty ''k'' 5],
    w_transit := (if w_connected ?s3 then w_transit ?s3 + 1 else 0)\<rparr>"
  note defs = start_state_def connect_succeeded_def loop_head_def drain_turn_def claim_batch_def claimable_def Let_def
    reconnect_backoff_initial_def
  have "?R ?s0 ?s1" by (rule wake_step.connected) (simp add: defs)
  moreover have "?R ?s1 ?s2" by (rule wake_step.head) (simp add: defs)
  moreover have "?R ?s2 ?s3" by (rule wake_step.turn) (simp add: defs)
  moreover have "?R ?s3 ?s4" by (rule wake_step.commit) (simp_all add: defs queue_ok_def job_ok_def)
  moreover have "?R ?s4 woken"
    using wake_step.callback[of ?s4 "''w''" 5 False] by (simp add: defs notify_callback_def woken_def)
  ultimately show ?thesis by (meson converse_rtranclp_into_rtranclp rtranclp.rtrancl_refl)
qed


end
