(* ===== verification/Logging.thy ===== *)
theory Logging
  imports Main
begin

text \<open>
  \<open>hefest/logging.py\<close>: the sinks of loguru, the loggers of the standard library that are handed over
  to them, and the handler that forwards a record. Standard-library logging is modelled as far as
  this module uses it: loggers with handlers and a propagation flag, and the walk of a record from a
  logger to the root. What loguru does with a message, and the level names it knows, are outside.
\<close>

section \<open>Sinks\<close>

datatype sink_target = Stderr | LogFile string

record sink =
  sk_target :: sink_target
  sk_level :: string
  sk_colorize :: "bool option"
  sk_format :: string
  sk_rotation :: "string option"
  sk_retention :: "string option"
  sk_compression :: "string option"
  sk_enqueue :: bool
  sk_encoding :: "string option"

definition stderr_sink :: "string \<Rightarrow> string \<Rightarrow> string \<Rightarrow> string \<Rightarrow> sink" where
  "stderr_sink env level dev_format prod_format =
     (let is_dev = (env = ''dev'')
      in \<lparr>sk_target = Stderr, sk_level = level, sk_colorize = Some is_dev,
          sk_format = (if is_dev then dev_format else prod_format), sk_rotation = None, sk_retention = None,
          sk_compression = None, sk_enqueue = False, sk_encoding = None\<rparr>)"

definition file_sink :: "string \<Rightarrow> string \<Rightarrow> sink" where
  "file_sink level prod_format =
     \<lparr>sk_target = LogFile ''/tmp/hefest-logs/hefest.log'', sk_level = level, sk_colorize = None, sk_format = prod_format,
      sk_rotation = Some ''00:00'', sk_retention = Some ''30 days'', sk_compression = Some ''gz'', sk_enqueue = True,
      sk_encoding = Some ''utf-8''\<rparr>"

section \<open>Loggers of the standard library\<close>

datatype handler = Intercept | OtherHandler nat

record std_logger =
  lg_handlers :: "handler list"
  lg_propagate :: bool

text \<open>The root logger and the loggers created so far, by name; a new one has no handler and propagates.\<close>

record logging_state =
  ls_sinks :: "sink list"
  ls_root_handlers :: "handler list"
  ls_root_level :: nat
  ls_loggers :: "string \<rightharpoonup> std_logger"

definition intercept_loggers :: "string list" where
  "intercept_loggers = [''uvicorn'', ''uvicorn.error'', ''uvicorn.access'', ''fastapi'', ''tortoise'']"

definition configure_logging :: "string \<Rightarrow> string \<Rightarrow> string \<Rightarrow> string \<Rightarrow> logging_state \<Rightarrow> logging_state" where
  "configure_logging env level dev_format prod_format st =
     (let sinks = stderr_sink env level dev_format prod_format # (if env \<noteq> ''dev'' then [file_sink level prod_format] else [])
      in st\<lparr>ls_sinks := sinks, ls_root_handlers := [Intercept], ls_root_level := 0,
            ls_loggers := (\<lambda>n. if n \<in> set intercept_loggers then Some \<lparr>lg_handlers = [Intercept], lg_propagate = False\<rparr>
                               else ls_loggers st n)\<rparr>)"

section \<open>Forwarding a record\<close>

text \<open>
  \<open>level_of\<close> is loguru's lookup of a level name, which raises \<open>ValueError\<close> on an unknown one. \<open>frames\<close> are
  the file names of the call stack, innermost first: the depth skips the frames of the logging module.
\<close>

datatype forwarded_level = Named string | Numbered nat

fun frame_depth :: "string \<Rightarrow> string list \<Rightarrow> nat \<Rightarrow> nat" where
  "frame_depth logging_file [] depth = depth"
| "frame_depth logging_file (f # fs) depth =
     (if f = logging_file then frame_depth logging_file fs (depth + 1) else depth)"

definition emit :: "(string \<Rightarrow> string option) \<Rightarrow> string \<Rightarrow> string \<Rightarrow> nat \<Rightarrow> string list \<Rightarrow> string \<Rightarrow> forwarded_level \<times> nat \<times> string" where
  "emit level_of logging_file levelname levelno frames message =
     (let level = (case level_of levelname of Some name \<Rightarrow> Named name | None \<Rightarrow> Numbered levelno)
      in (level, frame_depth logging_file frames 2, message))"

section \<open>Where a record goes\<close>

text \<open>The names of the loggers above one, nearest first; \<open>callHandlers\<close> visits those that exist.\<close>

definition parents :: "string \<Rightarrow> string list" where
  "parents n = map (\<lambda>i. take i n) (filter (\<lambda>i. n ! i = CHR ''.'') (rev [0..<length n]))"

fun walk :: "logging_state \<Rightarrow> string list \<Rightarrow> handler list" where
  "walk st [] = ls_root_handlers st"
| "walk st (n # ns) = (case ls_loggers st n of
      None \<Rightarrow> walk st ns
    | Some l \<Rightarrow> lg_handlers l @ (if lg_propagate l then walk st ns else []))"

definition call_handlers :: "logging_state \<Rightarrow> string \<Rightarrow> handler list" where
  "call_handlers st n = walk st (n # parents n)"

lemma frame_depth_eq: "frame_depth f fs d = d + length (takeWhile (\<lambda>x. x = f) fs)"
  by (induction f fs d rule: frame_depth.induct) auto

text \<open>Configuring again, as the API and the worker may, leaves one set of sinks.\<close>

lemma configure_logging_idem:
  "configure_logging env level df pf (configure_logging env' level' df' pf' st) = configure_logging env level df pf st"
  by (simp add: configure_logging_def fun_eq_iff)

lemma file_only_outside_dev:
  "(\<exists>s\<in>set (ls_sinks (configure_logging env level df pf st)). \<exists>f. sk_target s = LogFile f) \<longleftrightarrow> env \<noteq> ''dev''"
  by (auto simp: configure_logging_def stderr_sink_def file_sink_def Let_def)

text \<open>
  Every record reaches the intercept handler exactly once: also a record of a logger below one that
  is intercepted, since those do not propagate, provided no other module attached handlers of its own.
\<close>

lemma walk_once:
  assumes "ls_root_handlers st = [Intercept]"
    and "\<And>n l. ls_loggers st n = Some l \<Longrightarrow> lg_handlers l = [] \<and> lg_propagate l \<or> lg_handlers l = [Intercept] \<and> \<not> lg_propagate l"
  shows "walk st ns = [Intercept]"
  using assms(1) by (induction ns) (auto split: option.splits dest: assms(2))

lemma records_arrive_once:
  assumes "\<And>n l. ls_loggers st n = Some l \<Longrightarrow> n \<notin> set intercept_loggers \<Longrightarrow> lg_handlers l = [] \<and> lg_propagate l"
  shows "call_handlers (configure_logging env level df pf st) n = [Intercept]"
  unfolding call_handlers_def
  by (rule walk_once) (use assms in \<open>auto simp: configure_logging_def Let_def split: if_splits\<close>)

end
