(* ===== verification/Worker_Process.thy ===== *)
theory Worker_Process
  imports Heartbeat Consumer_Properties Logging
begin

text \<open>
  The worker process (\<open>worker/__main__.py\<close>): what happens after the first of its four awaited
  tasks ends. The arguments are how each task ended (a cancelled one is \<open>CancelledTask\<close>), where the
  heartbeat stood when the \<open>finally\<close> block read its flag, the mailer's idle clients with what
  closing one answers, and what closing the push client and the database answers.
\<close>

datatype task_end = ReturnedTask | RaisedTask string | CancelledTask

record waiter_ends =
  we_heartbeat_task :: task_end
  we_consumer_task :: task_end
  we_stop_waiter :: task_end
  we_lease_waiter :: task_end

text \<open>\<open>gather(..., return_exceptions=True)\<close>: every end is a value, none is raised.\<close>

definition gather_ends :: "waiter_ends \<Rightarrow> task_end list" where
  "gather_ends ends = [we_heartbeat_task ends, we_consumer_task ends, we_stop_waiter ends, we_lease_waiter ends]"

datatype process_exit = ExitCode nat | UncaughtException string

definition close_next :: "string option \<Rightarrow> process_exit \<Rightarrow> process_exit" where
  "close_next failure rest = (case failure of Some e \<Rightarrow> UncaughtException e | None \<Rightarrow> rest)"

definition run_worker ::
  "waiter_ends \<Rightarrow> heartbeat_status \<Rightarrow> (smtp_client \<Rightarrow> smtp_exc + unit) \<Rightarrow> smtp_client list \<Rightarrow> string option \<Rightarrow> string option
     \<Rightarrow> process_exit" where
  "run_worker ends hb quit pool pusher_close db_close =
     (let lease_lost = (hb = LeaseLost);
          discarded = gather_ends ends
      in case mailer_aclose quit pool of
           (Inl e, _) \<Rightarrow> UncaughtException ''mailer''
         | (Inr _, _) \<Rightarrow> close_next pusher_close (close_next db_close
             (if lease_lost then ExitCode 1 else ExitCode 0)))"

text \<open>The status an orchestrator sees: Python exits with 1 on an uncaught exception.\<close>

fun exit_status :: "process_exit \<Rightarrow> nat" where
  "exit_status (ExitCode n) = n"
| "exit_status (UncaughtException e) = 1"

text \<open>
  A worker whose database was unreachable for longer than the lease always ends with a failure
  status, whatever else goes wrong while it shuts down.
\<close>

lemma lost_lease_restarts:
  "heartbeat_run hb bs t js = (LeaseLost, js') \<Longrightarrow>
     exit_status (run_worker ends (fst (heartbeat_run hb bs t js)) quit pool pusher_close db_close) = 1"
  by (simp add: run_worker_def Let_def close_next_def split: prod.splits sum.splits option.splits)

text \<open>A consumer that died with an exception is not told apart from a requested stop: status 0.\<close>

lemma mailer_aclose_quiet: "(\<And>c e. quit c \<noteq> Inl (OtherErr e)) \<Longrightarrow> mailer_aclose quit pool = (Inr (), [])"
  by (induction pool) (auto split: sum.splits smtp_exc.splits)

lemma crashed_consumer_exits_zero:
  assumes "\<And>c e. quit c \<noteq> Inl (OtherErr e)"
  shows "run_worker (ends\<lparr>we_consumer_task := RaisedTask m\<rparr>) (Running t) quit pool None None = ExitCode 0"
  by (simp add: run_worker_def Let_def close_next_def mailer_aclose_quiet[OF assms])

section \<open>The life of the process\<close>

text \<open>
  The process from the start of its tasks on. The heartbeat and the consumer run until they end or
  are cancelled; a signal sets \<open>stop\<close>; the heartbeat sets \<open>lease_lost\<close> and returns; the consumer returns
  when it sees one of the two flags. \<open>asyncio.wait\<close> returns once one of the four awaited tasks is
  done, and the \<open>finally\<close> block then cancels and gathers the rest.
\<close>

definition worker_identity :: "string \<Rightarrow> uuid \<Rightarrow> string" where
  "worker_identity hostname token = hostname @ '':'' @ str_uuid token"

record worker_proc =
  wp_heartbeat :: "task_end option"
  wp_consumer :: "task_end option"
  wp_stop :: bool
  wp_lease_lost :: bool
  wp_exit :: "process_exit option"

definition started :: worker_proc where
  "started = \<lparr>wp_heartbeat = None, wp_consumer = None, wp_stop = False, wp_lease_lost = False, wp_exit = None\<rparr>"

definition first_completed :: "worker_proc \<Rightarrow> bool" where
  "first_completed p \<longleftrightarrow> wp_heartbeat p \<noteq> None \<or> wp_consumer p \<noteq> None \<or> wp_stop p \<or> wp_lease_lost p"

definition ended :: "task_end option \<Rightarrow> task_end" where
  "ended t = (case t of None \<Rightarrow> CancelledTask | Some e \<Rightarrow> e)"

definition ends_of :: "worker_proc \<Rightarrow> waiter_ends" where
  "ends_of p = \<lparr>we_heartbeat_task = ended (wp_heartbeat p), we_consumer_task = ended (wp_consumer p),
     we_stop_waiter = (if wp_stop p then ReturnedTask else CancelledTask),
     we_lease_waiter = (if wp_lease_lost p then ReturnedTask else CancelledTask)\<rparr>"

inductive proc_step ::
  "(smtp_client \<Rightarrow> smtp_exc + unit) \<Rightarrow> smtp_client list \<Rightarrow> string option \<Rightarrow> string option \<Rightarrow> worker_proc \<Rightarrow> worker_proc \<Rightarrow> bool"
  for quit pool pusher_close db_close where
  signal: "wp_exit p = None \<Longrightarrow> proc_step quit pool pusher_close db_close p (p\<lparr>wp_stop := True\<rparr>)"
| lease_aborts: "wp_exit p = None \<Longrightarrow> wp_heartbeat p = None \<Longrightarrow>
     proc_step quit pool pusher_close db_close p (p\<lparr>wp_heartbeat := Some ReturnedTask, wp_lease_lost := True\<rparr>)"
| heartbeat_raises: "wp_exit p = None \<Longrightarrow> wp_heartbeat p = None \<Longrightarrow>
     proc_step quit pool pusher_close db_close p (p\<lparr>wp_heartbeat := Some (RaisedTask m)\<rparr>)"
| consumer_returns: "wp_exit p = None \<Longrightarrow> wp_consumer p = None \<Longrightarrow> wp_stop p \<or> wp_lease_lost p \<Longrightarrow>
     proc_step quit pool pusher_close db_close p (p\<lparr>wp_consumer := Some ReturnedTask\<rparr>)"
| consumer_raises: "wp_exit p = None \<Longrightarrow> wp_consumer p = None \<Longrightarrow>
     proc_step quit pool pusher_close db_close p (p\<lparr>wp_consumer := Some (RaisedTask m)\<rparr>)"
| shutdown: "wp_exit p = None \<Longrightarrow> first_completed p \<Longrightarrow>
     proc_step quit pool pusher_close db_close p
       (p\<lparr>wp_exit := Some (run_worker (ends_of p) (if wp_lease_lost p then LeaseLost else Running t) quit pool pusher_close db_close)\<rparr>)"

inductive_cases proc_stepE: "proc_step quit pool pusher_close db_close p p'"

text \<open>Two starts on any two hosts have different identities, so a fence never holds for two processes.\<close>

lemma worker_identity_inj:
  assumes "worker_identity h1 u1 = worker_identity h2 u2"
  shows "u1 = u2"
proof -
  have "(h1 @ '':'') @ str_uuid u1 = (h2 @ '':'') @ str_uuid u2" using assms by (simp add: worker_identity_def)
  then have "str_uuid u1 = str_uuid u2" by (subst (asm) append_eq_append_conv) simp_all
  then show ?thesis by simp
qed

text \<open>
  The heartbeat returns only after it gave its leases up, and the consumer only on one of the flags;
  if the flag of the lost lease was up when the process ended, its status is 1.
\<close>

definition proc_inv :: "worker_proc \<Rightarrow> bool" where
  "proc_inv p \<longleftrightarrow> (wp_heartbeat p = Some ReturnedTask \<longleftrightarrow> wp_lease_lost p)
     \<and> (wp_consumer p = Some ReturnedTask \<longrightarrow> wp_stop p \<or> wp_lease_lost p)
     \<and> (\<forall>x. wp_exit p = Some x \<longrightarrow> first_completed p \<and> (wp_lease_lost p \<longrightarrow> exit_status x = 1))"

lemma run_worker_lost: "exit_status (run_worker ends LeaseLost quit pool pc dc) = 1"
  by (simp add: run_worker_def Let_def close_next_def split: prod.splits sum.splits option.splits)

lemma proc_step_inv: "proc_step quit pool pc dc p p' \<Longrightarrow> proc_inv p \<Longrightarrow> proc_inv p'"
  by (cases rule: proc_step.cases) (auto simp: proc_inv_def first_completed_def run_worker_lost)

lemma proc_reachable_inv: "(proc_step quit pool pc dc)\<^sup>*\<^sup>* started p \<Longrightarrow> proc_inv p"
proof (induction rule: rtranclp_induct)
  case base
  show ?case by (simp add: proc_inv_def started_def)
qed (rule proc_step_inv)

text \<open>A process that should end can: once a flag is set or a task is over, the shutdown is possible.\<close>

lemma shutdown_enabled:
  assumes "wp_exit p = None" "first_completed p"
  shows "\<exists>p'. proc_step quit pool pc dc p p' \<and> wp_exit p' \<noteq> None"
  using proc_step.shutdown[OF assms] by fastforce

lemma exited_is_final: "wp_exit p \<noteq> None \<Longrightarrow> \<not> proc_step quit pool pc dc p p'"
  by (auto elim: proc_stepE)

end
