(* ===== verification/Organizer_Views.thy ===== *)
theory Organizer_Views
  imports Events Sample_Data
begin

text \<open>
  What an organizer reads: the dashboard numbers (\<open>services/stats.py\<close>) and the outbox view
  (\<open>routers/notification_jobs.py\<close>). Both are restricted to the organizer's own events.
\<close>

section \<open>Statistics\<close>

record organizer_stats =
  os_events_total :: nat
  os_events_draft :: nat
  os_events_published :: nat
  os_events_upcoming :: nat
  os_total_capacity :: int
  os_total_confirmed :: nat
  os_total_waitlisted :: nat
  os_new_registrations_7d :: nat

definition new_registration_window :: int where
  "new_registration_window = days 7"

definition own_event :: "uuid \<Rightarrow> event \<Rightarrow> bool" where
  "own_event organizer_id e \<longleftrightarrow> evt_organizer_id e = organizer_id"

text \<open>\<open>event__organizer_id\<close>: the registration joined to its event.\<close>

definition own_registration :: "uuid \<Rightarrow> db \<Rightarrow> registration \<Rightarrow> bool" where
  "own_registration organizer_id d r \<longleftrightarrow> (\<exists>e\<in>set (events d). evt_id e = reg_event_id r \<and> own_event organizer_id e)"

definition sum_published_capacity :: "uuid \<Rightarrow> db \<Rightarrow> int" where
  "sum_published_capacity organizer_id d =
     sum_list (map evt_capacity (filter (\<lambda>e. own_event organizer_id e \<and> evt_status e = Published) (events d)))"

definition compute_organizer_stats :: "user \<Rightarrow> instant \<Rightarrow> db \<Rightarrow> organizer_stats" where
  "compute_organizer_stats organizer now d =
     (let oid = usr_id organizer;
          own = own_event oid;
          own_regs = own_registration oid d
      in \<lparr>os_events_total = count_where own (events d),
          os_events_draft = count_where (\<lambda>e. own e \<and> evt_status e = Draft) (events d),
          os_events_published = count_where (\<lambda>e. own e \<and> evt_status e = Published) (events d),
          os_events_upcoming = count_where (\<lambda>e. own e \<and> evt_status e = Published \<and> now < replace_tzinfo_utc (evt_starts_at e)) (events d),
          os_total_capacity = sum_published_capacity oid d,
          os_total_confirmed = count_where (\<lambda>r. own_regs r \<and> reg_status r = Confirmed) (registrations d),
          os_total_waitlisted = count_where (\<lambda>r. own_regs r \<and> reg_status r = Waitlisted) (registrations d),
          os_new_registrations_7d = count_where (\<lambda>r. own_regs r \<and> reg_status r = Confirmed
             \<and> now - new_registration_window \<le> reg_registered_at r) (registrations d)\<rparr>)"

section \<open>The outbox view\<close>

definition job_not_found :: exc where
  "job_not_found = HTTPException 404 ''notification job not found'' []"

definition own_job :: "user \<Rightarrow> db \<Rightarrow> notification_job \<Rightarrow> bool" where
  "own_job organizer d j = (case job_event_id j of
      None \<Rightarrow> False
    | Some i \<Rightarrow> (\<exists>e\<in>set (events d). evt_id e = i \<and> evt_organizer_id e = usr_id organizer))"

definition list_notification_jobs :: "uuid option \<Rightarrow> nat \<Rightarrow> nat \<Rightarrow> user \<Rightarrow> db \<Rightarrow> notification_job list" where
  "list_notification_jobs event_id limit offset organizer d =
     (let qs = filter (own_job organizer d) (notification_jobs d);
          qs = (case event_id of None \<Rightarrow> qs | Some i \<Rightarrow> filter (\<lambda>j. job_event_id j = Some i) qs)
      in take limit (drop offset (sort_key (\<lambda>j. - job_created_at j) qs)))"

definition get_notification_job :: "uuid \<Rightarrow> user \<Rightarrow> db \<Rightarrow> exc + notification_job" where
  "get_notification_job jid organizer d =
     (case get_or_none (\<lambda>j. job_id j = jid \<and> own_job organizer d j) (notification_jobs d) of
        None \<Rightarrow> Inl job_not_found
      | Some j \<Rightarrow> Inr j)"

section \<open>Lemmas\<close>

lemma count_where_sum:
  assumes "distinct es" "inj_on k (set es)"
  shows "count_where (\<lambda>r. P r \<and> (\<exists>e\<in>set es. k e = f r)) rs = sum_list (map (\<lambda>e. count_where (\<lambda>r. f r = k e \<and> P r) rs) es)"
proof (induction rs)
  case (Cons r rs)
  have "sum_list (map (\<lambda>e. if f r = k e then (1::nat) else 0) es) = (if \<exists>e\<in>set es. k e = f r then 1 else 0)"
    using assms by (induction es) (auto simp: sum_list_0 image_iff inj_on_def)
  then have one: "sum_list (map (\<lambda>e. if f r = k e \<and> P r then (1::nat) else 0) es) = (if P r \<and> (\<exists>e\<in>set es. k e = f r) then 1 else 0)"
    by (cases "P r") simp_all
  have "sum_list (map (\<lambda>e. count_where (\<lambda>r. f r = k e \<and> P r) (r # rs)) es)
      = sum_list (map (\<lambda>e. if f r = k e \<and> P r then 1 else 0) es) + sum_list (map (\<lambda>e. count_where (\<lambda>r. f r = k e \<and> P r) rs) es)"
    by (subst sum_list_addf[symmetric]) (intro arg_cong[where f = sum_list] map_cong refl, simp)
  with one Cons show ?case by simp
qed simp

text \<open>The totals are the sums of the counts of the single events, in whatever status these are.\<close>

lemma stats_are_sums:
  fixes organizer :: user
  assumes "schema_ok d"
  defines "own \<equiv> filter (own_event (usr_id organizer)) (events d)"
  shows "os_total_confirmed (compute_organizer_stats organizer now d) = sum_list (map (\<lambda>e. confirmed_count (evt_id e) d) own)"
    and "os_total_waitlisted (compute_organizer_stats organizer now d) = sum_list (map (\<lambda>e. waitlist_count (evt_id e) d) own)"
proof -
  have d: "distinct (map evt_id (events d))" using schema_ok_D(1)[OF assms(1)] .
  then have own: "distinct own" "inj_on evt_id (set own)"
    by (auto simp: own_def distinct_map inj_on_def)
  have mem: "own_registration (usr_id organizer) d r \<longleftrightarrow> (\<exists>e\<in>set own. evt_id e = reg_event_id r)" for r
    by (auto simp: own_registration_def own_def)
  show "os_total_confirmed (compute_organizer_stats organizer now d) = sum_list (map (\<lambda>e. confirmed_count (evt_id e) d) own)"
    "os_total_waitlisted (compute_organizer_stats organizer now d) = sum_list (map (\<lambda>e. waitlist_count (evt_id e) d) own)"
    using count_where_sum[OF own, of "\<lambda>r. reg_status r = Confirmed" reg_event_id "registrations d"]
      count_where_sum[OF own, of "\<lambda>r. reg_status r = Waitlisted" reg_event_id "registrations d"]
    by (simp_all add: compute_organizer_stats_def Let_def mem confirmed_count_def waitlist_count_def has_status_def[abs_def] conj_commute)
qed

text \<open>
  Registrations of a cancelled event stay confirmed and are counted, its capacity is not: the
  dashboard can show more confirmed seats than capacity although no event is overbooked.
\<close>

lemma stats_count_cancelled_events:
  "\<exists>d. schema_ok d \<and> (\<forall>e\<in>set (events d). int (confirmed_count (evt_id e) d) \<le> evt_capacity e)
     \<and> os_total_capacity (compute_organizer_stats organizer1 0 d) < int (os_total_confirmed (compute_organizer_stats organizer1 0 d))"
proof -
  let ?r = "\<lparr>reg_id = 30, reg_event_id = 10, reg_student_id = 2, reg_status = Confirmed, reg_registered_at = 1, reg_cancelled_at = None\<rparr>"
  let ?d = "sample_db\<lparr>events := [event10\<lparr>evt_status := EventCancelled\<rparr>], registrations := [?r]\<rparr>"
  have "schema_ok ?d" by (simp add: schema_ok_def sample_defs has_event_def has_user_def)
  moreover have "\<forall>e\<in>set (events ?d). int (confirmed_count (evt_id e) ?d) \<le> evt_capacity e"
    by (simp add: confirmed_count_def has_status_def sample_defs)
  moreover have "os_total_capacity (compute_organizer_stats organizer1 0 ?d) < int (os_total_confirmed (compute_organizer_stats organizer1 0 ?d))"
    by (simp add: compute_organizer_stats_def Let_def sum_published_capacity_def own_event_def own_registration_def sample_defs)
  ultimately show ?thesis by blast
qed

text \<open>The detail view opens exactly the jobs the list shows.\<close>

lemma notification_views_agree:
  assumes "distinct (map job_id (notification_jobs d))" "length (notification_jobs d) \<le> limit" "j \<in> set (notification_jobs d)"
  shows "j \<in> set (list_notification_jobs None limit 0 organizer d) \<longleftrightarrow> get_notification_job (job_id j) organizer d = Inr j"
proof -
  have "length (filter (own_job organizer d) (notification_jobs d)) \<le> limit" using assms(2) length_filter_le order_trans by blast
  then have "set (list_notification_jobs None limit 0 organizer d) = set (filter (own_job organizer d) (notification_jobs d))"
    by (simp add: list_notification_jobs_def Let_def)
  moreover have "get_or_none (\<lambda>x. job_id x = job_id j \<and> own_job organizer d x) (notification_jobs d) = Some j" if "own_job organizer d j"
  proof (cases "get_or_none (\<lambda>x. job_id x = job_id j \<and> own_job organizer d x) (notification_jobs d)")
    case None
    with that assms(3) show ?thesis by (auto simp: get_or_none_None)
  next
    case (Some x)
    from get_or_none_Some[OF this] pk_unique[OF assms(1,3), of x] Some show ?thesis by auto
  qed
  ultimately show ?thesis using assms(3)
    by (auto simp: get_notification_job_def split: option.splits dest: get_or_none_Some)
qed

end
