(* ===== verification/Configuration.thy ===== *)
theory Configuration
  imports Auth_Api Delivery
begin

text \<open>
  What the program derives from its settings (\<open>hefest/config.py\<close>): the enabled sign-in providers
  with the endpoints that list them and pick a client (\<open>routers/sso.py\<close>), the check of the worker's
  connection pool and its database URL, and the probes of \<open>hefest/main.py\<close>. The clients of the SSO
  library are represented by the arguments they are constructed with.
\<close>

section \<open>Providers\<close>

record sso_settings =
  ss_google_client_id :: string
  ss_google_client_secret :: string
  ss_google_redirect_uri :: string
  ss_microsoft_client_id :: string
  ss_microsoft_client_secret :: string
  ss_microsoft_tenant :: string
  ss_microsoft_redirect_uri :: string

definition supported_oauth_providers :: "string list" where
  "supported_oauth_providers = [''google'', ''microsoft'']"

definition enabled_oauth_providers :: "sso_settings \<Rightarrow> string list" where
  "enabled_oauth_providers s =
     (if ss_google_client_id s \<noteq> '''' \<and> ss_google_client_secret s \<noteq> '''' \<and> ss_google_redirect_uri s \<noteq> ''''
      then [''google''] else []) @
     (if ss_microsoft_client_id s \<noteq> '''' \<and> ss_microsoft_client_secret s \<noteq> '''' \<and> ss_microsoft_redirect_uri s \<noteq> ''''
         \<and> ss_microsoft_tenant s \<noteq> ''''
      then [''microsoft''] else [])"

record oauth_provider_info =
  op_name :: string
  op_available :: bool
  op_login_url :: "string option"

definition list_providers :: "sso_settings \<Rightarrow> oauth_provider_info list" where
  "list_providers s = map (\<lambda>p. let available = p \<in> set (enabled_oauth_providers s)
      in \<lparr>op_name = p, op_available = available,
          op_login_url = (if available then Some (''/auth/'' @ p @ ''/login'') else None)\<rparr>) supported_oauth_providers"

datatype sso_client = GoogleSSO string string string | MicrosoftSSO string string string string

definition provider_disabled :: "string \<Rightarrow> exc" where
  "provider_disabled provider = HTTPException 404 (provider @ '' SSO is not configured'') [(''X-Error-Code'', ''sso_provider_disabled'')]"

text \<open>The function falls off its end for a provider it does not know, and returns \<open>None\<close>.\<close>

definition get_sso_client :: "sso_settings \<Rightarrow> string \<Rightarrow> exc + sso_client option" where
  "get_sso_client s provider =
     (if provider \<notin> set (enabled_oauth_providers s) then Inl (provider_disabled provider)
      else if provider = ''google''
      then Inr (Some (GoogleSSO (ss_google_client_id s) (ss_google_client_secret s) (ss_google_redirect_uri s)))
      else if provider = ''microsoft''
      then Inr (Some (MicrosoftSSO (ss_microsoft_client_id s) (ss_microsoft_client_secret s) (ss_microsoft_tenant s) (ss_microsoft_redirect_uri s)))
      else Inr None)"

text \<open>Starting a login: the client and the state it is given. \<open>nonce\<close> is the random prefix.\<close>

definition login_redirect :: "sso_settings \<Rightarrow> string \<Rightarrow> refresh_client \<Rightarrow> string \<Rightarrow> exc + sso_client option \<times> string" where
  "login_redirect s provider client nonce = (case get_sso_client s provider of
      Inl ex \<Rightarrow> Inl ex | Inr sso \<Rightarrow> Inr (sso, build_state nonce client))"

definition google_login :: "sso_settings \<Rightarrow> refresh_client \<Rightarrow> string \<Rightarrow> exc + sso_client option \<times> string" where
  "google_login s = login_redirect s ''google''"

definition microsoft_login :: "sso_settings \<Rightarrow> refresh_client \<Rightarrow> string \<Rightarrow> exc + sso_client option \<times> string" where
  "microsoft_login s = login_redirect s ''microsoft''"

text \<open>
  Finishing one: the client is looked up again, then it verifies the answer of the provider
  (\<open>verified\<close>, of the library).
\<close>

definition provider_callback ::
  "sso_settings \<Rightarrow> crypto \<Rightarrow> auth_settings \<Rightarrow> string \<Rightarrow> (sso_client option \<Rightarrow> exc + openid) \<Rightarrow> string option \<Rightarrow>
    uuid \<Rightarrow> uuid \<Rightarrow> string \<Rightarrow> uuid \<Rightarrow> instant \<Rightarrow> db \<Rightarrow> (db, redirect) prog" where
  "provider_callback s cr st provider verified state new_user_id new_identity_id raw new_id now snapshot d =
     (case get_sso_client s provider of
        Inl ex \<Rightarrow> raise ex d
      | Inr sso \<Rightarrow> oauth_callback cr st provider (verified sso) state new_user_id new_identity_id raw new_id now snapshot d)"

definition google_callback where
  "google_callback s cr st = provider_callback s cr st ''google''"

definition microsoft_callback where
  "microsoft_callback s cr st = provider_callback s cr st ''microsoft''"

record providers_response =
  pr_password :: "string \<rightharpoonup> bool"
  pr_providers :: "oauth_provider_info list"

definition providers_response :: "sso_settings \<Rightarrow> providers_response" where
  "providers_response s = \<lparr>pr_password = [''available'' \<mapsto> True], pr_providers = list_providers s\<rparr>"

section \<open>The worker's connection pool\<close>

record pool_settings =
  ps_db_url :: string
  ps_worker_db_pool_size :: int
  ps_worker_send_concurrency :: int

definition worker_db_pool_headroom :: int where
  "worker_db_pool_headroom = 3"

definition validate_worker_pool_headroom :: "pool_settings \<Rightarrow> exc + pool_settings" where
  "validate_worker_pool_headroom s =
     (let required = ps_worker_send_concurrency s + worker_db_pool_headroom
      in if ps_worker_db_pool_size s < required
         then Inl (ValueError (''worker_db_pool_size ('' @ show_int (ps_worker_db_pool_size s) @ '') must be >= worker_send_concurrency ('' @
                show_int (ps_worker_send_concurrency s) @ '') + '' @ show_int worker_db_pool_headroom @ '' headroom (= '' @ show_int required @
                '') for the claim, heartbeat, and reaper queries''))
         else Inr s)"

definition worker_db_url :: "pool_settings \<Rightarrow> string" where
  "worker_db_url s = ps_db_url s @ (if CHR ''?'' \<in> set (ps_db_url s) then ''&'' else ''?'') @
     ''maxsize='' @ show_int (ps_worker_db_pool_size s)"

section \<open>Probes\<close>

datatype probe = Up | Down

definition check_dependency :: "probe \<Rightarrow> string" where
  "check_dependency p = (case p of Up \<Rightarrow> ''ok'' | Down \<Rightarrow> ''down'')"

record ready_response =
  rr_code :: nat
  rr_status :: string
  rr_postgres :: string
  rr_redis :: string

definition ready :: "probe \<Rightarrow> probe \<Rightarrow> ready_response" where
  "ready pg rd =
     (let postgres = check_dependency pg; redis = check_dependency rd;
          ready_ok = (postgres = ''ok'' \<and> redis = ''ok'')
      in \<lparr>rr_code = (if ready_ok then 200 else 503), rr_status = (if ready_ok then ''ok'' else ''degraded''),
          rr_postgres = postgres, rr_redis = redis\<rparr>)"

section \<open>Lemmas\<close>

text \<open>The listing is honest: a login can be started exactly for the providers shown as available.\<close>

lemma providers_are_usable:
  "info \<in> set (list_providers s) \<Longrightarrow> op_available info \<longleftrightarrow> (\<exists>sso. get_sso_client s (op_name info) = Inr (Some sso))"
  by (auto simp: list_providers_def Let_def get_sso_client_def supported_oauth_providers_def)

lemma sso_client_known: "get_sso_client s provider \<noteq> Inr None"
  by (auto simp: get_sso_client_def enabled_oauth_providers_def)

text \<open>The client tag survives the round trip through the provider.\<close>

lemma after_last_append: "c \<notin> set t \<Longrightarrow> after_last c (s @ c # t) = t"
proof -
  assume "c \<notin> set t"
  then have "takeWhile (\<lambda>x. x \<noteq> c) (rev t @ c # rev s) = rev t" by (subst takeWhile_append2) auto
  then show ?thesis by (simp add: after_last_def)
qed

lemma state_round_trip: "client_from_state (Some (build_state nonce client)) = client"
proof -
  have "after_last (CHR '':'') (build_state nonce client) = (case client of Web \<Rightarrow> ''web'' | Mobile \<Rightarrow> ''mobile'')"
    unfolding build_state_def append_Cons append_Nil by (rule after_last_append) (cases client; simp)
  then show ?thesis by (cases client) (simp_all add: client_from_state_def build_state_def)
qed

text \<open>
  In validated settings the pool serves every send at once and the claim, heartbeat and reaper
  statements besides.
\<close>

lemma pool_serves_all:
  assumes "validate_worker_pool_headroom s = Inr s'" "finalizers \<le> ps_worker_send_concurrency s" "others \<le> 3"
  shows "s' = s \<and> finalizers + others \<le> ps_worker_db_pool_size s"
  using assms by (auto simp: validate_worker_pool_headroom_def Let_def worker_db_pool_headroom_def split: if_splits)

lemma ready_iff: "rr_code (ready pg rd) = 200 \<longleftrightarrow> pg = Up \<and> rd = Up"
  by (cases pg; cases rd) (simp_all add: ready_def check_dependency_def Let_def)

end
