(* ===== verification/Endpoints.thy ===== *)
theory Endpoints
  imports Event_Properties Auth_Properties Organizer_Views
begin

text \<open>
  The handlers of \<open>routers/events.py\<close>, \<open>routers/registrations.py\<close> and \<open>routers/stats.py\<close>: the
  authentication and role dependencies in front of the services. FastAPI resolves the dependencies
  before it validates parameters and body, so a request is refused for its credentials first.
  \<open>cred\<close> is what the OAuth2 scheme makes of the Authorization header (the token, or its 401), and
  \<open>seen\<close> is the store the dependency read the user from, which may be older than the one the service
  works on.
\<close>

section \<open>Dependencies\<close>

definition current_user :: "crypto \<Rightarrow> auth_settings \<Rightarrow> exc + string \<Rightarrow> instant \<Rightarrow> db \<Rightarrow> exc + user" where
  "current_user cr st cred now seen = (case cred of
      Inl ex \<Rightarrow> Inl ex
    | Inr token \<Rightarrow> get_current_user cr st token now seen)"

definition require_organizer :: "exc + user \<Rightarrow> exc + user" where
  "require_organizer = require_role [Organizer]"

definition require_student :: "exc + user \<Rightarrow> exc + user" where
  "require_student = require_role [Student]"

definition depends :: "exc + user \<Rightarrow> (user \<Rightarrow> (db, 'a) prog) \<Rightarrow> (db, 'a) prog" where
  "depends dep handler d = (case dep of Inl ex \<Rightarrow> raise ex d | Inr user \<Rightarrow> handler user d)"

definition validated :: "exc + 'b \<Rightarrow> ('b \<Rightarrow> (db, 'a) prog) \<Rightarrow> (db, 'a) prog" where
  "validated body handler d = (case body of Inl ex \<Rightarrow> raise ex d | Inr b \<Rightarrow> handler b d)"

text \<open>\<open>Query(..., ge=lo, le=hi)\<close>.\<close>

definition query_ge :: "int \<Rightarrow> int \<Rightarrow> exc + int" where
  "query_ge lo n = (if n < lo then Inl (ValueError ''greater_than_equal'') else Inr n)"

definition page :: "int \<Rightarrow> int \<Rightarrow> int \<Rightarrow> exc + nat \<times> nat" where
  "page hi limit offset = (case query_ge 1 limit of
      Inl ex \<Rightarrow> Inl ex
    | Inr _ \<Rightarrow> if hi < limit then Inl (ValueError ''less_than_equal'')
               else (case query_ge 0 offset of Inl ex \<Rightarrow> Inl ex | Inr _ \<Rightarrow> Inr (nat limit, nat offset)))"

section \<open>routers/events.py\<close>

definition post_event ::
  "exc + user \<Rightarrow> event_create_request \<Rightarrow> uuid \<Rightarrow> instant \<Rightarrow> (db, event) prog" where
  "post_event caller body new_id now =
     depends (require_organizer caller) (\<lambda>organizer. validated (validate_create body) (\<lambda>b. create_event organizer b new_id now))"

definition get_events :: "exc + user \<Rightarrow> int \<Rightarrow> int \<Rightarrow> (db, (event \<times> nat) list) prog" where
  "get_events caller limit offset =
     depends caller (\<lambda>user. validated (page 500 limit offset) (\<lambda>(l, o'). \<lambda>d. ret (list_events user l o' d) d))"

definition get_event :: "exc + user \<Rightarrow> uuid \<Rightarrow> (db, event_detail_response) prog" where
  "get_event caller event_id = depends caller (\<lambda>user d. (get_event_detail user event_id d, d))"

definition put_event ::
  "int \<Rightarrow> exc + user \<Rightarrow> uuid \<Rightarrow> event_update_request \<Rightarrow> instant \<Rightarrow> db \<Rightarrow> (db, event) prog" where
  "put_event lock_hours caller event_id body now snapshot =
     depends (require_organizer caller) (\<lambda>organizer. validated (validate_update body)
       (\<lambda>b. update_event lock_hours organizer event_id b now snapshot))"

definition post_publish :: "exc + user \<Rightarrow> uuid \<Rightarrow> instant \<Rightarrow> db \<Rightarrow> (db, event) prog" where
  "post_publish caller event_id now snapshot =
     depends (require_organizer caller) (\<lambda>organizer. publish_event organizer event_id now snapshot)"

definition post_cancel ::
  "exc + user \<Rightarrow> uuid \<Rightarrow> (uuid \<Rightarrow> uuid) \<Rightarrow> instant \<Rightarrow> instant \<Rightarrow> instant \<Rightarrow> (db, event) prog" where
  "post_cancel caller event_id new_id now save_now job_now =
     depends (require_organizer caller) (\<lambda>organizer. cancel_event organizer event_id new_id now save_now job_now)"

section \<open>routers/registrations.py\<close>

definition register_for_event ::
  "exc + user \<Rightarrow> uuid \<Rightarrow> uuid \<Rightarrow> uuid \<Rightarrow> instant \<Rightarrow> instant \<Rightarrow> (db, registration_response) prog" where
  "register_for_event caller event_id rid jid t1 t2 =
     depends (require_student caller) (\<lambda>student. register_student student event_id rid jid t1 t2)"

definition my_registrations :: "exc + user \<Rightarrow> (db, my_registration list) prog" where
  "my_registrations caller = depends (require_student caller) (\<lambda>student d. ret (list_my_registrations student d) d)"

definition delete_registration ::
  "exc + user \<Rightarrow> uuid \<Rightarrow> uuid \<Rightarrow> uuid \<Rightarrow> instant \<Rightarrow> instant \<Rightarrow> instant \<Rightarrow> db \<Rightarrow> (db, registration) prog" where
  "delete_registration caller rid pj cj now cnow jnow snapshot =
     depends (require_student caller) (\<lambda>student. cancel_registration student rid pj cj now cnow jnow snapshot)"

definition event_registrations ::
  "exc + user \<Rightarrow> uuid \<Rightarrow> int \<Rightarrow> int \<Rightarrow> (db, registration_summary list) prog" where
  "event_registrations caller event_id limit offset = depends (require_organizer caller) (\<lambda>organizer.
     validated (page 1000 limit offset) (\<lambda>(l, o') d. (list_event_registrations organizer event_id False l o' d, d)))"

definition event_waitlist ::
  "exc + user \<Rightarrow> uuid \<Rightarrow> int \<Rightarrow> int \<Rightarrow> (db, registration_summary list) prog" where
  "event_waitlist caller event_id limit offset = depends (require_organizer caller) (\<lambda>organizer.
     validated (page 1000 limit offset) (\<lambda>(l, o') d. (list_event_registrations organizer event_id True l o' d, d)))"

section \<open>routers/stats.py\<close>

definition get_stats :: "exc + user \<Rightarrow> instant \<Rightarrow> (db, organizer_stats) prog" where
  "get_stats caller now = depends (require_organizer caller) (\<lambda>organizer d. ret (compute_organizer_stats organizer now d) d)"

section \<open>Access control\<close>

lemma depends_writes:
  assumes "snd (depends dep handler d) \<noteq> d"
  obtains u where "dep = Inr u" "snd (handler u d) \<noteq> d"
  using assms by (cases dep) (auto simp: depends_def raise_def)

lemma validated_writes:
  assumes "snd (validated body handler d) \<noteq> d"
  obtains b where "body = Inr b" "snd (handler b d) \<noteq> d"
  using assms by (cases body) (auto simp: validated_def raise_def)

lemma require_role_Inr: "require_role roles c = Inr u \<longleftrightarrow> c = Inr u \<and> usr_role u \<in> set roles"
  by (auto simp: require_role_def split: sum.splits if_splits)

lemma owner_writes:
  "snd (update_event h user i upd now snap d) \<noteq> d \<Longrightarrow> \<exists>ev. event_by_id i snap = Some ev \<and> evt_organizer_id ev = usr_id user"
  "snd (publish_event user i now snap d) \<noteq> d \<Longrightarrow> \<exists>ev. event_by_id i snap = Some ev \<and> evt_organizer_id ev = usr_id user"
  by (auto simp: update_event_def publish_event_def get_owned_draft_def assert_owner_def res_simps split: option.splits if_splits)

lemma cancel_event_writes:
  assumes "snd (cancel_event user i new_id now snow jnow d) \<noteq> d"
  shows "\<exists>ev. event_by_id i d = Some ev \<and> evt_organizer_id ev = usr_id user"
proof -
  obtain res d' where c: "cancel_event user i new_id now snow jnow d = (res, d')" by fastforce
  with assms event_calls_err(4) obtain e where "cancel_event user i new_id now snow jnow d = (Inr e, d')"
    by (cases res) fastforce+
  then show ?thesis by (rule cancel_event_effect) auto
qed

lemma cancel_registration_writes:
  assumes "snd (cancel_registration student rid pj cj now cnow jnow snap d) \<noteq> d"
  shows "\<exists>r\<in>set (registrations snap). reg_id r = rid \<and> reg_student_id r = usr_id student"
proof (cases "get_or_none (\<lambda>r. reg_id r = rid \<and> reg_student_id r = usr_id student) (registrations snap)")
  case None
  with assms show ?thesis by (simp add: cancel_registration_def in_transaction_def raise_def)
next
  case (Some r)
  from get_or_none_Some[OF this] show ?thesis by blast
qed

lemma current_user_Inr: "current_user cr st cred t seen = Inr u \<Longrightarrow> u \<in> set (users seen)"
  by (auto simp: current_user_def get_current_user_def dest: user_by_id_Some split: sum.splits option.splits if_splits)

text \<open>
  C10: Access control of every write of the two routers. A request changes the database only if its
  token is that of an existing account with the role the route asks for; an event is changed only by
  the organizer who owns it, and a registration is cancelled only by the student who holds it. The
  listings behind the organizer role answer nobody else either.
\<close>

theorem only_the_owner_writes:
  assumes "caller = current_user cr st cred t seen"
  shows "(snd (post_event caller body i now d) \<noteq> d \<longrightarrow>
           (\<exists>u\<in>set (users seen). caller = Inr u \<and> usr_role u = Organizer))
     \<and> (snd (put_event h caller i upd now snap d) \<noteq> d \<or> snd (post_publish caller i now snap d) \<noteq> d \<longrightarrow>
           (\<exists>u\<in>set (users seen). \<exists>ev. caller = Inr u \<and> usr_role u = Organizer \<and> event_by_id i snap = Some ev \<and> evt_organizer_id ev = usr_id u))
     \<and> (snd (post_cancel caller i ids now snow jnow d) \<noteq> d \<longrightarrow>
           (\<exists>u\<in>set (users seen). \<exists>ev. caller = Inr u \<and> usr_role u = Organizer \<and> event_by_id i d = Some ev \<and> evt_organizer_id ev = usr_id u))
     \<and> (snd (register_for_event caller i rid jid t1 t2 d) \<noteq> d \<longrightarrow>
           (\<exists>u\<in>set (users seen). caller = Inr u \<and> usr_role u = Student))
     \<and> (snd (delete_registration caller rid pj cj now cnow jnow snap d) \<noteq> d \<longrightarrow>
           (\<exists>u\<in>set (users seen). \<exists>r\<in>set (registrations snap). caller = Inr u \<and> usr_role u = Student \<and> reg_id r = rid \<and> reg_student_id r = usr_id u))
     \<and> (fst (event_registrations caller i limit offset d) = Inr rows \<or> fst (event_waitlist caller i limit offset d) = Inr rows \<longrightarrow>
           (\<exists>u\<in>set (users seen). \<exists>ev. caller = Inr u \<and> usr_role u = Organizer \<and> event_by_id i d = Some ev \<and> evt_organizer_id ev = usr_id u))"
proof -
  have seen: "u \<in> set (users seen)" if "caller = Inr u" for u using current_user_Inr that unfolding assms by blast
  note roles = require_organizer_def require_student_def require_role_Inr
  show ?thesis
  proof (intro conjI impI)
    assume "snd (post_event caller body i now d) \<noteq> d"
    then show "\<exists>u\<in>set (users seen). caller = Inr u \<and> usr_role u = Organizer"
      unfolding post_event_def by (rule depends_writes) (use seen in \<open>auto simp: roles\<close>)
  next
    assume "snd (put_event h caller i upd now snap d) \<noteq> d \<or> snd (post_publish caller i now snap d) \<noteq> d"
    then show "\<exists>u\<in>set (users seen). \<exists>ev. caller = Inr u \<and> usr_role u = Organizer \<and> event_by_id i snap = Some ev \<and> evt_organizer_id ev = usr_id u"
      unfolding put_event_def post_publish_def
      by (elim disjE depends_writes validated_writes) (use seen in \<open>auto simp: roles dest!: owner_writes\<close>)
  next
    assume "snd (post_cancel caller i ids now snow jnow d) \<noteq> d"
    then show "\<exists>u\<in>set (users seen). \<exists>ev. caller = Inr u \<and> usr_role u = Organizer \<and> event_by_id i d = Some ev \<and> evt_organizer_id ev = usr_id u"
      unfolding post_cancel_def by (rule depends_writes) (use seen in \<open>auto simp: roles dest!: cancel_event_writes\<close>)
  next
    assume "snd (register_for_event caller i rid jid t1 t2 d) \<noteq> d"
    then show "\<exists>u\<in>set (users seen). caller = Inr u \<and> usr_role u = Student"
      unfolding register_for_event_def by (rule depends_writes) (use seen in \<open>auto simp: roles\<close>)
  next
    assume "snd (delete_registration caller rid pj cj now cnow jnow snap d) \<noteq> d"
    then show "\<exists>u\<in>set (users seen). \<exists>r\<in>set (registrations snap). caller = Inr u \<and> usr_role u = Student \<and> reg_id r = rid \<and> reg_student_id r = usr_id u"
      unfolding delete_registration_def
      by (rule depends_writes) (use seen in \<open>auto simp: roles dest!: cancel_registration_writes\<close>)
  next
    assume "fst (event_registrations caller i limit offset d) = Inr rows \<or> fst (event_waitlist caller i limit offset d) = Inr rows"
    then show "\<exists>u\<in>set (users seen). \<exists>ev. caller = Inr u \<and> usr_role u = Organizer \<and> event_by_id i d = Some ev \<and> evt_organizer_id ev = usr_id u"
      using seen by (auto simp: event_registrations_def event_waitlist_def depends_def validated_def raise_def roles
          list_event_registrations_def split: sum.splits option.splits if_splits)
  qed
qed

lemma sample_caller:
  assumes "user_by_id (usr_id u) sample_db = Some u"
  shows "current_user sample_crypto sample_auth (Inr (create_access_token sample_crypto sample_auth u 0)) 1 sample_db = Inr u"
proof -
  have "1 < whole_seconds (0 + seconds (as_jwt_expire_minutes sample_auth * 60))"
    by (simp add: sample_auth_def whole_seconds_def seconds_def)
  with assms sample_crypto_laws(1) show ?thesis
    by (simp add: jwt_laws_def current_user_def get_current_user_def create_access_token_def uuid_filter_def uuid_of_str_uuid)
qed

text \<open>The owner's token cancels the sample event; a student's token leaves it alone.\<close>

theorem only_the_owner_writes_witness:
  "(\<exists>u\<in>set (users sample_db). usr_role u = Organizer \<and> usr_id u = 1)
     \<and> snd (post_cancel (current_user sample_crypto sample_auth (Inr (create_access_token sample_crypto sample_auth student2 0)) 1 sample_db)
          10 (\<lambda>i. i) 2 2 2 sample_db) = sample_db"
proof -
  let ?o = "current_user sample_crypto sample_auth (Inr (create_access_token sample_crypto sample_auth organizer1 0)) 1 sample_db"
  let ?s = "current_user sample_crypto sample_auth (Inr (create_access_token sample_crypto sample_auth student2 0)) 1 sample_db"
  have o: "?o = Inr organizer1" and s: "?s = Inr student2" by (rule sample_caller, simp add: sample_defs user_by_id_def)+
  have owner: "\<exists>u\<in>set (users sample_db). c = Inr u \<and> usr_role u = Organizer"
    if "snd (post_cancel c 10 (\<lambda>i. i) 2 2 2 sample_db) \<noteq> sample_db" "c = current_user sample_crypto sample_auth cred 1 sample_db" for c cred
    using only_the_owner_writes[OF that(2), of undefined 10 2 sample_db undefined undefined sample_db "\<lambda>i. i" 2 2] that(1) by blast
  have "snd (post_cancel ?o 10 (\<lambda>i. i) 2 2 2 sample_db) \<noteq> sample_db"
    unfolding o by (simp add: post_cancel_def require_organizer_def depends_def require_role_def cancel_event_def in_transaction_def
        event_by_id_def assert_owner_def active_of_event_def and_then_def ret_def save_event_def Let_def sample_defs)
  from owner[OF this refl] o have "\<exists>u\<in>set (users sample_db). usr_role u = Organizer \<and> usr_id u = 1"
    by (auto simp: sample_defs)
  moreover have "snd (post_cancel ?s 10 (\<lambda>i. i) 2 2 2 sample_db) = sample_db"
    using owner[of ?s, OF _ refl] s by (fastforce simp: student2_def sample_user_def)
  ultimately show ?thesis by blast
qed

end
