(* ===== verification/Account_Properties.thy ===== *)
theory Account_Properties
  imports Auth_Properties
begin

text \<open>
  The life of an account: from registration over the verification link to the first login, what an
  over-long password does, and logging in through an OAuth provider.
\<close>

section \<open>Registration\<close>

lemma register_account_Inr:
  assumes "register_account cr st email pw name salt uid jid now snap d = (Inr out, d')"
  obtains h u where "bcrypt_hashpw cr salt pw = Some h"
    "u = \<lparr>usr_id = uid, usr_email = email, usr_password_hash = Some h, usr_full_name = name, usr_role = Student,
       usr_email_verified_at = None, usr_created_at = now\<rparr>"
    "uid \<notin> usr_id ` set (users d)" "email \<notin> usr_email ` set (users d)"
    "jid \<notin> job_id ` set (notification_jobs d)"
    "idempotency_key uid ''EmailVerify'' \<notin> job_idempotency_key ` set (notification_jobs d)"
    "d' = d\<lparr>users := users d @ [u], notification_jobs := notification_jobs d @
       [new_job jid None ''EmailVerify'' [''student_id'' \<mapsto> JStr (str_uuid uid)] (idempotency_key uid ''EmailVerify'') now]\<rparr>"
    "fits 254 email" "fits 255 name"
proof -
  from assms obtain h where h: "bcrypt_hashpw cr salt pw = Some h"
    by (auto simp: register_account_def and_then_Inr_iff in_transaction_def hash_password_def raise_def
        split: if_splits prod.splits sum.splits option.splits)
  with assms that show thesis
    by (auto simp: register_account_def and_then_Inr_iff in_transaction_def hash_password_def raise_def ret_def create_user_def
        create_job_Inr split: if_splits prod.splits sum.splits)
qed

lemma register_account_err: "register_account cr st email pw name salt uid jid now snap d = (Inl ex, d') \<Longrightarrow> d' = d"
  by (auto simp: register_account_def and_then_def in_transaction_def raise_def ret_def split: if_splits prod.splits sum.splits)

text \<open>
  A password of more than 72 bytes passes the validator and then raises \<open>ValueError\<close>, which no
  handler turns into a response.
\<close>

lemma long_password_is_an_error:
  assumes "bcrypt_laws cr" "72 < length pw" "email \<notin> usr_email ` set (users snap)"
  shows "password_validator pw = Inr pw"
    "register_account cr st email pw name salt uid jid now snap d = (Inl password_too_long, d)"
proof -
  have "bcrypt_hashpw cr salt pw = None" using assms(1,2) by (simp add: bcrypt_laws_def)
  then show "register_account cr st email pw name salt uid jid now snap d = (Inl password_too_long, d)"
    using assms(3) by (simp add: register_account_def and_then_def in_transaction_def hash_password_def)
qed (use assms(2) in \<open>simp add: password_validator_def\<close>)

section \<open>Login\<close>

lemma find_new_user:
  "k u \<notin> k ` set us \<Longrightarrow> get_or_none (\<lambda>x. k x = k u) (us @ [u]) = Some u"
proof -
  assume "k u \<notin> k ` set us"
  then have "get_or_none (\<lambda>x. k x = k u) us = None" unfolding get_or_none_None by (metis image_eqI)
  then show ?thesis by (simp add: get_or_none_append)
qed

lemma login_eval:
  assumes "bcrypt_laws cr" "bcrypt_hashpw cr salt pw = Some h"
    and "get_or_none (\<lambda>x. usr_email x = email) (users d) = Some u" "usr_password_hash u = Some h" "length q \<le> 72"
  shows "login cr st email q client raw i now d =
     (if q \<noteq> pw then (Inl invalid_credentials, d)
      else if usr_email_verified_at u = None then (Inl email_not_verified, d)
      else issue_pair cr st u client raw i now d)"
proof -
  have "bcrypt_checkpw cr q h = Some (q = pw)" using assms(1,2,5) by (simp add: bcrypt_laws_def)
  with assms(3,4) show ?thesis by (simp add: login_def password_matches_def verify_password_def raise_def)
qed



section \<open>OAuth\<close>

definition oauth_ok :: "db \<Rightarrow> bool" where
  "oauth_ok d \<longleftrightarrow> distinct (map usr_id (users d)) \<and> distinct (map usr_email (users d))
     \<and> distinct (map oid_id (oauth_identities d)) \<and> distinct (map (\<lambda>i. (oid_provider i, oid_subject i)) (oauth_identities d))
     \<and> (\<forall>i\<in>set (oauth_identities d). has_user (oid_user_id i) d)"

definition identity_of :: "string \<Rightarrow> string \<Rightarrow> db \<Rightarrow> oauth_identity option" where
  "identity_of provider sub d = get_or_none (\<lambda>i. oid_provider i = provider \<and> oid_subject i = sub) (oauth_identities d)"

text \<open>A callback that succeeds: the identity was known, or it was linked to an account, or both are new.\<close>

lemma oauth_user_cases:
  assumes "find_or_create_oauth_user provider oi uid iid now d d = (Inr u, d')"
  obtains (known) i where "identity_of provider (oi_id oi) d = Some i" "user_by_id (oid_user_id i) d = Some u"
      "d' = d\<lparr>oauth_identities := update_where (\<lambda>x. oid_id x = oid_id i) (\<lambda>x. x\<lparr>oid_email := oi_email oi\<rparr>) (oauth_identities d)\<rparr> \<or> d' = d"
  | (linked) e where "identity_of provider (oi_id oi) d = None" "get_or_none (\<lambda>x. usr_email x = oi_email oi) (users d) = Some e"
      "usr_email_verified_at e \<noteq> None" "u = e"
      "d' = d\<lparr>oauth_identities := oauth_identities d @ [new_identity iid (usr_id e) provider oi now]\<rparr>"
  | (claimed) e upd where "identity_of provider (oi_id oi) d = None" "get_or_none (\<lambda>x. usr_email x = oi_email oi) (users d) = Some e"
      "usr_email_verified_at e = None" "u = upd e"
      "upd = (\<lambda>x. x\<lparr>usr_email_verified_at := Some now, usr_password_hash := None,
         usr_full_name := display_or (oi_display_name oi) (usr_full_name e)\<rparr>)"
      "d' = d\<lparr>users := update_where (\<lambda>x. usr_id x = usr_id e) upd (users d),
           oauth_identities := oauth_identities d @ [new_identity iid (usr_id e) provider oi now]\<rparr>"
  | (created) "identity_of provider (oi_id oi) d = None" "get_or_none (\<lambda>x. usr_email x = oi_email oi) (users d) = None"
      "u = \<lparr>usr_id = uid, usr_email = oi_email oi, usr_password_hash = None, usr_full_name = display_or (oi_display_name oi) '''',
         usr_role = Student, usr_email_verified_at = Some now, usr_created_at = now\<rparr>"
      "uid \<notin> usr_id ` set (users d)"
      "d' = d\<lparr>users := users d @ [u], oauth_identities := oauth_identities d @ [new_identity iid uid provider oi now]\<rparr>"
proof -
  have inner: "oauth_inner provider oi uid iid now d d = (Inr u, d')"
    using assms by (auto simp: find_or_create_oauth_user_def in_transaction_def split: prod.splits sum.splits exc.splits)
  note defs = oauth_inner_def and_then_Inr_iff create_oauth_identity_def create_user_def ret_def raise_def Let_def
    save_user_def new_identity_def
  show thesis
  proof (cases "identity_of provider (oi_id oi) d")
    case (Some i)
    with inner known show ?thesis by (auto simp: identity_of_def defs split: option.splits if_splits)
  next
    case no_id: None
    show ?thesis
    proof (cases "get_or_none (\<lambda>x. usr_email x = oi_email oi) (users d)")
      case found: (Some e)
      show ?thesis
      proof (cases "usr_email_verified_at e")
        case None
        from inner no_id found None claimed[OF no_id found None] show ?thesis
          by (auto simp: identity_of_def defs split: if_splits)
      next
        case (Some t)
        with inner no_id found linked[OF no_id found] show ?thesis by (auto simp: identity_of_def defs split: if_splits)
      qed
    next
      case None
      with inner no_id created show ?thesis by (auto simp: identity_of_def defs split: if_splits)
    qed
  qed
qed

lemma get_or_none_update:
  "(\<And>x. P (f x) = P x) \<Longrightarrow> get_or_none P (update_where Q f xs) = map_option (\<lambda>x. if Q x then f x else x) (get_or_none P xs)"
  by (induction xs) auto

text \<open>After the callback the identity leads to the account it returned.\<close>

lemma oauth_leads_back:
  assumes "find_or_create_oauth_user provider oi uid iid now d d = (Inr u, d')" "oauth_ok d"
  shows "\<exists>i v. identity_of provider (oi_id oi) d' = Some i \<and> user_by_id (oid_user_id i) d' = Some v \<and> usr_id v = usr_id u"
  using assms(1)
proof (cases rule: oauth_user_cases)
  case (known i)
  let ?f = "\<lambda>x. x\<lparr>oid_email := oi_email oi\<rparr>"
  have "identity_of provider (oi_id oi) d' = Some i \<or> identity_of provider (oi_id oi) d' = Some (?f i)"
    using known(1,3) get_or_none_update[of "\<lambda>i :: oauth_identity. oid_provider i = provider \<and> oid_subject i = oi_id oi" ?f] by (auto simp: identity_of_def)
  moreover have "user_by_id j d' = user_by_id j d" for j using known(3) by (auto simp: user_by_id_def)
  ultimately show ?thesis using known(2) by auto
next
  case (linked e)
  have "e \<in> set (users d)" using get_or_none_Some[OF linked(2)] by simp
  then have "user_by_id (usr_id e) d' = Some e"
    using get_or_none_pk[of usr_id "users d" e] assms(2) by (simp add: linked(5) user_by_id_def oauth_ok_def)
  moreover have "identity_of provider (oi_id oi) d' = Some (new_identity iid (usr_id e) provider oi now)"
    using linked(1) by (simp add: identity_of_def linked(5) get_or_none_append new_identity_def)
  ultimately show ?thesis by (simp add: linked(4) new_identity_def)
next
  case (claimed e upd)
  have "e \<in> set (users d)" using get_or_none_Some[OF claimed(2)] by simp
  then have "get_or_none (\<lambda>x. usr_id x = usr_id e) (users d) = Some e"
    using get_or_none_pk[of usr_id "users d" e] assms(2) by (simp add: oauth_ok_def)
  then have "user_by_id (usr_id e) d' = Some u"
    by (simp add: user_by_id_def claimed(6) get_or_none_update claimed(4,5))
  moreover have "identity_of provider (oi_id oi) d' = Some (new_identity iid (usr_id e) provider oi now)"
    using claimed(1) by (simp add: identity_of_def claimed(6) get_or_none_append new_identity_def)
  ultimately show ?thesis by (simp add: claimed(4,5) new_identity_def)
next
  case created
  have "user_by_id uid d' = Some u"
    using find_new_user[of usr_id u "users d"] created(4) by (simp add: user_by_id_def created(3,5))
  moreover have "identity_of provider (oi_id oi) d' = Some (new_identity iid uid provider oi now)"
    using created(1) by (simp add: identity_of_def created(5) get_or_none_append new_identity_def)
  ultimately show ?thesis by (simp add: created(3) new_identity_def)
qed

lemma oauth_known_again:
  assumes "identity_of provider (oi_id oi) d = Some i" "user_by_id (oid_user_id i) d = Some v" "fits 254 (oi_email oi)"
  shows "\<exists>d'. find_or_create_oauth_user provider oi uid iid now d d = (Inr v, d') \<and> users d' = users d
    \<and> length (oauth_identities d') = length (oauth_identities d)"
  using assms by (simp add: find_or_create_oauth_user_def in_transaction_def oauth_inner_def identity_of_def ret_def)

lemma claimed_account_has_no_password:
  assumes "find_or_create_oauth_user provider oi uid iid now d d = (Inr u, d')" "identity_of provider (oi_id oi) d = None"
    and "get_or_none (\<lambda>x. usr_email x = oi_email oi) (users d) = Some e" "usr_email_verified_at e = None"
  shows "usr_id u = usr_id e \<and> login cr st (oi_email oi) q client raw i t d' = (Inl invalid_credentials, d')"
  using assms(1)
proof (cases rule: oauth_user_cases)
  case (claimed e' upd)
  with assms(3) have e: "e' = e" by simp
  have "get_or_none (\<lambda>x. usr_email x = oi_email oi) (users d') = Some u"
    using assms(3) by (simp add: claimed(6) get_or_none_update claimed(4,5) e)
  then show ?thesis by (simp add: login_def password_matches_def raise_def claimed(4,5) e)
qed (use assms in auto)


definition sample_openid :: openid where
  "sample_openid = \<lparr>oi_id = ''g-1'', oi_email = ''new@x'', oi_display_name = Some ''N''\<rparr>"


end
