(* ===== verification/Seeding.thy ===== *)
theory Seeding
  imports Account_Properties
begin

text \<open>
  The developer scripts \<open>scripts/seed.py\<close> and \<open>scripts/seed_events.py\<close>. The rows they write are
  arguments (the texts are in the scripts); salts and new primary keys come with each entry.
\<close>

section \<open>seed.py\<close>

record seed_account =
  sa_email :: string
  sa_password :: string
  sa_full_name :: string
  sa_role :: user_role

text \<open>The accounts of the script; the display names, in Bulgarian, are arguments.\<close>

definition seed_accounts :: "string \<Rightarrow> string \<Rightarrow> seed_account list" where
  "seed_accounts student_name organizer_name =
    [\<lparr>sa_email = ''student@adviz.bg'', sa_password = ''Student!123'', sa_full_name = student_name, sa_role = Student\<rparr>,
     \<lparr>sa_email = ''organizer@adviz.bg'', sa_password = ''Organizer!123'', sa_full_name = organizer_name, sa_role = Organizer\<rparr>]"

definition reset_account :: "seed_account \<Rightarrow> string \<Rightarrow> instant \<Rightarrow> user \<Rightarrow> user" where
  "reset_account a h now u = u\<lparr>usr_password_hash := Some h, usr_full_name := sa_full_name a, usr_role := sa_role a,
     usr_email_verified_at := Some now\<rparr>"

definition seed_one :: "crypto \<Rightarrow> bool \<Rightarrow> instant \<Rightarrow> seed_account \<Rightarrow> string \<Rightarrow> uuid \<Rightarrow> (db, unit) prog" where
  "seed_one cr dry_run now a salt new_id d = (case hash_password cr salt (sa_password a) of
      Inl ex \<Rightarrow> raise ex d
    | Inr h \<Rightarrow>
        if dry_run then ret () d
        else (case get_or_none (\<lambda>u. usr_email u = sa_email a) (users d) of
            Some existing \<Rightarrow> ret () (save_user (usr_id existing) (reset_account a h now) d)
          | None \<Rightarrow> and_then (create_user \<lparr>usr_id = new_id, usr_email = sa_email a, usr_password_hash = Some h,
                usr_full_name = sa_full_name a, usr_role = sa_role a, usr_email_verified_at = Some now, usr_created_at = now\<rparr>)
              (\<lambda>_. ret ()) d))"

fun seed :: "crypto \<Rightarrow> bool \<Rightarrow> instant \<Rightarrow> (seed_account \<times> string \<times> uuid) list \<Rightarrow> (db, unit) prog" where
  "seed cr dry_run now [] d = ret () d"
| "seed cr dry_run now ((a, salt, i) # rest) d = and_then (seed_one cr dry_run now a salt i) (\<lambda>_. seed cr dry_run now rest) d"

section \<open>seed\_events.py\<close>

record seed_event =
  se_title :: string
  se_description :: string
  se_starts_at :: datetime
  se_ends_at :: "datetime option"
  se_location :: string
  se_capacity :: int

definition organizer_email :: string where
  "organizer_email = ''organizer@adviz.bg''"

text \<open>A title is no key: the lookup raises when the organizer has two events of the same title.\<close>

definition seed_event_one :: "bool \<Rightarrow> user \<Rightarrow> instant \<Rightarrow> seed_event \<Rightarrow> uuid \<Rightarrow> (db, unit) prog" where
  "seed_event_one dry_run organizer now data new_id d =
     (case filter (\<lambda>e. evt_organizer_id e = usr_id organizer \<and> evt_title e = se_title data) (events d) of
        [] \<Rightarrow> if dry_run then ret () d
              else and_then (create_event_row \<lparr>evt_id = new_id, evt_organizer_id = usr_id organizer, evt_title = se_title data,
                evt_description = se_description data, evt_starts_at = se_starts_at data, evt_ends_at = se_ends_at data,
                evt_location = se_location data, evt_capacity = se_capacity data, evt_status = Published,
                evt_created_at = now, evt_updated_at = now\<rparr>) (\<lambda>_. ret ()) d
      | [existing] \<Rightarrow> ret () d
      | _ \<Rightarrow> raise MultipleObjectsReturned d)"

fun seed_event_loop :: "bool \<Rightarrow> user \<Rightarrow> instant \<Rightarrow> (seed_event \<times> uuid) list \<Rightarrow> (db, unit) prog" where
  "seed_event_loop dry_run organizer now [] d = ret () d"
| "seed_event_loop dry_run organizer now ((data, i) # rest) d =
     and_then (seed_event_one dry_run organizer now data i) (\<lambda>_. seed_event_loop dry_run organizer now rest) d"

definition seed_events :: "bool \<Rightarrow> instant \<Rightarrow> (seed_event \<times> uuid) list \<Rightarrow> (db, unit) prog" where
  "seed_events dry_run now rows d = (case get_or_none (\<lambda>u. usr_email u = organizer_email) (users d) of
      None \<Rightarrow> ret () d
    | Some organizer \<Rightarrow> seed_event_loop dry_run organizer now rows d)"

text \<open>
  The schedule of the sample rows, relative to the day of the run: start, end and capacity. The
  texts, in Bulgarian, are an argument.
\<close>

definition seed_dt :: "instant \<Rightarrow> int \<Rightarrow> int \<Rightarrow> int \<Rightarrow> datetime" where
  "seed_dt now ds hour minute = Aware (days ((now + days ds) div days 1) + hours hour + seconds (minute * 60))"

definition python_workshop :: "instant \<Rightarrow> datetime \<times> datetime \<times> int" where
  "python_workshop now = (seed_dt now 7 14 0, seed_dt now 7 17 0, 20)"

definition ai_lecture :: "instant \<Rightarrow> datetime \<times> datetime \<times> int" where
  "ai_lecture now = (seed_dt now 14 16 30, seed_dt now 14 18 0, 60)"

definition math_olympiad :: "instant \<Rightarrow> datetime \<times> datetime \<times> int" where
  "math_olympiad now = (seed_dt now 21 8 0, seed_dt now 21 12 0, 45)"

definition hackathon :: "instant \<Rightarrow> datetime \<times> datetime \<times> int" where
  "hackathon now = (seed_dt now 35 9 0, seed_dt now 36 9 0, 40)"

definition abroad_seminar :: "instant \<Rightarrow> datetime \<times> datetime \<times> int" where
  "abroad_seminar now = (seed_dt now 10 17 0, seed_dt now 10 19 0, 10)"

definition seed_schedule :: "instant \<Rightarrow> (datetime \<times> datetime \<times> int) list" where
  "seed_schedule now = map (\<lambda>row. row now) [python_workshop, ai_lecture, math_olympiad, hackathon, abroad_seminar]"

definition seed_rows :: "instant \<Rightarrow> (string \<times> string \<times> string) list \<Rightarrow> seed_event list" where
  "seed_rows now texts = map (\<lambda>((title, description, location), (starts, ends, capacity)).
     \<lparr>se_title = title, se_description = description, se_starts_at = starts, se_ends_at = Some ends,
      se_location = location, se_capacity = capacity\<rparr>) (zip texts (seed_schedule now))"

text \<open>The sample events start after the run, end after they start, and have a capacity the API accepts.\<close>

lemma seed_rows_valid:
  assumes "x \<in> set (seed_rows now texts)"
  shows "\<exists>s e. se_starts_at x = Aware s \<and> se_ends_at x = Some (Aware e) \<and> now < s \<and> s < e \<and> 1 \<le> se_capacity x \<and> int32 (se_capacity x)"
proof -
  have day: "(now + days n) div days 1 = now div days 1 + n" for n
    by (simp add: days_def hours_def seconds_def)
  have now: "now < days (now div days 1) + days 1" by (simp add: days_def hours_def seconds_def)
  from assms have "(se_starts_at x, the (se_ends_at x), se_capacity x) \<in> set (seed_schedule now)" "se_ends_at x \<noteq> None"
    by (auto simp: seed_rows_def dest: set_zip_rightD)
  with now show ?thesis
    by (auto simp: seed_schedule_def python_workshop_def ai_lecture_def math_olympiad_def hackathon_def abroad_seminar_def
        seed_dt_def day int32_def) (simp_all add: days_def hours_def seconds_def)
qed

section \<open>Running the scripts again\<close>

lemma dry_run_writes_nothing:
  "snd (seed cr True now accounts d) = d" "snd (seed_events True now rows d) = d"
proof -
  show "snd (seed cr True now accounts d) = d"
    by (induction accounts arbitrary: d rule: list.induct)
      (auto simp: seed_one_def and_then_def res_simps split: sum.splits prod.splits)
  have "snd (seed_event_loop True u now rows d) = d" for u
    by (induction rows arbitrary: d)
      (auto simp: seed_event_one_def and_then_def res_simps split: sum.splits prod.splits list.splits)
  then show "snd (seed_events True now rows d) = d" by (simp add: seed_events_def res_simps split: option.split)
qed

text \<open>
  A run that succeeds leaves each of its titles exactly once among the organizer's events, so the
  next run finds them all and writes nothing.
\<close>

definition titled :: "user \<Rightarrow> string \<Rightarrow> db \<Rightarrow> event list" where
  "titled u t d = filter (\<lambda>e. evt_organizer_id e = usr_id u \<and> evt_title e = t) (events d)"

lemma seed_event_one_titled:
  assumes "seed_event_one False u now x i d = (Inr (), d')"
  shows "length (titled u (se_title x) d') = 1" "users d' = users d"
    and "length (titled u t d) = 1 \<Longrightarrow> length (titled u t d') = 1"
proof -
  have "d' = d \<and> length (titled u (se_title x) d) = 1
      \<or> (\<exists>e. d' = d\<lparr>events := events d @ [e]\<rparr> \<and> titled u (se_title x) d = [] \<and> evt_title e = se_title x \<and> evt_organizer_id e = usr_id u)"
    using assms by (cases "titled u (se_title x) d" rule: remdups_adj.cases)
      (auto simp: seed_event_one_def titled_def and_then_def create_event_row_def res_simps split: if_splits)
  then show "length (titled u (se_title x) d') = 1" "users d' = users d"
    and "length (titled u t d) = 1 \<Longrightarrow> length (titled u t d') = 1"
    by (auto simp: titled_def)
qed

lemma seed_event_loop_titled:
  assumes "seed_event_loop False u now rows d = (Inr (), d')"
  shows "users d' = users d \<and> (\<forall>t. length (titled u t d) = 1 \<longrightarrow> length (titled u t d') = 1)
     \<and> (\<forall>(x, i)\<in>set rows. length (titled u (se_title x) d') = 1)"
  using assms
proof (induction rows arbitrary: d)
  case (Cons r rows)
  obtain x i where r: "r = (x, i)" by fastforce
  from Cons.prems obtain d1 where d1: "seed_event_one False u now x i d = (Inr (), d1)" and rest: "seed_event_loop False u now rows d1 = (Inr (), d')"
    by (auto simp: r and_then_Inr_iff)
  from Cons.IH[OF rest] seed_event_one_titled[OF d1] show ?case by (simp add: r)
qed (simp add: res_simps)

lemma seed_event_loop_again:
  "\<forall>(x, i)\<in>set rows. length (titled u (se_title x) d) = 1 \<Longrightarrow> seed_event_loop False u now rows d = (Inr (), d)"
proof (induction rows)
  case (Cons r rows)
  obtain x i where r: "r = (x, i)" by fastforce
  with Cons.prems obtain e where "titled u (se_title x) d = [e]" by (auto simp: length_Suc_conv)
  with Cons show ?case by (simp add: r and_then_def seed_event_one_def titled_def res_simps)
qed (simp add: res_simps)

lemma seed_events_again:
  assumes "seed_events False now rows d = (Inr (), d')"
  shows "seed_events False now' rows d' = (Inr (), d')"
proof (cases "get_or_none (\<lambda>u. usr_email u = organizer_email) (users d)")
  case None
  with assms show ?thesis by (simp add: seed_events_def res_simps)
next
  case (Some u)
  with assms have "seed_event_loop False u now rows d = (Inr (), d')" by (simp add: seed_events_def)
  from seed_event_loop_titled[OF this] Some show ?thesis by (simp add: seed_events_def seed_event_loop_again)
qed

text \<open>The organizer of the sample events is one of them; the student could not register with this password.\<close>

lemma seeded_accounts:
  "\<exists>a\<in>set (seed_accounts m n). sa_email a = organizer_email \<and> sa_role a = Organizer \<and> password_validator (sa_password a) = Inr (sa_password a)"
  "\<exists>a\<in>set (seed_accounts m n). sa_role a = Student \<and> (\<forall>v. password_validator (sa_password a) \<noteq> Inr v)"
  by (simp_all add: seed_accounts_def organizer_email_def password_validator_def)

text \<open>A seeded account takes its password, whether it was created or reset.\<close>

lemma seed_one_logs_in:
  assumes "seed_one cr False now a salt i d = (Inr (), d')" "bcrypt_laws cr"
  shows "\<exists>u. get_or_none (\<lambda>u. usr_email u = sa_email a) (users d') = Some u \<and> usr_role u = sa_role a
     \<and> password_matches cr (sa_password a) u = Inr True \<and> usr_email_verified_at u = Some now"
proof -
  obtain h where h: "bcrypt_hashpw cr salt (sa_password a) = Some h"
    using assms(1) by (auto simp: seed_one_def hash_password_def res_simps split: option.splits)
  from assms(2) have laws: "bcrypt_hashpw cr salt p = None \<longleftrightarrow> 72 < length p"
      "bcrypt_hashpw cr salt p = Some h \<Longrightarrow> length q \<le> 72 \<Longrightarrow> bcrypt_checkpw cr q h = Some (q = p)" for p q
    by (simp_all add: bcrypt_laws_def)
  from laws(1)[of "sa_password a"] h laws(2)[OF h, of "sa_password a"]
  have "bcrypt_checkpw cr (sa_password a) h = Some True" by simp
  then have check: "verify_password cr (sa_password a) h = Inr True" by (simp add: verify_password_def)
  show ?thesis
  proof (cases "get_or_none (\<lambda>u. usr_email u = sa_email a) (users d)")
    case None
    then show ?thesis using assms(1) h check
      by (auto simp: seed_one_def hash_password_def and_then_def create_user_def res_simps get_or_none_append password_matches_def
          split: if_splits)
  next
    case (Some e)
    then have "d' = save_user (usr_id e) (reset_account a h now) d"
      using assms(1) h by (simp add: seed_one_def hash_password_def res_simps)
    with Some check show ?thesis
      by (simp add: save_user_def get_or_none_update reset_account_def password_matches_def)
  qed
qed

end
