(* ===== verification/Auth_Requests.thy ===== *)
theory Auth_Requests
  imports Endpoints Account_Properties
begin

text \<open>
  The account routes with what stands in front of their handlers: the request models of
  \<open>schemas/auth.py\<close> with their validators, and the authentication dependency. \<open>email_str\<close> is pydantic's
  \<open>EmailStr\<close>: it returns the normalised address or a validation error. When several fields are wrong
  FastAPI reports all of them; here the first one.
\<close>

section \<open>Request models\<close>

record register_request =
  rgr_email :: string
  rgr_password :: string
  rgr_full_name :: string

record login_request =
  lgr_email :: string
  lgr_password :: string

record change_password_request =
  cpr_current_password :: string
  cpr_new_password :: string

text \<open>The name of a new account is taken as it is; only a later change of the profile validates it.\<close>

definition validate_register :: "(string \<Rightarrow> exc + string) \<Rightarrow> register_request \<Rightarrow> exc + register_request" where
  "validate_register email_str r = (case email_str (rgr_email r) of
      Inl ex \<Rightarrow> Inl ex
    | Inr email \<Rightarrow> (case password_validator (rgr_password r) of
        Inl ex \<Rightarrow> Inl ex
      | Inr p \<Rightarrow> Inr \<lparr>rgr_email = email, rgr_password = p, rgr_full_name = rgr_full_name r\<rparr>))"

definition validate_login :: "(string \<Rightarrow> exc + string) \<Rightarrow> login_request \<Rightarrow> exc + login_request" where
  "validate_login email_str r = (case email_str (lgr_email r) of
      Inl ex \<Rightarrow> Inl ex | Inr email \<Rightarrow> Inr (r\<lparr>lgr_email := email\<rparr>))"

definition validate_change_password :: "change_password_request \<Rightarrow> exc + change_password_request" where
  "validate_change_password r = (case password_validator (cpr_new_password r) of
      Inl ex \<Rightarrow> Inl ex | Inr p \<Rightarrow> Inr (r\<lparr>cpr_new_password := p\<rparr>))"

section \<open>Routes\<close>

definition post_register ::
  "(string \<Rightarrow> exc + string) \<Rightarrow> crypto \<Rightarrow> auth_settings \<Rightarrow> register_request \<Rightarrow> string \<Rightarrow> uuid \<Rightarrow> uuid \<Rightarrow> instant \<Rightarrow> db
     \<Rightarrow> (db, string \<times> string option) prog" where
  "post_register email_str cr st body salt new_user_id new_job_id now snapshot =
     validated (validate_register email_str body) (\<lambda>b.
       register_account cr st (rgr_email b) (rgr_password b) (rgr_full_name b) salt new_user_id new_job_id now snapshot)"

definition post_login ::
  "(string \<Rightarrow> exc + string) \<Rightarrow> crypto \<Rightarrow> auth_settings \<Rightarrow> login_request \<Rightarrow> string option \<Rightarrow> string \<Rightarrow> uuid \<Rightarrow> instant
     \<Rightarrow> (db, token_response) prog" where
  "post_login email_str cr st body x_client_id raw new_id now =
     validated (validate_login email_str body) (\<lambda>b.
       login cr st (lgr_email b) (lgr_password b) (get_refresh_client x_client_id) raw new_id now)"

definition get_users_me :: "exc + user \<Rightarrow> (db, user_me_response) prog" where
  "get_users_me caller = depends caller (\<lambda>user. ret (get_me user))"

definition patch_users_me :: "exc + user \<Rightarrow> string \<Rightarrow> (db, user_me_response) prog" where
  "patch_users_me caller full_name =
     depends caller (\<lambda>user. validated (full_name_validator full_name) (\<lambda>n d.
       case update_me n user d of (me, d') \<Rightarrow> ret me d'))"

definition post_change_password ::
  "crypto \<Rightarrow> auth_settings \<Rightarrow> exc + user \<Rightarrow> change_password_request \<Rightarrow> string \<Rightarrow> instant \<Rightarrow> (db, cookie list) prog" where
  "post_change_password cr st caller body salt now =
     depends caller (\<lambda>user. validated (validate_change_password body) (\<lambda>b.
       change_password cr st (cpr_current_password b) (cpr_new_password b) salt user now))"

section \<open>Boundary inputs\<close>

text \<open>
  A name that does not fit its column passes the request model and then fails in the ORM with an
  error nobody handles; nothing is written. The same name is refused properly on a profile update.
\<close>

lemma long_name_is_an_error:
  assumes "email_str (rgr_email body) = Inr email" "12 \<le> length (rgr_password body)" "255 < length (rgr_full_name body)"
    and "email \<notin> usr_email ` set (users snapshot)" "bcrypt_hashpw cr salt (rgr_password body) = Some h"
  shows "post_register email_str cr st body salt ui ji now snapshot d = (Inl too_long, d)"
  using assms by (simp add: post_register_def validated_def validate_register_def password_validator_def register_account_def
      hash_password_def and_then_def in_transaction_def create_user_def fits_def)

lemma profile_name_fits: "full_name_validator v = Inr n \<Longrightarrow> n \<noteq> '''' \<and> length n \<le> 200"
  by (auto simp: full_name_validator_def Let_def split: if_splits)

end
