(* ===== verification/Devices.thy ===== *)
theory Devices
  imports Consumer_Properties
begin

text \<open>
  Push tokens: \<open>services/device.py\<close>, its endpoints and request schemas. A token is unique in the
  table, so registering a known token binds it to the caller.
\<close>

section \<open>Requests\<close>

definition validate_push_token :: "string \<Rightarrow> exc + string" where
  "validate_push_token t =
     (if length t < 1 then Inl (ValueError ''string_too_short'')
      else if 255 < length t then Inl (ValueError ''string_too_long'') else Inr t)"

section \<open>The service\<close>

definition device_by_token :: "string \<Rightarrow> db \<Rightarrow> device option" where
  "device_by_token t d = get_or_none (\<lambda>x. dev_expo_push_token x = t) (devices d)"

definition create_device :: "device \<Rightarrow> (db, device) prog" where
  "create_device x d =
     (if dev_id x \<in> dev_id ` set (devices d) \<or> dev_expo_push_token x \<in> dev_expo_push_token ` set (devices d)
         \<or> \<not> has_user (dev_user_id x) d
      then (Inl IntegrityError, d)
      else (Inr x, d\<lparr>devices := devices d @ [x]\<rparr>))"

definition rebind :: "user \<Rightarrow> device_platform \<Rightarrow> instant \<Rightarrow> device \<Rightarrow> device" where
  "rebind user platform now x = x\<lparr>dev_user_id := usr_id user, dev_platform := platform, dev_updated_at := now\<rparr>"

text \<open>\<open>Device.update_or_create\<close>, one transaction.\<close>

definition register_device :: "user \<Rightarrow> string \<Rightarrow> device_platform \<Rightarrow> uuid \<Rightarrow> instant \<Rightarrow> (db, device) prog" where
  "register_device user token platform new_id now d =
     (case device_by_token token d of
        Some x \<Rightarrow>
          if has_user (usr_id user) d
          then (Inr (rebind user platform now x),
                d\<lparr>devices := update_where (\<lambda>y. dev_id y = dev_id x) (rebind user platform now) (devices d)\<rparr>)
          else (Inl IntegrityError, d)
      | None \<Rightarrow> create_device \<lparr>dev_id = new_id, dev_user_id = usr_id user, dev_expo_push_token = token,
          dev_platform = platform, dev_created_at = now, dev_updated_at = now\<rparr> d)"

definition unregister_device :: "user \<Rightarrow> string \<Rightarrow> db \<Rightarrow> bool \<times> db" where
  "unregister_device user token d =
     (let own = (\<lambda>x. dev_user_id x = usr_id user \<and> dev_expo_push_token x = token)
      in (count_where own (devices d) \<noteq> 0, d\<lparr>devices := filter (\<lambda>x. \<not> own x) (devices d)\<rparr>))"

section \<open>The endpoints\<close>

definition register_device_endpoint ::
  "string \<Rightarrow> device_platform \<Rightarrow> user \<Rightarrow> uuid \<Rightarrow> instant \<Rightarrow> (db, device) prog" where
  "register_device_endpoint token platform user new_id now d = (case validate_push_token token of
      Inl ex \<Rightarrow> raise ex d
    | Inr t \<Rightarrow> register_device user t platform new_id now d)"

definition unregister_device_endpoint :: "string \<Rightarrow> user \<Rightarrow> (db, unit) prog" where
  "unregister_device_endpoint token user d = (case validate_push_token token of
      Inl ex \<Rightarrow> raise ex d
    | Inr t \<Rightarrow> ret () (snd (unregister_device user t d)))"

section \<open>Lemmas\<close>

definition devices_ok :: "db \<Rightarrow> bool" where
  "devices_ok d \<longleftrightarrow> distinct (map dev_id (devices d)) \<and> distinct (map dev_expo_push_token (devices d))
     \<and> (\<forall>x\<in>set (devices d). has_user (dev_user_id x) d)"

lemma rebind_simps [simp]:
  "dev_id (rebind user platform now x) = dev_id x" "dev_expo_push_token (rebind user platform now x) = dev_expo_push_token x"
  "dev_user_id (rebind user platform now x) = usr_id user"
  by (simp_all add: rebind_def)

lemma has_user_devices [simp]: "has_user i (d\<lparr>devices := ds\<rparr>) = has_user i d"
  by (simp add: has_user_def)

lemma device_by_token_Some: "device_by_token t d = Some x \<Longrightarrow> x \<in> set (devices d) \<and> dev_expo_push_token x = t"
  unfolding device_by_token_def by (drule get_or_none_Some)

lemma register_device_rows:
  assumes "register_device user token platform i now d = (Inr x, d')" "devices_ok d"
  obtains ds where "d' = d\<lparr>devices := ds\<rparr>" "x \<in> set ds" "dev_user_id x = usr_id user" "dev_expo_push_token x = token"
    "filter (\<lambda>y. dev_expo_push_token y \<noteq> token) ds = filter (\<lambda>y. dev_expo_push_token y \<noteq> token) (devices d)"
    "devices_ok d'"
proof (cases "device_by_token token d")
  case None
  with assms show thesis
    by (intro that[of "devices d @ [x]"])
      (auto simp: register_device_def create_device_def devices_ok_def has_user_def split: if_splits)
next
  case (Some y)
  note y = device_by_token_Some[OF Some]
  let ?ds = "update_where (\<lambda>z. dev_id z = dev_id y) (rebind user platform now) (devices d)"
  from Some assms(1) have x: "x = rebind user platform now y" and d': "d' = d\<lparr>devices := ?ds\<rparr>" and u: "has_user (usr_id user) d"
    by (auto simp: register_device_def split: if_splits)
  have same: "z = y" if "z \<in> set (devices d)" "dev_id z = dev_id y" for z
    using pk_unique[of dev_id "devices d" y z] assms(2) y that by (simp add: devices_ok_def)
  have "filter (\<lambda>z. dev_expo_push_token z \<noteq> token) (update_where (\<lambda>z. dev_id z = dev_id y) (rebind user platform now) ds)
      = filter (\<lambda>z. dev_expo_push_token z \<noteq> token) ds" if "set ds \<subseteq> set (devices d)" for ds
    using that same y by (induction ds) auto
  moreover have "map dev_id ?ds = map dev_id (devices d)" "map dev_expo_push_token ?ds = map dev_expo_push_token (devices d)"
    by (rule map_update_where; simp)+
  moreover have "x \<in> set ?ds" using y x by (auto simp: set_update_where image_iff intro!: bexI[where x = y])
  moreover have "\<forall>z\<in>set ?ds. has_user (dev_user_id z) d" using assms(2) u by (auto simp: set_update_where devices_ok_def)
  ultimately show thesis using that[of ?ds] x d' y assms(2) by (simp add: devices_ok_def)
qed

lemma unregister_device_ok: "devices_ok d \<Longrightarrow> devices_ok (snd (unregister_device user token d))"
  by (auto simp: unregister_device_def devices_ok_def Let_def distinct_map_filter)

lemma owner_unique: "devices_ok d \<Longrightarrow> x \<in> set (devices d) \<Longrightarrow> y \<in> set (devices d)
    \<Longrightarrow> dev_expo_push_token y = dev_expo_push_token x \<Longrightarrow> y = x"
  by (metis devices_ok_def pk_unique)

lemma in_push_tokens: "t \<in> set (load_push_tokens user d) \<longleftrightarrow>
    (\<exists>x\<in>set (devices d). dev_user_id x = usr_id user \<and> dev_expo_push_token x = t)"
  by (auto simp: load_push_tokens_def)

section \<open>Property\<close>

text \<open>
  C36: A push token has one owner. Once a device is registered, its token is among the caller's
  push tokens and among nobody else's, whoever had it before, and every other token stays with its
  owner; the caller can remove it again, and nobody else can.
\<close>

theorem push_token_has_one_owner:
  assumes "register_device user token platform i now d = (Inr x, d')" "devices_ok d" "usr_id other \<noteq> usr_id user"
  shows "devices_ok d' \<and> token \<in> set (load_push_tokens user d') \<and> token \<notin> set (load_push_tokens other d')
     \<and> (\<forall>t u. t \<noteq> token \<longrightarrow> (t \<in> set (load_push_tokens u d') \<longleftrightarrow> t \<in> set (load_push_tokens u d)))
     \<and> snd (unregister_device other token d') = d'
     \<and> token \<notin> set (load_push_tokens user (snd (unregister_device user token d')))"
proof -
  obtain ds where ds: "d' = d\<lparr>devices := ds\<rparr>" "x \<in> set ds" "dev_user_id x = usr_id user" "dev_expo_push_token x = token"
    and keep: "filter (\<lambda>y. dev_expo_push_token y \<noteq> token) ds = filter (\<lambda>y. dev_expo_push_token y \<noteq> token) (devices d)"
    and ok: "devices_ok d'" by (rule register_device_rows[OF assms(1,2)])
  have own: "y = x" if "y \<in> set ds" "dev_expo_push_token y = token" for y
    using owner_unique[OF ok, of x y] ds that by simp
  have mem: "y \<in> set ds \<longleftrightarrow> y \<in> set (devices d)" if "dev_expo_push_token y \<noteq> token" for y
    using arg_cong[OF keep, of "\<lambda>l. y \<in> set l"] that by simp
  have 1: "token \<in> set (load_push_tokens user d')" using ds by (auto simp: in_push_tokens)
  have 2: "token \<notin> set (load_push_tokens other d')"
  proof
    assume "token \<in> set (load_push_tokens other d')"
    then obtain y where "y \<in> set ds" "dev_user_id y = usr_id other" "dev_expo_push_token y = token"
      by (auto simp: in_push_tokens ds(1))
    with own ds(3) assms(3) show False by metis
  qed
  have 3: "t \<in> set (load_push_tokens u d') \<longleftrightarrow> t \<in> set (load_push_tokens u d)" if "t \<noteq> token" for t u
    using mem that by (auto simp: in_push_tokens ds(1))
  have "filter (\<lambda>y. \<not> (dev_user_id y = usr_id other \<and> dev_expo_push_token y = token)) ds = ds"
    using own ds(3) assms(3) by (intro filter_True) metis
  then have 4: "snd (unregister_device other token d') = d'" by (simp add: unregister_device_def Let_def ds(1))
  have 5: "token \<notin> set (load_push_tokens user (snd (unregister_device user token d')))"
    by (auto simp: in_push_tokens unregister_device_def Let_def)
  from ok 1 2 3 4 5 show ?thesis by blast
qed

theorem push_token_has_one_owner_witness:
  "\<exists>x d'. register_device student2 ''tok'' Ios 71 9 (sample_db\<lparr>devices := [\<lparr>dev_id = 70, dev_user_id = 3,
       dev_expo_push_token = ''tok'', dev_platform = Android, dev_created_at = 1, dev_updated_at = 1\<rparr>]\<rparr>) = (Inr x, d')
     \<and> load_push_tokens student2 d' = [''tok''] \<and> ''tok'' \<notin> set (load_push_tokens student3 d')"
proof -
  let ?x = "\<lparr>dev_id = 70, dev_user_id = 3, dev_expo_push_token = ''tok'', dev_platform = Android, dev_created_at = 1, dev_updated_at = 1\<rparr>"
  let ?d = "sample_db\<lparr>devices := [?x]\<rparr>"
  let ?d' = "sample_db\<lparr>devices := [rebind student2 Ios 9 ?x]\<rparr>"
  have call: "register_device student2 ''tok'' Ios 71 9 ?d = (Inr (rebind student2 Ios 9 ?x), ?d')"
    by (simp add: register_device_def device_by_token_def has_user_def sample_defs)
  have "devices_ok ?d" by (simp add: devices_ok_def has_user_def sample_defs)
  moreover have "usr_id student3 \<noteq> usr_id student2" by (simp add: sample_defs)
  ultimately have "''tok'' \<notin> set (load_push_tokens student3 ?d')"
    using push_token_has_one_owner[OF call] by blast
  then show ?thesis using call by (auto simp: load_push_tokens_def sample_defs rebind_def)
qed

end
