(* ===== verification/System.thy ===== *)
theory System
  imports Event_Properties Auth_Requests Devices
begin

text \<open>
  The whole application: one step relation over the database for the write requests of the API and
  for the statements of the workers, and the invariant that ties the two sides together. Every job
  the API writes is one the worker can deliver: it names an existing account, an existing event
  when its type needs one, and a type the templates know. This is a typing of the outbox, kept by
  every step.
\<close>

section \<open>Well-typed jobs\<close>

definition job_typed :: "db \<Rightarrow> string \<Rightarrow> payload \<Rightarrow> bool" where
  "job_typed d ty p \<longleftrightarrow> (\<exists>s. p ''student_id'' = Some (JStr (str_uuid s)) \<and> has_user s d
     \<and> (ty = ''EmailVerify'' \<and> p ''event_id'' = None
        \<or> event_scoped ty \<and> (\<exists>e. p ''event_id'' = Some (JStr (str_uuid e)) \<and> has_event e d)))"

definition outbox_typed :: "db \<Rightarrow> bool" where
  "outbox_typed d \<longleftrightarrow> (\<forall>j\<in>set (notification_jobs d). job_typed d (job_event_type j) (job_payload j))"

definition grows :: "db \<Rightarrow> db \<Rightarrow> bool" where
  "grows d d' \<longleftrightarrow> usr_id ` set (users d) \<subseteq> usr_id ` set (users d') \<and> evt_id ` set (events d) \<subseteq> evt_id ` set (events d')"

lemma job_typed_grows: "job_typed d ty p \<Longrightarrow> grows d d' \<Longrightarrow> job_typed d' ty p"
  by (auto simp: job_typed_def grows_def has_user_def has_event_def) blast+

lemma outbox_typed_step:
  assumes "outbox_typed d" "grows d d'"
    and "\<And>j. j \<in> set (notification_jobs d') \<Longrightarrow> (\<exists>x\<in>set (notification_jobs d). job_event_type x = job_event_type j \<and> job_payload x = job_payload j)
           \<or> job_typed d' (job_event_type j) (job_payload j)"
  shows "outbox_typed d'"
  unfolding outbox_typed_def
proof
  fix j assume "j \<in> set (notification_jobs d')"
  from assms(3)[OF this] show "job_typed d' (job_event_type j) (job_payload j)"
    using assms(1,2) job_typed_grows unfolding outbox_typed_def by metis
qed

lemma outbox_typed_append:
  assumes "outbox_typed d" "grows d d'" "notification_jobs d' = notification_jobs d @ new"
    and "\<And>j. j \<in> set new \<Longrightarrow> job_typed d' (job_event_type j) (job_payload j)"
  shows "outbox_typed d'"
proof (rule outbox_typed_step[OF assms(1,2)])
  fix j assume "j \<in> set (notification_jobs d')"
  then have "j \<in> set (notification_jobs d) \<or> j \<in> set new" by (simp add: assms(3))
  with assms(4) show "(\<exists>x\<in>set (notification_jobs d). job_event_type x = job_event_type j \<and> job_payload x = job_payload j)
      \<or> job_typed d' (job_event_type j) (job_payload j)" by blast
qed

text \<open>What a well-typed job means for the worker: lookup and rendering cannot fail.\<close>

lemma typed_job_renders:
  assumes "job_typed d ty p"
  obtains u eo c where "load_recipient p d = Inr \<lparr>rcp_user = u, rcp_event = eo\<rparr>"
    "render_email ty u eo p (if ty = ''EmailVerify'' then Some (link u) else None) = Inr c"
proof -
  from assms obtain s where s: "p ''student_id'' = Some (JStr (str_uuid s))" "has_user s d"
    and alt: "ty = ''EmailVerify'' \<and> p ''event_id'' = None
      \<or> event_scoped ty \<and> (\<exists>e. p ''event_id'' = Some (JStr (str_uuid e)) \<and> has_event e d)"
    unfolding job_typed_def by blast
  obtain u where u: "user_by_id s d = Some u" using s(2) unfolding has_user_iff by blast
  from alt consider "ty = ''EmailVerify''" "p ''event_id'' = None"
    | e where "event_scoped ty" "p ''event_id'' = Some (JStr (str_uuid e))" "has_event e d"
    by (elim disjE exE conjE)
  then show thesis
  proof cases
    case 1
    then show ?thesis using s u that[of u None] by (simp add: load_recipient_def render_email_def)
  next
    case 2
    have "event_by_id e d \<noteq> None" using 2(3) by (auto simp: has_event_def event_by_id_def get_or_none_None)
    then obtain ev where ev: "event_by_id e d = Some ev" by blast
    from render_event_scoped(1)[OF 2(1)] that[of u "Some ev"] load_recipient_ids[OF s(1) 2(2) u ev] show ?thesis by blast
  qed
qed

section \<open>Account operations\<close>

text \<open>
  A preorder on stores that every statement of a program respects is respected by the program. The
  operations of the account endpoints respect \<open>account_write\<close>: they rewrite accounts in place or
  add new ones, and leave events, registrations and the outbox alone.
\<close>

locale write_effect =
  fixes R :: "'s \<Rightarrow> 's \<Rightarrow> bool"
  assumes R_refl: "R s s"
    and R_trans: "R a b \<Longrightarrow> R b c \<Longrightarrow> R a c"
begin

lemma ret_effect: "R s (snd (ret x s))"
  by (simp add: ret_def R_refl)

lemma raise_effect: "R s (snd (raise e s))"
  by (simp add: raise_def R_refl)

lemma and_then_effect:
  assumes "R s (snd (m s))" "\<And>x s'. m s = (Inr x, s') \<Longrightarrow> R s' (snd (k x s'))"
  shows "R s (snd (and_then m k s))"
  using assms R_trans by (fastforce simp: and_then_def split: prod.splits sum.splits)

lemma after_effect:
  "R s s1 \<Longrightarrow> R s1 (snd (m s1)) \<Longrightarrow> (\<And>x s'. R s' (snd (k x s'))) \<Longrightarrow> R s (snd (and_then m k s1))"
  using and_then_effect[of s1 m k] R_trans by blast

lemma in_transaction_effect: "R s (snd (m s)) \<Longrightarrow> R s (snd (in_transaction m s))"
  by (auto simp: in_transaction_def R_refl split: prod.splits sum.splits)

lemmas effects = ret_effect raise_effect and_then_effect in_transaction_effect R_refl

end

text \<open>Every stored text and number fits its column.\<close>

definition user_fits :: "user \<Rightarrow> bool" where
  "user_fits u \<longleftrightarrow> fits 254 (usr_email u) \<and> fits 255 (usr_full_name u)"

definition columns_ok :: "db \<Rightarrow> bool" where
  "columns_ok d \<longleftrightarrow> (\<forall>u\<in>set (users d). user_fits u) \<and> (\<forall>e\<in>set (events d). int32 (evt_capacity e))
     \<and> (\<forall>i\<in>set (oauth_identities d). fits 32 (oid_provider i) \<and> fits 255 (oid_subject i) \<and> fits 254 (oid_email i))
     \<and> (\<forall>x\<in>set (devices d). fits 255 (dev_expo_push_token x))"

definition account_write :: "db \<Rightarrow> db \<Rightarrow> bool" where
  "account_write d d' \<longleftrightarrow> events d' = events d \<and> registrations d' = registrations d \<and> notification_jobs d' = notification_jobs d
     \<and> usr_id ` set (users d) \<subseteq> usr_id ` set (users d')
     \<and> (distinct (map usr_id (users d)) \<and> distinct (map usr_email (users d)) \<longrightarrow>
          distinct (map usr_id (users d')) \<and> distinct (map usr_email (users d')))
     \<and> (columns_ok d \<longrightarrow> columns_ok d')"

interpretation account: write_effect account_write
  by unfold_locales (auto simp: account_write_def)

lemma account_write_users:
  assumes "map usr_id us = map usr_id (users d)" "map usr_email us = map usr_email (users d)"
    and "\<forall>u\<in>set (users d). user_fits u \<Longrightarrow> \<forall>u\<in>set us. user_fits u"
  shows "account_write d (d\<lparr>users := us\<rparr>)"
proof -
  have "usr_id ` set us = usr_id ` set (users d)" using assms(1) by (metis set_map)
  with assms show ?thesis by (simp add: account_write_def columns_ok_def)
qed

lemma save_user_account:
  assumes "\<And>u. usr_id (f u) = usr_id u" "\<And>u. usr_email (f u) = usr_email u" "\<And>u. user_fits u \<Longrightarrow> user_fits (f u)"
  shows "account_write d (save_user i f d)"
  unfolding save_user_def by (rule account_write_users) (use assms in \<open>auto simp: update_where_def\<close>)

lemma statements_account:
  "account_write d (save_tokens P g d)" "account_write d (snd (create_refresh_token t d))"
  "account_write d (snd (create_oauth_identity oi d))" "account_write d (snd (create_user u d))"
  by (auto simp: account_write_def save_tokens_def create_defs columns_ok_def user_fits_def)

lemma identity_email_account:
  "fits 254 email \<Longrightarrow> account_write d (d\<lparr>oauth_identities := update_where P (\<lambda>i. i\<lparr>oid_email := email\<rparr>) (oauth_identities d)\<rparr>)"
  by (auto simp: account_write_def columns_ok_def set_update_where)

lemma device_rows_account:
  "(\<And>x. x \<in> set ds \<Longrightarrow> fits 255 (dev_expo_push_token x) \<or> dev_expo_push_token x \<in> dev_expo_push_token ` set (devices d)) \<Longrightarrow>
     account_write d (d\<lparr>devices := ds\<rparr>)"
  by (fastforce simp: account_write_def columns_ok_def)

lemma issue_refresh_token_account: "account_write d (snd (issue_refresh_token cr st user client raw i now d))"
  unfolding issue_refresh_token_def by (intro account.effects statements_account)

lemma issue_pair_account: "account_write d (snd (issue_pair cr st user client raw i now d))"
  unfolding issue_pair_def by (intro account.effects issue_refresh_token_account)

lemma consume_account: "account_write d (snd (consume_email_verify_token cr token now d))"
  by (auto simp: consume_email_verify_token_def res_simps account.R_refl user_fits_def intro!: save_user_account split: option.splits sum.splits)

lemma verify_email_account: "account_write d (snd (verify_email cr st token client raw i now d))"
proof -
  obtain r d1 where c: "consume_email_verify_token cr token now d = (r, d1)" by fastforce
  then have "account_write d d1" using consume_account[of d cr token now] by simp
  with c issue_pair_account[of d1] account.R_trans show ?thesis
    by (cases r) (auto simp: verify_email_def raise_def split: exc.splits)
qed

lemma login_account: "account_write d (snd (login cr st email p client raw i now d))"
  by (auto simp: login_def res_simps account.R_refl intro!: issue_pair_account split: option.splits sum.splits)

lemma rotate_account: "account_write d (snd (rotate_refresh_token cr st raw client new_raw i now d))"
  unfolding rotate_refresh_token_def Let_def
  by (intro account.in_transaction_effect)
    (auto simp: raise_def account.R_refl statements_account intro!: account.after_effect issue_refresh_token_account
      account.ret_effect split: option.splits)

lemma refresh_account: "account_write d (snd (refresh_tokens_endpoint cr st client ct pl new_raw i now d))"
  using rotate_account[of d cr st "the (presented_token ct pl)" client new_raw i now]
  by (auto simp: refresh_tokens_endpoint_def Let_def res_simps account.R_refl split: prod.splits sum.splits exc.splits)

lemma logout_account: "account_write d (snd (logout cr st ct pl now d))"
  by (simp add: logout_def Let_def revoke_refresh_token_def account.R_refl statements_account)

lemma update_me_account: "fits 255 n \<Longrightarrow> account_write d (snd (update_me n user d))"
  by (auto simp: update_me_def user_fits_def intro!: save_user_account)

lemma patch_users_me_account: "account_write d (snd (patch_users_me caller n d))"
proof (cases "caller")
  case (Inr u)
  show ?thesis
  proof (cases "full_name_validator n")
    case (Inr v)
    then have "fits 255 v" using profile_name_fits by (fastforce simp: fits_def)
    from update_me_account[OF this, of d u] \<open>caller = Inr u\<close> Inr show ?thesis
      by (auto simp: patch_users_me_def depends_def validated_def ret_def split: prod.splits)
  qed (simp add: patch_users_me_def depends_def validated_def raise_def account.R_refl Inr)
qed (simp add: patch_users_me_def depends_def raise_def account.R_refl)

lemma revoke_all_account: "account_write d (snd (revoke_all_for_user i now d))"
  by (auto simp: revoke_all_for_user_def res_simps account.R_refl statements_account split: sum.splits)

lemma change_password_account: "account_write d (snd (change_password cr st cp np salt user now d))"
  by (auto simp: change_password_def raise_def account.R_refl user_fits_def split: sum.splits
      intro!: account.after_effect save_user_account account.ret_effect revoke_all_account)

lemma logout_all_account: "account_write d (snd (logout_all cr st ct a now d))"
  unfolding logout_all_def Let_def
  by (auto intro!: account.effects revoke_all_account simp: res_simps split: option.splits)

lemma oauth_inner_account: "account_write d (snd (oauth_inner provider oi ui ii now snap d))"
  unfolding oauth_inner_def Let_def
  by (auto simp: raise_def ret_def account.R_refl statements_account user_fits_def split: option.splits
      intro!: account.after_effect account.and_then_effect save_user_account identity_email_account)

lemma find_or_create_account: "account_write d (snd (find_or_create_oauth_user provider oi ui ii now snap d))"
  using oauth_inner_account[of d provider oi ui ii now snap] unfolding find_or_create_oauth_user_def
  by (intro account.in_transaction_effect) (auto split: prod.splits sum.splits exc.splits)

lemma oauth_callback_account: "account_write d (snd (oauth_callback cr st provider v state ui ii raw i now snap d))"
  by (auto simp: oauth_callback_def Let_def split: sum.splits
      intro!: account.effects find_or_create_account issue_refresh_token_account)

lemma devices_account:
  "account_write d (snd (register_device_endpoint token platform user i now d))"
  "account_write d (snd (unregister_device_endpoint token user d))"
  by (auto simp: register_device_endpoint_def unregister_device_endpoint_def register_device_def create_device_def
      unregister_device_def Let_def res_simps account.R_refl validate_push_token_def fits_def set_update_where rebind_def
      split: sum.splits option.splits if_splits intro!: device_rows_account)

section \<open>Steps of the application\<close>

text \<open>
  The requests run one after the other (the reads of a registration, of the email check and of an
  OAuth callback may be older), and between any two of them a worker may run one of its statements
  or process one claimed job.
\<close>

inductive system_step :: "crypto \<Rightarrow> auth_settings \<Rightarrow> db \<Rightarrow> db \<Rightarrow> bool" for cr st where
  service: "service_step d d' \<Longrightarrow> system_step cr st d d'"
| sign_up: "register_account cr st email p n salt ui ji now snap d = (res, d') \<Longrightarrow> system_step cr st d d'"
| verify: "verify_email cr st token client raw i now d = (res1, d') \<Longrightarrow> system_step cr st d d'"
| log_in: "login cr st email p client raw i now d = (res2, d') \<Longrightarrow> system_step cr st d d'"
| refresh: "refresh_tokens_endpoint cr st client ct pl new_raw i now d = (res3, d') \<Longrightarrow> system_step cr st d d'"
| log_out: "logout cr st ct pl now d = (res4, d') \<Longrightarrow> system_step cr st d d'"
| rename: "patch_users_me caller n d = (res5, d') \<Longrightarrow> system_step cr st d d'"
| new_password: "change_password cr st cp np salt user now d = (res6, d') \<Longrightarrow> system_step cr st d d'"
| log_out_all: "logout_all cr st ct a now d = (res7, d') \<Longrightarrow> system_step cr st d d'"
| oauth: "oauth_callback cr st provider v state ui ii raw i now snap d = (res8, d') \<Longrightarrow> system_step cr st d d'"
| add_device: "register_device_endpoint token platform user i now d = (res9, d') \<Longrightarrow> system_step cr st d d'"
| drop_device: "unregister_device_endpoint token user d = (res10, d') \<Longrightarrow> system_step cr st d d'"
| claim_jobs: "system_step cr st d (d\<lparr>notification_jobs := snd (claim_batch w n now locked (notification_jobs d))\<rparr>)"
| reap_jobs: "system_step cr st d (d\<lparr>notification_jobs := snd (reap_stale idle n now locked (notification_jobs d))\<rparr>)"
| renew_jobs: "system_step cr st d (d\<lparr>notification_jobs := snd (renew_heartbeat w now (notification_jobs d))\<rparr>)"
| process_job: "process_one cfg env w job d = (res11, d') \<Longrightarrow> system_step cr st d d'"

definition system_ok :: "db \<Rightarrow> bool" where
  "system_ok d \<longleftrightarrow> schema_ok d \<and> (\<forall>j\<in>set (notification_jobs d). job_ok j) \<and> outbox_typed d \<and> columns_ok d"

lemma system_ok_empty: "system_ok empty_db"
  by (simp add: system_ok_def schema_ok_empty outbox_typed_def columns_ok_def) (simp add: empty_db_def)

lemma account_write_ok: "account_write d d' \<Longrightarrow> system_ok d \<Longrightarrow> system_ok d'"
proof -
  assume w: "account_write d d'" and ok: "system_ok d"
  then have "schema_ok d'" by (auto simp: account_write_def system_ok_def schema_ok_def has_user_def has_event_def)
  moreover have "outbox_typed d'"
    using ok w by (intro outbox_typed_append[of d d' "[]"]) (simp_all add: system_ok_def grows_def account_write_def)
  ultimately show ?thesis using w ok by (simp add: system_ok_def account_write_def)
qed

text \<open>The API appends pending, well-typed jobs.\<close>

lemma appended_jobs_ok:
  assumes "system_ok d" "schema_ok d' \<and> columns_ok d'" "grows d d'" "notification_jobs d' = notification_jobs d @ new"
    and "\<And>j. j \<in> set new \<Longrightarrow> job_ok j \<and> job_typed d' (job_event_type j) (job_payload j)"
  shows "system_ok d'"
proof -
  have "outbox_typed d'"
    using assms by (intro outbox_typed_append[of d d' new]) (simp_all add: system_ok_def)
  with assms show ?thesis by (auto simp: system_ok_def)
qed

lemma new_job_ok [simp]: "job_ok (new_job i eo ty p k now)"
  by (simp add: job_ok_def)

lemma cancellation_job_ok: "job_ok (cancellation_job student cj t reg)" "job_ok (promotion_job ev eid pj t n)"
  by (simp_all add: cancellation_job_def promotion_job_def)

lemma event_job_typed:
  "p ''student_id'' = Some (JStr (str_uuid s)) \<Longrightarrow> p ''event_id'' = Some (JStr (str_uuid e)) \<Longrightarrow>
     has_user s d \<Longrightarrow> has_event e d \<Longrightarrow> event_scoped ty \<Longrightarrow> job_typed d ty p"
  unfolding job_typed_def by blast

lemma sign_up_ok:
  assumes "register_account cr st email p n salt ui ji now snap d = (res, d')" "system_ok d"
  shows "system_ok d'"
proof (cases res)
  case (Inl ex)
  with assms have "d' = d"
    by (auto simp: register_account_def and_then_def raise_def ret_def in_transaction_def split: if_splits sum.splits prod.splits)
  with assms show ?thesis by simp
next
  case (Inr out)
  from assms(1)[unfolded Inr] show ?thesis
  proof (rule register_account_Inr)
    fix h u
    assume "u = \<lparr>usr_id = ui, usr_email = email, usr_password_hash = Some h, usr_full_name = n, usr_role = Student,
       usr_email_verified_at = None, usr_created_at = now\<rparr>"
    then have u: "usr_id u = ui" "usr_email u = email" "usr_full_name u = n" by simp_all
    assume name: "fits 254 email" "fits 255 n"
    assume fresh: "ui \<notin> usr_id ` set (users d)" "email \<notin> usr_email ` set (users d)" "ji \<notin> job_id ` set (notification_jobs d)"
      "idempotency_key ui ''EmailVerify'' \<notin> job_idempotency_key ` set (notification_jobs d)"
    assume d': "d' = d\<lparr>users := users d @ [u], notification_jobs := notification_jobs d @
       [new_job ji None ''EmailVerify'' [''student_id'' \<mapsto> JStr (str_uuid ui)] (idempotency_key ui ''EmailVerify'') now]\<rparr>"
    have "schema_ok d'" using assms(2) u fresh by (auto simp: system_ok_def schema_ok_def d' has_user_def has_event_def)
    moreover have "columns_ok d'" using assms(2) u name by (auto simp: system_ok_def columns_ok_def d' user_fits_def)
    ultimately have "schema_ok d' \<and> columns_ok d'" ..
    then show ?thesis by (rule appended_jobs_ok[OF assms(2)]) (auto simp: d' u grows_def job_typed_def has_user_def)
  qed
qed

lemma cancellation_jobs_typed:
  assumes "schema_ok d" "reg \<in> set (registrations d)" "reg_student_id reg = usr_id student"
  shows "job_typed d ''RegistrationCancelled'' (job_payload (cancellation_job student cj t reg))"
    and "promotion_of reg d = Some n \<Longrightarrow> job_typed d ''WaitlistPromoted'' (job_payload (promotion_job ev (reg_event_id reg) pj t n))"
proof -
  have fk: "has_event (reg_event_id r) d \<and> has_user (reg_student_id r) d" if "r \<in> set (registrations d)" for r
    using assms(1) that by (simp add: schema_ok_def)
  show "job_typed d ''RegistrationCancelled'' (job_payload (cancellation_job student cj t reg))"
    using fk[OF assms(2)] assms(3) by (intro event_job_typed[of _ "usr_id student" "reg_event_id reg"])
      (simp_all add: cancellation_job_def event_scoped_def)
  assume "promotion_of reg d = Some n"
  then show "job_typed d ''WaitlistPromoted'' (job_payload (promotion_job ev (reg_event_id reg) pj t n))"
    using fk[OF assms(2)] fk[OF promotion_of_Some(1)] by (intro event_job_typed[of _ "reg_student_id n" "reg_event_id reg"])
      (simp_all add: promotion_job_def event_scoped_def)
qed

lemma event_cancelled_job_typed:
  assumes "schema_ok d" "r \<in> set (active_of_event eid d)"
  shows "job_typed d ''EventCancelled'' (job_payload (event_cancelled_job eid at ids t r))"
  using assms by (intro event_job_typed[of _ "reg_student_id r" eid])
    (auto simp: event_cancelled_job_def event_scoped_def active_of_event_def schema_ok_def)

lemma registration_job_typed:
  assumes "seat_decision ev d0 = (s, ty, pos)" "has_user (reg_student_id r) d" "has_event (reg_event_id r) d"
  shows "job_typed d ty (registration_payload r title pos)"
  using assms(2,3) seat_decision_cases[OF assms(1)] by (intro event_job_typed[of _ "reg_student_id r" "reg_event_id r"])
    (auto simp: registration_payload_def event_scoped_def Let_def split: option.splits)

lemma grows_users_events:
  "users d' = users d \<Longrightarrow> map evt_id (events d') = map evt_id (events d) \<Longrightarrow> grows d d'"
  unfolding grows_def by (metis order_refl set_map)

lemma save_event_columns:
  "columns_ok d \<Longrightarrow> (\<And>e. int32 (evt_capacity e) \<Longrightarrow> int32 (evt_capacity (f e))) \<Longrightarrow> columns_ok (save_event i f d)"
  by (auto simp: save_event_def columns_ok_def set_update_where)

lemma columns_ok_jobs [simp]: "columns_ok (d\<lparr>notification_jobs := js\<rparr>) = columns_ok d"
  by (simp add: columns_ok_def)

lemma service_step_columns:
  assumes "service_step d d'" "schema_ok d" "columns_ok d"
  shows "columns_ok d'"
  using assms(1)
proof (cases rule: service_step_cases)
  case (create organizer data i now e)
  with assms(3) show ?thesis by (auto simp: create_event_def create_event_row_def columns_ok_def split: if_splits)
next
  case (update h user i upd now e)
  with assms(3) show ?thesis
    by (auto simp: update_event_def res_simps save_fields_def split: option.splits sum.splits if_splits intro!: save_event_columns)
next
  case (publish user i now e)
  with assms(3) show ?thesis by (auto simp: publish_event_Inr intro!: save_event_columns)
next
  case (cancel user i new_id now snow jnow e)
  with assms(3) show ?thesis by (elim cancel_event_effect) (auto intro!: save_event_columns)
next
  case (register student eid rid jid t1 t2 resp)
  with assms(3) show ?thesis by (elim register_student_effect) (simp add: columns_ok_def)
next
  case (unregister student rid pj cj now cnow jnow snap c)
  from unregister(1) assms(2) unregister(2) show ?thesis
    by (rule cancel_registration_effect) (use assms(3) in \<open>simp add: columns_ok_def\<close>)
qed (use assms in simp)

lemma service_step_system_ok:
  assumes "service_step d d'" "system_ok d"
  shows "system_ok d'"
proof -
  have ok: "schema_ok d" using assms(2) by (simp add: system_ok_def)
  have ok': "schema_ok d' \<and> columns_ok d'"
    using service_step_schema_ok[OF ok assms(1)] service_step_columns[OF assms(1) ok] assms(2) by (simp add: system_ok_def)
  note append = appended_jobs_ok[OF assms(2) ok']
  from assms(1) show ?thesis
  proof (cases rule: service_step_cases)
    case same
    with assms(2) show ?thesis by simp
  next
    case (create organizer data i now e)
    with create_event_effect(1)[OF create] show ?thesis by (intro append[of "[]"]) (auto simp: grows_def)
  next
    case (update h user i upd now e)
    then show ?thesis
    proof (cases rule: update_event_effect)
      case 1
      with assms(2) show ?thesis by simp
    next
      case (2 obj)
      then show ?thesis by (intro append[of "[]"] grows_users_events) (simp_all add: update_where_def save_fields_def)
    qed
  next
    case (publish user i now e)
    then have "d' = save_event i (\<lambda>e. e\<lparr>evt_status := Published, evt_updated_at := now\<rparr>) d" by (auto simp: publish_event_Inr)
    then show ?thesis by (intro append[of "[]"] grows_users_events) (simp_all add: update_where_def)
  next
    case (cancel user i new_id now snow jnow e)
    then show ?thesis
    proof (cases rule: cancel_event_effect)
      case 1
      with assms(2) show ?thesis by simp
    next
      case (2 ev js)
      have g: "grows d d'" unfolding 2(7) by (intro grows_users_events) (simp_all add: update_where_def)
      show ?thesis
      proof (rule append[OF g])
        show "notification_jobs d' = notification_jobs d @ js" by (simp add: 2(7))
        fix j assume "j \<in> set js"
        then obtain r where "r \<in> set (active_of_event i d)" "j = event_cancelled_job i (isoformat jnow) new_id jnow r"
          by (auto simp: 2(5))
        then show "job_ok j \<and> job_typed d' (job_event_type j) (job_payload j)"
          using job_typed_grows[OF event_cancelled_job_typed[OF ok] g] by (simp add: event_cancelled_job_def)
      qed
    qed
  next
    case (register student eid rid jid t1 t2 resp)
    from register show ?thesis
    proof (rule register_student_effect)
      fix ev s ty pos r j
      assume sd: "seat_decision ev d = (s, ty, pos)" and r: "create_registration r d = (Inr r, d\<lparr>registrations := registrations d @ [r]\<rparr>)"
        and j: "j = new_job jid (Some eid) ty (registration_payload r (evt_title ev) pos) (idempotency_key rid ty) t2"
        and d': "d' = d\<lparr>registrations := registrations d @ [r], notification_jobs := notification_jobs d @ [j]\<rparr>"
      have "has_user (reg_student_id r) d'" "has_event (reg_event_id r) d'" using r by (simp_all add: create_registration_Inr d')
      from registration_job_typed[OF sd this] show ?thesis
        by (intro append[of "[j]"]) (auto simp: d' j grows_def)
    qed
  next
    case (unregister student rid pj cj now cnow jnow snap c)
    from unregister(1) ok unregister(2) show ?thesis
    proof (rule cancel_registration_effect)
      fix reg ev
      assume reg: "reg \<in> set (registrations d)" "reg_student_id reg = usr_id student"
        and d': "d' = d\<lparr>registrations := promoted_rows (promotion_of reg d) (cancelled_rows rid cnow (registrations d)),
           notification_jobs := notification_jobs d
             @ (case promotion_of reg d of None \<Rightarrow> [] | Some n \<Rightarrow> [promotion_job ev (reg_event_id reg) pj jnow n])
             @ [cancellation_job student cj jnow reg]\<rparr>"
      have g: "grows d d'" unfolding d' by (simp add: grows_def)
      note typed = cancellation_jobs_typed[OF ok reg, THEN job_typed_grows[OF _ g]]
      have jobs: "notification_jobs d' = notification_jobs d
             @ (case promotion_of reg d of None \<Rightarrow> [] | Some n \<Rightarrow> [promotion_job ev (reg_event_id reg) pj jnow n])
             @ [cancellation_job student cj jnow reg]" by (simp add: d')
      show ?thesis by (rule append[OF g jobs]) (use typed in \<open>auto simp: cancellation_job_ok split: option.splits\<close>)
    qed
  qed
qed

section \<open>Worker statements\<close>

lemma row_steps_ok:
  assumes "system_ok d" "list_all2 row_step (notification_jobs d) (notification_jobs d')"
    and "users d' = users d" "events d' = events d" "registrations d' = registrations d"
    and "oauth_identities d' = oauth_identities d" "devices d' = devices d"
  shows "system_ok d'"
proof -
  let ?js = "notification_jobs d" and ?js' = "notification_jobs d'"
  have keys: "map job_id ?js' = map job_id ?js \<and> map job_idempotency_key ?js' = map job_idempotency_key ?js"
    using assms(2) by (induction rule: list_all2_induct) (auto simp: row_step_def)
  have row: "\<exists>j\<in>set ?js. row_step j j'" if "j' \<in> set ?js'" for j'
    using assms(2) that by (metis in_set_conv_nth list_all2_conv_all_nth)
  have "schema_ok d'" using assms(1,3-5) keys by (simp add: system_ok_def schema_ok_def has_user_def has_event_def)
  moreover have "\<forall>j\<in>set ?js'. job_ok j" using row assms(1) by (metis system_ok_def row_step_def)
  moreover have "outbox_typed d'"
  proof (rule outbox_typed_step[of d])
    show "outbox_typed d" "grows d d'" using assms(1,3,4) by (simp_all add: system_ok_def grows_def)
    fix j assume "j \<in> set ?js'"
    with row show "(\<exists>x\<in>set ?js. job_event_type x = job_event_type j \<and> job_payload x = job_payload j) \<or> job_typed d' (job_event_type j) (job_payload j)"
      by (metis row_step_def)
  qed
  moreover have "columns_ok d'" using assms(1,3,4,6,7) by (simp add: system_ok_def columns_ok_def)
  ultimately show ?thesis by (simp add: system_ok_def)
qed

lemma finalizer_rows:
  "list_all2 row_step js (snd (mark_completed jid w now js))"
  "list_all2 row_step js (snd (mark_failed m jid w now js))"
  "list_all2 row_step js (snd (mark_retry m delay jid w now js))"
  "list_all2 row_step js (snd (renew_heartbeat w now js))"
  by (auto simp: mark_completed_def mark_failed_def mark_retry_def renew_heartbeat_def intro!: update_where_rows row_finalize)

lemma finalize_system_ok:
  "finalize env mark_completed job w d = (res, d') \<Longrightarrow> system_ok d \<Longrightarrow> system_ok d'"
  "finalize env (mark_failed m) job w d = (res, d') \<Longrightarrow> system_ok d \<Longrightarrow> system_ok d'"
  "finalize env (mark_retry m delay) job w d = (res, d') \<Longrightarrow> system_ok d \<Longrightarrow> system_ok d'"
  by (erule completed.finalize_effect failed.finalize_effect retried.finalize_effect,
      (rule row_steps_ok, assumption, simp_all add: finalizer_rows)+)+

lemma process_one_system_ok:
  assumes "process_one cfg env w job d = (res, d')" "system_ok d"
  shows "system_ok d'"
proof (cases "deliver env job d")
  case (Inr rcp)
  have "set (snd (send_to_tokens ts f ds)) \<subseteq> set ds" for ts f and ds :: "device list"
    by (simp add: send_to_tokens_def send_batches_devices(1))
  then have "account_write d (d\<lparr>devices := snd (send_to_tokens ts f (devices d))\<rparr>)" for ts f
    by (intro device_rows_account) blast
  then have "account_write d (send_push env job rcp d)"
    by (auto simp: send_push_def Let_def account.R_refl split: option.splits sum.splits)
  with Inr assms show ?thesis
    by (auto simp: process_one_def dest!: finalize_system_ok(1) intro: account_write_ok)
next
  case (Inl ex)
  with assms show ?thesis
    by (cases ex) (auto simp: process_one_def dest: finalize_system_ok(2,3) split: if_splits)
qed

lemma worker_statements_ok:
  assumes "system_ok d"
  shows "system_ok (d\<lparr>notification_jobs := snd (claim_batch w n now locked (notification_jobs d))\<rparr>)"
    and "system_ok (d\<lparr>notification_jobs := snd (reap_stale idle n now locked (notification_jobs d))\<rparr>)"
    and "system_ok (d\<lparr>notification_jobs := snd (renew_heartbeat w now (notification_jobs d))\<rparr>)"
proof -
  have "distinct (map job_id (notification_jobs d))" using assms by (simp add: system_ok_def schema_ok_def)
  then show "system_ok (d\<lparr>notification_jobs := snd (claim_batch w n now locked (notification_jobs d))\<rparr>)"
    "system_ok (d\<lparr>notification_jobs := snd (reap_stale idle n now locked (notification_jobs d))\<rparr>)"
    "system_ok (d\<lparr>notification_jobs := snd (renew_heartbeat w now (notification_jobs d))\<rparr>)"
    using row_steps_ok[OF assms] claim_rows reap_rows finalizer_rows(4) by simp_all
qed

section \<open>The invariant\<close>

lemma system_step_ok: "system_step cr st d d' \<Longrightarrow> system_ok d \<Longrightarrow> system_ok d'"
proof (induction rule: system_step.induct)
  case (service d d')
  then show ?case by (rule service_step_system_ok)
next
  case (sign_up email p n salt ui ji now snap d res d')
  then show ?case by (rule sign_up_ok)
next
  case (process_job cfg env w job d res11 d')
  then show ?case by (rule process_one_system_ok)
qed (metis account_write_ok snd_conv verify_email_account login_account refresh_account logout_account patch_users_me_account
    change_password_account logout_all_account oauth_callback_account devices_account worker_statements_ok)+

lemma reachable_ok: "(system_step cr st)\<^sup>*\<^sup>* empty_db d \<Longrightarrow> system_ok d"
  by (induction rule: rtranclp_induct) (auto intro: system_ok_empty system_step_ok)

end
