(* ===== verification/Drain_Delivery.thy ===== *)
theory Drain_Delivery
  imports System Wakeup
begin

text \<open>
  The two sides of the outbox together: a worker that drains the outbox of a reachable state, alone
  and with a mail server that accepts, completes every job that is due and every job whose worker
  died. The lemmas follow one iteration of the claim loop through the rows of the table.
\<close>

section \<open>Delivering typed jobs\<close>

lemma typed_deliver:
  assumes "job_typed d (cj_event_type c) (cj_payload c)"
  obtains rcp m where "deliver env c d = (case we_send env c m (usr_email (rcp_user rcp)) of Inl ex \<Rightarrow> Inl ex | Inr _ \<Rightarrow> Inr rcp)"
proof -
  from assms obtain u eo m where "load_recipient (cj_payload c) d = Inr \<lparr>rcp_user = u, rcp_event = eo\<rparr>"
    "render_email (cj_event_type c) u eo (cj_payload c) (if cj_event_type c = ''EmailVerify'' then Some (we_verify_link env u) else None) = Inr m"
    by (rule typed_job_renders[where link = "we_verify_link env"])
  then show thesis
    by (intro that[of "\<lparr>rcp_user = u, rcp_event = eo\<rparr>" m]) (cases "cj_event_type c = ''EmailVerify''"; simp add: deliver_def)
qed

text \<open>The mail server accepts everything and every first commit goes through.\<close>

definition accepting :: "worker_env \<Rightarrow> bool" where
  "accepting env \<longleftrightarrow> (\<forall>c m a. we_send env c m a = Inr ()) \<and> (\<forall>c. we_faults env c 1 = NoFault)"

lemma process_accepted:
  assumes "accepting env" "job_typed d (cj_event_type c) (cj_payload c)"
  shows "\<exists>now d'. process_one cfg env w c d = (Inr (), d') \<and> users d' = users d \<and> events d' = events d
     \<and> notification_jobs d' = update_where (fence (cj_id c) w) (\<lambda>j. j\<lparr>job_status_of := Completed, job_updated_at := now\<rparr>) (notification_jobs d)"
proof -
  obtain rcp m where "deliver env c d = (case we_send env c m (usr_email (rcp_user rcp)) of Inl ex \<Rightarrow> Inl ex | Inr _ \<Rightarrow> Inr rcp)"
    using typed_deliver[OF assms(2)] by blast
  then have del: "deliver env c d = Inr rcp" using assms(1) by (simp add: accepting_def)
  have "we_faults env c 1 = NoFault" using assms(1) by (simp add: accepting_def)
  from finalize_first_commit[OF this, of mark_completed w "send_push env c rcp d"] del show ?thesis
    by (intro exI[of _ "we_clock env c 1"]) (simp add: process_one_def mark_completed_def)
qed

definition same_job :: "notification_job \<Rightarrow> notification_job \<Rightarrow> bool" where
  "same_job x y \<longleftrightarrow> job_id y = job_id x \<and> job_event_type y = job_event_type x \<and> job_payload y = job_payload x"

lemma process_batch_accepted:
  "accepting env \<Longrightarrow> (\<And>c. c \<in> set cs \<Longrightarrow> job_typed d (cj_event_type c) (cj_payload c)) \<Longrightarrow>
     \<exists>d' h. process_batch cfg env w cs d = (Inr (), d') \<and> users d' = users d \<and> events d' = events d
       \<and> notification_jobs d' = map h (notification_jobs d)
       \<and> (\<forall>x. same_job x (h x) \<and> (if fenced_by cs w x then job_status_of (h x) = Completed else h x = x))"
proof (induction cs arbitrary: d)
  case Nil
  then show ?case by (intro exI[of _ d] exI[of _ id]) (simp add: fenced_by_def same_job_def)
next
  case (Cons c cs)
  from process_accepted[OF Cons.prems(1), of d c cfg w] Cons.prems(2) obtain now d1 where one:
    "process_one cfg env w c d = (Inr (), d1)" "users d1 = users d" "events d1 = events d"
    "notification_jobs d1 = update_where (fence (cj_id c) w) (\<lambda>j. j\<lparr>job_status_of := Completed, job_updated_at := now\<rparr>) (notification_jobs d)"
    by auto
  have "job_typed d1 (cj_event_type x) (cj_payload x)" if "x \<in> set cs" for x
    using Cons.prems(2)[of x] that one(2,3) by (simp add: job_typed_def has_user_def has_event_def)
  from Cons.IH[OF Cons.prems(1) this] obtain d' h where rest: "process_batch cfg env w cs d1 = (Inr (), d')"
    "users d' = users d1" "events d' = events d1" "notification_jobs d' = map h (notification_jobs d1)"
    and h: "\<And>x. same_job x (h x)" "\<And>x. if fenced_by cs w x then job_status_of (h x) = Completed else h x = x" by blast
  let ?g = "\<lambda>x. if fence (cj_id c) w x then x\<lparr>job_status_of := Completed, job_updated_at := now\<rparr> else x"
  have "same_job x (h (?g x)) \<and> (if fenced_by (c # cs) w x then job_status_of (h (?g x)) = Completed else h (?g x) = x)" for x
  proof (cases "fence (cj_id c) w x")
    case True
    then have "\<not> fenced_by cs w (?g x)" by (simp add: fenced_by_def fence_def)
    with h(2)[of "?g x"] have "h (?g x) = ?g x" by simp
    with True show ?thesis by (simp add: fenced_by_def same_job_def)
  next
    case False
    then show ?thesis using h[of x] by (simp add: fenced_by_def)
  qed
  moreover have "notification_jobs d' = map (\<lambda>x. h (?g x)) (notification_jobs d)" by (simp add: rest(4) one(4) update_where_def comp_def)
  moreover have "process_batch cfg env w (c # cs) d = (Inr (), d')" by (simp add: one(1) rest(1))
  ultimately show ?case using rest(2,3) one(2,3) by (intro exI[of _ d'] exI[of _ "\<lambda>x. h (?g x)"]) simp
qed

section \<open>One iteration of the claim loop\<close>

text \<open>A row is left as it is, or completed; a finished one is left.\<close>

definition advances :: "notification_job \<Rightarrow> notification_job \<Rightarrow> bool" where
  "advances x y \<longleftrightarrow> same_job x y \<and> (y = x \<or> job_status_of y = Completed \<and> \<not> finished x)"

lemma iteration_delivers:
  assumes ok: "queue_ok (notification_jobs d)" "outbox_typed d" and env: "accepting env"
    and claim: "claim_batch w n now {} (notification_jobs d) = (cs, js1)"
  shows "\<exists>d' h. process_batch cfg env w (sort_key g cs) (d\<lparr>notification_jobs := js1\<rparr>) = (Inr (), d')
     \<and> users d' = users d \<and> events d' = events d \<and> notification_jobs d' = map h (notification_jobs d)
     \<and> (\<forall>x\<in>set (notification_jobs d). advances x (h x)
          \<and> (job_id x \<in> set (claimable now {} n (notification_jobs d)) \<longrightarrow> job_status_of (h x) = Completed))"
proof -
  let ?js = "notification_jobs d"
  let ?ids = "set (claimable now {} n ?js)"
  let ?d1 = "d\<lparr>notification_jobs := js1\<rparr>"
  have dist: "distinct (map job_id ?js)" using ok(1) by (simp add: queue_ok_def)
  have js1: "js1 = map (\<lambda>x. if job_id x \<in> ?ids then stamp_claim w now x else x) ?js"
    and cs: "cs = map claimed_of (filter (\<lambda>x. job_id x \<in> ?ids) js1)"
    using claim by (auto simp: claim_batch_def Let_def update_where_def)
  have "job_typed ?d1 (cj_event_type c) (cj_payload c)" if "c \<in> set (sort_key g cs)" for c
  proof -
    from that obtain x where "x \<in> set ?js" "c = claimed_of (stamp_claim w now x)" by (auto simp: cs js1 split: if_splits)
    with ok(2) show ?thesis by (auto simp: outbox_typed_def claimed_of_def stamp_claim_def job_typed_def has_user_def has_event_def)
  qed
  from process_batch_accepted[OF env this, of "sort_key g cs" cfg w] obtain d' h where
    b: "process_batch cfg env w (sort_key g cs) ?d1 = (Inr (), d')" "users d' = users d" "events d' = events d" "notification_jobs d' = map h js1"
    and h: "\<And>x. same_job x (h x)" "\<And>x. if fenced_by cs w x then job_status_of (h x) = Completed else h x = x"
    unfolding fenced_by_sort by auto
  let ?h = "\<lambda>x. h (if job_id x \<in> ?ids then stamp_claim w now x else x)"
  have "advances x (?h x) \<and> (job_id x \<in> ?ids \<longrightarrow> job_status_of (?h x) = Completed)" if x: "x \<in> set ?js" for x
  proof (cases "job_id x \<in> ?ids")
    case True
    have mem: "claimed_of (stamp_claim w now x) \<in> set cs" using x True by (auto simp: cs js1 image_iff intro!: bexI[where x = x])
    have "fenced_by cs w (stamp_claim w now x)" unfolding fenced_by_def by (intro bexI[OF _ mem]) (simp add: fence_def claimed_of_def)
    with h[of "stamp_claim w now x"] True claimable_due[OF dist x True] show ?thesis
      by (auto simp: advances_def same_job_def stamp_claim_def finished_def due_def)
  next
    case False
    then have "\<not> fenced_by cs w x" by (auto simp: fenced_by_def fence_def cs claimed_of_def)
    with h[of x] False show ?thesis by (simp add: advances_def)
  qed
  moreover have "notification_jobs d' = map ?h ?js" by (simp add: b(4) js1)
  ultimately show ?thesis using b by blast
qed

section \<open>The loops of a worker alone\<close>

text \<open>
  From the instant \<open>t\<close> on, no other transaction holds a row and neither \<open>stop\<close> nor \<open>lease_lost\<close> is
  set.
\<close>

definition undisturbed :: "instant \<Rightarrow> loop_env \<Rightarrow> bool" where
  "undisturbed t lenv \<longleftrightarrow> (\<forall>k. t \<le> le_clock lenv k \<and> le_locked lenv k = {} \<and> \<not> le_halted lenv k)"

lemma due_later: "due t {} x \<Longrightarrow> t \<le> t' \<Longrightarrow> due t' {} x"
  by (auto simp: due_def)

lemma stale_later: "stale idle t {} x \<Longrightarrow> t \<le> t' \<Longrightarrow> stale idle t' {} x"
  by (auto simp: stale_def split: option.splits)

lemma short_claim_all:
  assumes "queue_ok js" "claim_batch w n now {} js = (cs, js1)" "length cs < n" "x \<in> set js" "due now {} x"
  shows "job_id x \<in> set (claimable now {} n js)"
proof (rule ccontr)
  assume "job_id x \<notin> set (claimable now {} n js)"
  with assms(2,4) have "x \<in> set js1" by (auto simp: claim_batch_def Let_def set_update_where)
  from short_claim[OF assms(1-3) this] assms(5) show False by simp
qed

lemma queue_ok_map:
  assumes "queue_ok js" "claim_batch w n now locked js = (cs, js1)" "process_batch cfg env w xs (d\<lparr>notification_jobs := js1\<rparr>) = (r, d2)"
  shows "queue_ok (notification_jobs d2)"
proof -
  have "queue_ok js1" using queue_step_ok[OF assms(1) queue_step.claim] assms(2) by (metis snd_conv)
  with job_lifecycle.run_inv[OF process_batch_steps[OF assms(3)]] show ?thesis by simp
qed

lemma outbox_typed_map:
  assumes "outbox_typed d" "users d2 = users d" "events d2 = events d" "notification_jobs d2 = map h (notification_jobs d)"
    and "\<And>x. x \<in> set (notification_jobs d) \<Longrightarrow> same_job x (h x)"
  shows "outbox_typed d2"
  using assms by (auto simp: outbox_typed_def same_job_def job_typed_def has_user_def has_event_def)

lemma claim_loop_delivers:
  assumes "accepting env" "undisturbed t lenv" "0 < ws_claim_batch_size cfg"
  shows "claim_loop fuel cfg env lenv w k d = Some (r, d') \<Longrightarrow> queue_ok (notification_jobs d) \<Longrightarrow> outbox_typed d \<Longrightarrow>
    r = Inr () \<and> (\<exists>h. notification_jobs d' = map h (notification_jobs d)
      \<and> (\<forall>x\<in>set (notification_jobs d). advances x (h x) \<and> (due t {} x \<longrightarrow> job_status_of (h x) = Completed)))"
proof (induction fuel arbitrary: k d)
  case (Suc fuel)
  let ?now = "le_clock lenv k" and ?n = "ws_claim_batch_size cfg" and ?js = "notification_jobs d"
  have env: "t \<le> ?now" "le_locked lenv k = {}" "\<not> le_halted lenv k" using assms(2) by (simp_all add: undisturbed_def)
  obtain cs js1 where c: "claim_batch w ?n ?now {} ?js = (cs, js1)" by fastforce
  from iteration_delivers[OF Suc.prems(2,3) assms(1) c, of cfg "le_finish lenv k"] obtain d2 h where
    b: "process_batch cfg env w (sort_key (le_finish lenv k) cs) (d\<lparr>notification_jobs := js1\<rparr>) = (Inr (), d2)"
      "users d2 = users d" "events d2 = events d" "notification_jobs d2 = map h ?js"
    and h: "\<And>x. x \<in> set ?js \<Longrightarrow> advances x (h x)"
      "\<And>x. x \<in> set ?js \<Longrightarrow> job_id x \<in> set (claimable ?now {} ?n ?js) \<Longrightarrow> job_status_of (h x) = Completed" by blast
  have all: "job_status_of (h x) = Completed" if "length cs < ?n" "x \<in> set ?js" "due t {} x" for x
    using h(2)[OF that(2) short_claim_all[OF Suc.prems(2) c that(1,2)]] due_later[OF that(3) env(1)] by simp
  show ?case
  proof (cases "length cs < ?n")
    case short: True
    show ?thesis
    proof (cases "cs = []")
      case True
      have "claimable ?now {} ?n ?js = []" using claim_ids[of ?js w ?n ?now "{}"] Suc.prems(2) c True by (simp add: queue_ok_def)
      then have "js1 = ?js" "\<not> due t {} x" if "x \<in> set ?js" for x
        using c short_claim_all[OF Suc.prems(2) c short that] due_later[OF _ env(1)]
        by (auto simp: claim_batch_def Let_def update_where_none)
      moreover have "js1 = ?js" using c \<open>claimable ?now {} ?n ?js = []\<close> by (auto simp: claim_batch_def Let_def update_where_none)
      ultimately show ?thesis using Suc.prems(1) env c True
        by (intro conjI exI[of _ id]) (auto simp: Let_def advances_def same_job_def)
    next
      case False
      with Suc.prems(1) env c b(1) short have "r = Inr ()" "d' = d2" by (simp_all add: Let_def)
      with b(4) h(1) all[OF short] show ?thesis by blast
    qed
  next
    case False
    then have "cs \<noteq> []" using assms(3) by auto
    with Suc.prems(1) env c b(1) False have rest: "claim_loop fuel cfg env lenv w (Suc k) d2 = Some (r, d')" by (simp add: Let_def)
    have ok2: "queue_ok (notification_jobs d2)" by (rule queue_ok_map[OF Suc.prems(2) c b(1)])
    have "outbox_typed d2" using h(1) by (intro outbox_typed_map[OF Suc.prems(3) b(2-4)]) (simp add: advances_def)
    from Suc.IH[OF rest ok2 this] obtain g where r: "r = Inr ()" and g: "notification_jobs d' = map g (notification_jobs d2)"
      "\<And>x. x \<in> set (notification_jobs d2) \<Longrightarrow> advances x (g x) \<and> (due t {} x \<longrightarrow> job_status_of (g x) = Completed)" by blast
    have "advances x (g (h x)) \<and> (due t {} x \<longrightarrow> job_status_of (g (h x)) = Completed)" if x: "x \<in> set ?js" for x
    proof -
      have "h x \<in> set (notification_jobs d2)" using x by (simp add: b(4))
      from g(2)[OF this] h(1)[OF x] show ?thesis by (auto simp: advances_def same_job_def finished_def)
    qed
    then show ?thesis using r by (intro conjI exI[of _ "\<lambda>x. g (h x)"]) (auto simp: g(1) b(4))
  qed
qed simp

text \<open>Reaping releases every stale lease and leaves the other rows.\<close>

definition released :: "notification_job \<Rightarrow> notification_job \<Rightarrow> bool" where
  "released x y \<longleftrightarrow> same_job x y \<and> job_next_attempt_at y = job_next_attempt_at x
     \<and> (y = x \<or> job_status_of x = Processing \<and> job_status_of y = Pending)"

lemma reap_stale_releases:
  assumes "distinct (map job_id js)" "reap_stale idle n now {} js = (reaped, js')"
  shows "\<exists>g. js' = map g js \<and> (\<forall>x\<in>set js. released x (g x) \<and> (reaped < n \<and> stale idle now {} x \<longrightarrow> job_status_of (g x) = Pending))"
proof -
  let ?taken = "take n (filter (stale idle now {}) js)"
  let ?P = "\<lambda>j. job_id j \<in> set (map job_id ?taken)"
  let ?g = "\<lambda>x. if ?P x then x\<lparr>job_status_of := Pending, job_locked_by := None, job_updated_at := now\<rparr> else x"
  have js': "js' = map ?g js" and r: "reaped = count_where ?P js" using assms(2) by (simp_all add: reap_stale_def Let_def update_where_def)
  have "?P x" if "reaped < n" "x \<in> set js" "stale idle now {} x" for x
  proof (rule ccontr)
    assume n: "\<not> ?P x"
    have d: "distinct js" using assms(1) by (simp add: distinct_map)
    then have "length ?taken = card (set ?taken)" by (intro distinct_card[symmetric] distinct_take distinct_filter)
    also have "\<dots> \<le> card (set (filter ?P js))" by (intro card_mono) (auto dest: in_set_takeD)
    also have "\<dots> = reaped" unfolding r count_where_def by (rule distinct_card[OF distinct_filter[OF d]])
    finally have "length ?taken \<le> reaped" .
    with that(1) have "?taken = filter (stale idle now {}) js" by simp
    with that(2,3) n show False by auto
  qed
  moreover have "released x (?g x)" if "x \<in> set js" for x
    using reaped_stale[OF assms(1) that, of n idle now "{}"] by (auto simp: released_def same_job_def stale_def)
  ultimately show ?thesis by (intro exI[of _ ?g]) (auto simp: js')
qed

lemma reap_loop_releases:
  assumes "undisturbed t lenv"
  shows "reap_loop fuel cfg lenv k js = Some (tot, js') \<Longrightarrow> queue_ok js \<Longrightarrow>
    \<exists>g. js' = map g js \<and> (\<forall>x\<in>set js. released x (g x) \<and> (stale (ws_reaper_idle cfg) t {} x \<longrightarrow> job_status_of (g x) = Pending))"
proof (induction fuel arbitrary: k js tot)
  case (Suc fuel)
  have env: "t \<le> le_clock lenv k" "le_locked lenv k = {}" "\<not> le_halted lenv k" using assms by (simp_all add: undisturbed_def)
  obtain reaped js1 where r: "reap_stale (ws_reaper_idle cfg) (ws_reap_batch_size cfg) (le_clock lenv k) {} js = (reaped, js1)" by fastforce
  have ok1: "queue_ok js1" using queue_step_ok[OF Suc.prems(2) queue_step.reap] r by (metis snd_conv)
  have "distinct (map job_id js)" using Suc.prems(2) by (simp add: queue_ok_def)
  from reap_stale_releases[OF this r] obtain g where g: "js1 = map g js" "\<And>x. x \<in> set js \<Longrightarrow> released x (g x)"
    "\<And>x. x \<in> set js \<Longrightarrow> reaped < ws_reap_batch_size cfg \<Longrightarrow> stale (ws_reaper_idle cfg) (le_clock lenv k) {} x \<Longrightarrow> job_status_of (g x) = Pending"
    by blast
  show ?case
  proof (cases "reaped < ws_reap_batch_size cfg")
    case True
    with Suc.prems(1) env r have "js' = js1" by simp
    with g True stale_later[OF _ env(1)] show ?thesis by (intro exI[of _ g]) blast
  next
    case False
    with Suc.prems(1) env r obtain rest where "reap_loop fuel cfg lenv (Suc k) js1 = Some (rest, js')" by auto
    from Suc.IH[OF this ok1] obtain f where f: "js' = map f js1"
      "\<And>x. x \<in> set js1 \<Longrightarrow> released x (f x) \<and> (stale (ws_reaper_idle cfg) t {} x \<longrightarrow> job_status_of (f x) = Pending)" by blast
    have "released x (f (g x)) \<and> (stale (ws_reaper_idle cfg) t {} x \<longrightarrow> job_status_of (f (g x)) = Pending)" if x: "x \<in> set js" for x
    proof -
      have "g x \<in> set js1" using x by (simp add: g(1))
      from f(2)[OF this] g(2)[OF x] show ?thesis by (auto simp: released_def same_job_def)
    qed
    then show ?thesis by (intro exI[of _ "\<lambda>x. f (g x)"]) (auto simp: f(1) g(1))
  qed
qed simp

section \<open>From the outbox to the mailbox\<close>

lemma system_queue_ok: "system_ok d \<Longrightarrow> queue_ok (notification_jobs d)"
  by (simp add: system_ok_def schema_ok_def queue_ok_def)

lemma drain_completes_due:
  assumes "system_ok d" "accepting env" "undisturbed t reap_env" "undisturbed t claim_env"
    and "0 < ws_reap_batch_size cfg" "0 < ws_claim_batch_size cfg" "drain_bound (ws_max_attempts cfg) (notification_jobs d) < fuel"
  shows "\<exists>d'. drain fuel cfg env reap_env claim_env w d = Some (Inr (), d')
     \<and> (\<forall>j\<in>set (notification_jobs d). job_next_attempt_at j \<le> t
          \<and> (job_status_of j = Pending \<or> stale (ws_reaper_idle cfg) t {} j) \<longrightarrow>
        (\<exists>j'\<in>set (notification_jobs d'). same_job j j' \<and> job_status_of j' = Completed))"
proof -
  note ok = assms(1)
  note q = system_queue_ok[OF ok]
  obtain tot js r d' where run: "reap_loop fuel cfg reap_env 0 (notification_jobs d) = Some (tot, js)" "queue_ok js"
    "claim_loop fuel cfg env claim_env w 0 (d\<lparr>notification_jobs := js\<rparr>) = Some (r, d')"
    "drain fuel cfg env reap_env claim_env w d = Some (r, d')"
    by (rule drain_stages[OF q assms(5,7), of reap_env env claim_env w])
  from reap_loop_releases[OF assms(3) run(1) q] obtain g where g: "js = map g (notification_jobs d)"
    "\<And>x. x \<in> set (notification_jobs d) \<Longrightarrow> released x (g x)"
    "\<And>x. x \<in> set (notification_jobs d) \<Longrightarrow> stale (ws_reaper_idle cfg) t {} x \<Longrightarrow> job_status_of (g x) = Pending" by blast
  have "outbox_typed (d\<lparr>notification_jobs := js\<rparr>)"
    by (rule outbox_typed_map[of d _ g]) (use ok g in \<open>auto simp: system_ok_def released_def\<close>)
  from claim_loop_delivers[OF assms(2,4,6) run(3) _ this] run(2) obtain h where r: "r = Inr ()" and h: "notification_jobs d' = map h js"
    "\<And>x. x \<in> set js \<Longrightarrow> advances x (h x) \<and> (due t {} x \<longrightarrow> job_status_of (h x) = Completed)" by auto
  have "\<exists>j'\<in>set (notification_jobs d'). same_job j j' \<and> job_status_of j' = Completed"
    if j: "j \<in> set (notification_jobs d)" "job_next_attempt_at j \<le> t" "job_status_of j = Pending \<or> stale (ws_reaper_idle cfg) t {} j" for j
  proof (rule bexI)
    have gj: "g j \<in> set js" using j(1) by (simp add: g(1))
    then show "h (g j) \<in> set (notification_jobs d')" by (simp add: h(1))
    have "due t {} (g j)" using g(2)[OF j(1)] g(3)[OF j(1)] j(2,3) by (auto simp: due_def released_def)
    with h(2)[OF gj] g(2)[OF j(1)] show "same_job j (h (g j)) \<and> job_status_of (h (g j)) = Completed"
      by (auto simp: advances_def released_def same_job_def)
  qed
  with run(4) r show ?thesis by blast
qed


definition verification_job :: notification_job where
  "verification_job = new_job 91 None ''EmailVerify'' [''student_id'' \<mapsto> JStr (str_uuid 90)] (idempotency_key 90 ''EmailVerify'') 5"

lemma one_registered:
  obtains d where "(system_step sample_crypto sample_auth)\<^sup>*\<^sup>* empty_db d" "notification_jobs d = [verification_job]"
proof -
  obtain d1 where reg: "register_account sample_crypto sample_auth ''new@x'' ''correct horse'' ''N'' ''s'' 90 91 5 empty_db empty_db
      = (Inr (''registered; check your email to verify your account'', None), d1)"
    and jobs: "notification_jobs d1 = [verification_job]"
    by (simp add: register_account_def empty_db_def in_transaction_def and_then_def hash_password_def sample_crypto_def
        create_user_def fits_def create_job_def event_fk_ok_def ret_def sample_auth_def verification_job_def)
  have "system_step sample_crypto sample_auth empty_db d1" by (rule system_step.sign_up[OF reg])
  then have "(system_step sample_crypto sample_auth)\<^sup>*\<^sup>* empty_db d1" by (rule r_into_rtranclp)
  then show thesis using jobs by (rule that)
qed

lemma one_claimed:
  obtains d where "(system_step sample_crypto sample_auth)\<^sup>*\<^sup>* empty_db d" "notification_jobs d = [stamp_claim ''w'' 6 verification_job]"
proof -
  obtain d1 where d1: "(system_step sample_crypto sample_auth)\<^sup>*\<^sup>* empty_db d1" "notification_jobs d1 = [verification_job]"
    by (rule one_registered)
  let ?d = "d1\<lparr>notification_jobs := snd (claim_batch ''w'' 50 6 {} (notification_jobs d1))\<rparr>"
  have "(system_step sample_crypto sample_auth)\<^sup>*\<^sup>* empty_db ?d"
    using d1(1) system_step.claim_jobs by (rule rtranclp.rtrancl_into_rtrancl)
  moreover have "notification_jobs ?d = [stamp_claim ''w'' 6 verification_job]"
    by (simp add: d1(2) verification_job_def claim_batch_def claimable_def due_def Let_def)
  ultimately show thesis by (rule that)
qed


end
