(* ===== verification/Schema.thy ===== *)
theory Schema
  imports Hefest_Prelude "HOL-Library.AList"
begin

text \<open>
  The database schema as data: the fields of a model class, the columns and indexes they stand for,
  the statements the migrations issue, and what a statement does to the catalogue and to the rows of
  a populated database. A statement fails when an object it names is missing or already there, and
  when the rows do not meet a constraint it adds. The second kind of failure depends on the data;
  \<open>safe\<close> is a check of the statement alone that rules it out.
\<close>

named_theorems schema_simps \<open>rewrite rules for catalogues and their contents\<close>

section \<open>Fields and columns\<close>

datatype field_kind =
    UUIDField
  | CharField nat
  | CharEnumField nat
  | TextField
  | IntField
  | DatetimeField
  | JSONField
  | ForeignKeyField string

record model_field =
  mf_name :: string
  mf_source_field :: string
  mf_kind :: field_kind
  mf_null :: bool
  mf_unique :: bool

definition plain :: "string \<Rightarrow> field_kind \<Rightarrow> model_field" where
  "plain n k = \<lparr>mf_name = n, mf_source_field = n, mf_kind = k, mf_null = False, mf_unique = False\<rparr>"

definition nullable :: "model_field \<Rightarrow> model_field" where
  "nullable f = f\<lparr>mf_null := True\<rparr>"

definition unique_field :: "model_field \<Rightarrow> model_field" where
  "unique_field f = f\<lparr>mf_unique := True\<rparr>"

definition primary_key :: model_field where
  "primary_key = unique_field (plain ''id'' UUIDField)"

definition foreign_key :: "string \<Rightarrow> string \<Rightarrow> model_field" where
  "foreign_key n target = (plain n (ForeignKeyField target))\<lparr>mf_source_field := n @ ''_id''\<rparr>"

datatype col_type = Uuid | Varchar nat | Text_Col | Int4 | Timestamptz | Jsonb

datatype sql_value = V_Text string | V_Int int | V_Time instant | V_Uuid nat | V_Json string

datatype sql_default = Literal sql_value | Statement_Timestamp

record column =
  c_name :: string
  c_type :: col_type
  c_null :: bool
  c_unique :: bool
  c_references :: "string option"
  c_default :: "sql_default option"

fun column_type :: "field_kind \<Rightarrow> col_type" where
  "column_type UUIDField = Uuid"
| "column_type (CharField n) = Varchar n"
| "column_type (CharEnumField n) = Varchar n"
| "column_type TextField = Text_Col"
| "column_type IntField = Int4"
| "column_type DatetimeField = Timestamptz"
| "column_type JSONField = Jsonb"
| "column_type (ForeignKeyField m) = Uuid"

text \<open>
  The column of a field. The defaults of a field are values the ORM supplies on insertion, not SQL
  defaults. \<open>models\<close> gives the table of a model name.
\<close>

definition column_of :: "(string \<times> string) list \<Rightarrow> model_field \<Rightarrow> column" where
  "column_of models f = \<lparr>c_name = mf_source_field f, c_type = column_type (mf_kind f), c_null = mf_null f,
     c_unique = mf_unique f,
     c_references = (case mf_kind f of ForeignKeyField m \<Rightarrow> map_of models m | _ \<Rightarrow> None), c_default = None\<rparr>"

section \<open>Indexes and the catalogue\<close>

text \<open>
  The conditions of partial indexes compare the status column. An index without a name has the one
  the ORM generates. A unique constraint is a unique index.
\<close>

datatype row_condition = Always | Status_In "string list"

record sql_index =
  ix_name :: "string option"
  ix_fields :: "string list"
  ix_where :: row_condition
  ix_unique :: bool

definition index_on :: "string list \<Rightarrow> sql_index" where
  "index_on fs = \<lparr>ix_name = None, ix_fields = fs, ix_where = Always, ix_unique = False\<rparr>"

definition partial_index :: "string \<Rightarrow> string list \<Rightarrow> string list \<Rightarrow> sql_index" where
  "partial_index n fs ss = \<lparr>ix_name = Some n, ix_fields = fs, ix_where = Status_In ss, ix_unique = False\<rparr>"

definition unique_constraint :: "string \<Rightarrow> string list \<Rightarrow> string list \<Rightarrow> sql_index" where
  "unique_constraint n fs ss = (partial_index n fs ss)\<lparr>ix_unique := True\<rparr>"

definition unique_together :: "string list \<Rightarrow> sql_index" where
  "unique_together fs = (index_on fs)\<lparr>ix_unique := True\<rparr>"

text \<open>A function is recorded with the channel it notifies, a trigger with its table and function.\<close>

record catalog =
  tables :: "(string \<times> column list) list"
  indexes :: "(string \<times> sql_index) list"
  sql_functions :: "(string \<times> string) list"
  sql_triggers :: "(string \<times> string \<times> string) list"

definition empty_catalog :: catalog where
  "empty_catalog = \<lparr>tables = [], indexes = [], sql_functions = [], sql_triggers = []\<rparr>"

type_synonym row = "string \<rightharpoonup> sql_value"
type_synonym contents = "string \<Rightarrow> row list"

section \<open>Statements\<close>

datatype statement =
    Create_Table string "column list" "sql_index list"
  | Drop_Table string
  | Create_Index string sql_index
  | Drop_Index_If_Exists string
  | Add_Column string column
  | Drop_Column string string
  | Drop_Not_Null string string
  | Set_Not_Null string string
  | Drop_Default string string
  | Update_Status string string string
  | Delete_Where_Null string string
  | Create_Or_Replace_Function string string
  | Drop_Function_If_Exists string
  | Create_Trigger string string string
  | Drop_Trigger_If_Exists string string

datatype sql_error =
    Undefined_Table string
  | Duplicate_Table string
  | Undefined_Column string
  | Duplicate_Column string
  | Undefined_Function string
  | Duplicate_Object string
  | Dependent_Objects string
  | Constraint_Violation string
  | Undefined_Model string

definition columns_of :: "catalog \<Rightarrow> string \<Rightarrow> column list option" where
  "columns_of cat t = map_of (tables cat) t"

definition set_columns :: "string \<Rightarrow> column list \<Rightarrow> catalog \<Rightarrow> catalog" where
  "set_columns t cols cat = cat\<lparr>tables := map (\<lambda>(u, cs). (u, if u = t then cols else cs)) (tables cat)\<rparr>"

definition alter_column :: "(column \<Rightarrow> column) \<Rightarrow> string \<Rightarrow> column list \<Rightarrow> column list" where
  "alter_column g c cols = map (\<lambda>x. if c_name x = c then g x else x) cols"

definition has_column :: "column list \<Rightarrow> string \<Rightarrow> bool" where
  "has_column cols c \<longleftrightarrow> c \<in> set (map c_name cols)"

definition names_index :: "catalog \<Rightarrow> sql_index \<Rightarrow> bool" where
  "names_index cat ix \<longleftrightarrow> ix_name ix \<noteq> None \<and> ix_name ix \<in> set (map (ix_name \<circ> snd) (indexes cat))"

definition with_table :: "catalog \<Rightarrow> string \<Rightarrow> (column list \<Rightarrow> sql_error + catalog) \<Rightarrow> sql_error + catalog" where
  "with_table cat t k = (case columns_of cat t of None \<Rightarrow> Inl (Undefined_Table t) | Some cols \<Rightarrow> k cols)"

definition with_column :: "catalog \<Rightarrow> string \<Rightarrow> string \<Rightarrow> (column list \<Rightarrow> sql_error + catalog) \<Rightarrow> sql_error + catalog" where
  "with_column cat t c k = with_table cat t (\<lambda>cols. if has_column cols c then k cols else Inl (Undefined_Column c))"

fun catalog_effect :: "statement \<Rightarrow> catalog \<Rightarrow> sql_error + catalog" where
  "catalog_effect (Create_Table t cols ixs) cat =
     (if columns_of cat t \<noteq> None then Inl (Duplicate_Table t)
      else Inr (cat\<lparr>tables := tables cat @ [(t, cols)], indexes := indexes cat @ map (Pair t) ixs\<rparr>))"
| "catalog_effect (Drop_Table t) cat = with_table cat t (\<lambda>_.
     if \<exists>(u, cs)\<in>set (tables cat). u \<noteq> t \<and> Some t \<in> set (map c_references cs) then Inl (Dependent_Objects t)
     else Inr (cat\<lparr>tables := filter (\<lambda>(u, _). u \<noteq> t) (tables cat), indexes := filter (\<lambda>(u, _). u \<noteq> t) (indexes cat),
       sql_triggers := filter (\<lambda>(_, u, _). u \<noteq> t) (sql_triggers cat)\<rparr>))"
| "catalog_effect (Create_Index t ix) cat = with_table cat t (\<lambda>cols.
     if names_index cat ix then Inl (Duplicate_Table (the (ix_name ix)))
     else case filter (\<lambda>c. \<not> has_column cols c) (ix_fields ix) of
        c # _ \<Rightarrow> Inl (Undefined_Column c)
      | [] \<Rightarrow> Inr (cat\<lparr>indexes := indexes cat @ [(t, ix)]\<rparr>))"
| "catalog_effect (Drop_Index_If_Exists n) cat =
     Inr (cat\<lparr>indexes := filter (\<lambda>(_, ix). ix_name ix \<noteq> Some n) (indexes cat)\<rparr>)"
| "catalog_effect (Add_Column t c) cat = with_table cat t (\<lambda>cols.
     if has_column cols (c_name c) then Inl (Duplicate_Column (c_name c)) else Inr (set_columns t (cols @ [c]) cat))"
| "catalog_effect (Drop_Column t c) cat = with_column cat t c (\<lambda>cols.
     Inr ((set_columns t (filter (\<lambda>x. c_name x \<noteq> c) cols) cat)
       \<lparr>indexes := filter (\<lambda>(u, ix). u \<noteq> t \<or> c \<notin> set (ix_fields ix)) (indexes cat)\<rparr>))"
| "catalog_effect (Drop_Not_Null t c) cat = with_column cat t c (\<lambda>cols.
     Inr (set_columns t (alter_column (c_null_update (\<lambda>_. True)) c cols) cat))"
| "catalog_effect (Set_Not_Null t c) cat = with_column cat t c (\<lambda>cols.
     Inr (set_columns t (alter_column (c_null_update (\<lambda>_. False)) c cols) cat))"
| "catalog_effect (Drop_Default t c) cat = with_column cat t c (\<lambda>cols.
     Inr (set_columns t (alter_column (c_default_update (\<lambda>_. None)) c cols) cat))"
| "catalog_effect (Update_Status t old new) cat = with_column cat t ''status'' (\<lambda>_. Inr cat)"
| "catalog_effect (Delete_Where_Null t c) cat = with_column cat t c (\<lambda>_. Inr cat)"
| "catalog_effect (Create_Or_Replace_Function f chan) cat = Inr (cat\<lparr>sql_functions := AList.update f chan (sql_functions cat)\<rparr>)"
| "catalog_effect (Drop_Function_If_Exists f) cat =
     (if f \<in> set (map (snd \<circ> snd) (sql_triggers cat)) then Inl (Dependent_Objects f)
      else Inr (cat\<lparr>sql_functions := filter (\<lambda>(g, _). g \<noteq> f) (sql_functions cat)\<rparr>))"
| "catalog_effect (Create_Trigger n t f) cat = with_table cat t (\<lambda>_.
     if map_of (sql_functions cat) f = None then Inl (Undefined_Function f)
     else if \<exists>(m, u, _)\<in>set (sql_triggers cat). m = n \<and> u = t then Inl (Duplicate_Object n)
     else Inr (cat\<lparr>sql_triggers := sql_triggers cat @ [(n, t, f)]\<rparr>))"
| "catalog_effect (Drop_Trigger_If_Exists n t) cat = with_table cat t (\<lambda>_.
     Inr (cat\<lparr>sql_triggers := filter (\<lambda>(m, u, _). \<not> (m = n \<and> u = t)) (sql_triggers cat)\<rparr>))"

text \<open>What a statement does to the rows. \<open>now\<close> is its \<open>statement_timestamp()\<close>.\<close>

fun default_value :: "instant \<Rightarrow> sql_default option \<Rightarrow> sql_value option" where
  "default_value now None = None"
| "default_value now (Some (Literal v)) = Some v"
| "default_value now (Some Statement_Timestamp) = Some (V_Time now)"

definition rewrite_status :: "string \<Rightarrow> string \<Rightarrow> row \<Rightarrow> row" where
  "rewrite_status old new r = (if r ''status'' = Some (V_Text old) then r(''status'' \<mapsto> V_Text new) else r)"

fun content_effect :: "instant \<Rightarrow> statement \<Rightarrow> contents \<Rightarrow> contents" where
  "content_effect now (Create_Table t cols ixs) C = C(t := [])"
| "content_effect now (Drop_Table t) C = C(t := [])"
| "content_effect now (Add_Column t c) C = C(t := map (\<lambda>r. r(c_name c := default_value now (c_default c))) (C t))"
| "content_effect now (Drop_Column t c) C = C(t := map (\<lambda>r. r(c := None)) (C t))"
| "content_effect now (Update_Status t old new) C = C(t := map (rewrite_status old new) (C t))"
| "content_effect now (Delete_Where_Null t c) C = C(t := filter (\<lambda>r. r c \<noteq> None) (C t))"
| "content_effect now _ C = C"

section \<open>Constraints on the rows\<close>

fun matches :: "row_condition \<Rightarrow> row \<Rightarrow> bool" where
  "matches Always r \<longleftrightarrow> True"
| "matches (Status_In ss) r \<longleftrightarrow> r ''status'' \<in> set (map (Some \<circ> V_Text) ss)"

text \<open>Two rows clash when the index covers both and they agree on its fields, none of them null.\<close>

definition clash :: "sql_index \<Rightarrow> row \<Rightarrow> row \<Rightarrow> bool" where
  "clash ix r s \<longleftrightarrow> matches (ix_where ix) r \<and> matches (ix_where ix) s
     \<and> (\<forall>c\<in>set (ix_fields ix). r c \<noteq> None \<and> r c = s c)"

fun no_clash :: "sql_index \<Rightarrow> row list \<Rightarrow> bool" where
  "no_clash ix [] \<longleftrightarrow> True"
| "no_clash ix (r # rs) \<longleftrightarrow> (\<forall>s\<in>set rs. \<not> clash ix r s) \<and> no_clash ix rs"

definition unique_indexes :: "catalog \<Rightarrow> string \<Rightarrow> sql_index list" where
  "unique_indexes cat t =
     map (\<lambda>c. unique_together [c_name c]) (filter c_unique (case columns_of cat t of None \<Rightarrow> [] | Some cols \<Rightarrow> cols))
     @ filter ix_unique (map snd (filter (\<lambda>(u, _). u = t) (indexes cat)))"

definition row_ok :: "column list \<Rightarrow> row \<Rightarrow> bool" where
  "row_ok cols r \<longleftrightarrow> (\<forall>c\<in>set cols. c_null c \<or> r (c_name c) \<noteq> None)"

definition table_ok :: "catalog \<Rightarrow> contents \<Rightarrow> string \<Rightarrow> bool" where
  "table_ok cat C t \<longleftrightarrow> (case columns_of cat t of None \<Rightarrow> C t = [] | Some cols \<Rightarrow> \<forall>r\<in>set (C t). row_ok cols r)
     \<and> (\<forall>ix\<in>set (unique_indexes cat t). no_clash ix (C t))"

text \<open>The table whose constraints a statement is checked against.\<close>

fun target :: "statement \<Rightarrow> string option" where
  "target (Create_Table t cols ixs) = Some t"
| "target (Drop_Table t) = Some t"
| "target (Create_Index t ix) = Some t"
| "target (Add_Column t c) = Some t"
| "target (Drop_Column t c) = Some t"
| "target (Drop_Not_Null t c) = Some t"
| "target (Set_Not_Null t c) = Some t"
| "target (Drop_Default t c) = Some t"
| "target (Update_Status t old new) = Some t"
| "target (Delete_Where_Null t c) = Some t"
| "target _ = None"

definition execute :: "instant \<Rightarrow> statement \<Rightarrow> catalog \<times> contents \<Rightarrow> sql_error + catalog \<times> contents" where
  "execute now s = (\<lambda>(cat, C). case catalog_effect s cat of
      Inl e \<Rightarrow> Inl e
    | Inr cat' \<Rightarrow> let C' = content_effect now s C in
        case target s of
          None \<Rightarrow> Inr (cat', C')
        | Some t \<Rightarrow> if table_ok cat' C' t then Inr (cat', C') else Inl (Constraint_Violation t))"

definition populated_ok :: "catalog \<times> contents \<Rightarrow> bool" where
  "populated_ok db \<longleftrightarrow> (\<forall>t. table_ok (fst db) (snd db) t)"

section \<open>Every statement keeps the constraints\<close>

lemma columns_of_set_columns [schema_simps]:
  "columns_of (set_columns t cols cat) u = (if u = t \<and> columns_of cat t \<noteq> None then Some cols else columns_of cat u)"
proof -
  have "map_of (map (\<lambda>(v, cs). (v, if v = t then cols else cs)) xs) u
      = (if u = t \<and> map_of xs t \<noteq> None then Some cols else map_of xs u)" for xs :: "(string \<times> column list) list"
    by (induction xs) auto
  then show ?thesis by (simp add: columns_of_def set_columns_def)
qed

lemma set_columns_indexes [schema_simps]: "indexes (set_columns t cols cat) = indexes cat"
  by (simp add: set_columns_def)

lemma with_table_Inr: "with_table cat t k = Inr cat' \<longleftrightarrow> (\<exists>cols. columns_of cat t = Some cols \<and> k cols = Inr cat')"
  by (auto simp: with_table_def split: option.splits)

lemma with_column_Inr:
  "with_column cat t c k = Inr cat' \<longleftrightarrow> (\<exists>cols. columns_of cat t = Some cols \<and> has_column cols c \<and> k cols = Inr cat')"
  by (auto simp: with_column_def with_table_Inr split: if_splits)

lemmas effect_Inr = with_table_Inr with_column_Inr

lemma map_of_filter_neq [schema_simps]: "map_of (filter (\<lambda>(u, _). u \<noteq> t) xs) v = (if v = t then None else map_of xs v)"
  by (induction xs) auto

lemma columns_of_updates [schema_simps]:
  "columns_of (tables_update g cat) u = map_of (g (tables cat)) u" "columns_of (indexes_update h cat) = columns_of cat"
  "columns_of (sql_functions_update fs cat) = columns_of cat" "columns_of (sql_triggers_update ts cat) = columns_of cat"
  "map_of (tables cat) = columns_of cat"
  by (simp_all add: columns_of_def fun_eq_iff)

lemma columns_of_frame:
  assumes "catalog_effect s cat = Inr cat'" "target s \<noteq> Some u"
  shows "columns_of cat' u = columns_of cat u"
  using assms by (cases s) (auto simp: effect_Inr schema_simps map_add_def split: if_splits list.splits option.splits)

lemma content_frame: "target s \<noteq> Some u \<Longrightarrow> content_effect now s C u = C u"
  by (cases s) auto

lemma unique_indexes_frame:
  assumes "catalog_effect s cat = Inr cat'" "target s \<noteq> Some u"
  shows "set (unique_indexes cat' u) \<subseteq> set (unique_indexes cat u)"
  using assms columns_of_frame[OF assms] by (cases s) (auto simp: unique_indexes_def effect_Inr schema_simps split: if_splits list.splits)

lemma table_ok_frame:
  assumes "catalog_effect s cat = Inr cat'" "target s \<noteq> Some u" "table_ok cat C u"
  shows "table_ok cat' (content_effect now s C) u"
  using assms(3) unique_indexes_frame[OF assms(1,2)]
  by (auto simp: table_ok_def columns_of_frame[OF assms(1,2)] content_frame[OF assms(2)] split: option.splits)

text \<open>A statement that succeeds on rows that meet their constraints leaves rows that do.\<close>

lemma execute_keeps_constraints:
  assumes "execute now s db = Inr db'" "populated_ok db"
  shows "populated_ok db'"
proof -
  obtain cat C where db: "db = (cat, C)" by fastforce
  with assms(1) obtain cat' where eff: "catalog_effect s cat = Inr cat'" "db' = (cat', content_effect now s C)"
    and chk: "\<And>t. target s = Some t \<Longrightarrow> table_ok cat' (content_effect now s C) t"
    by (auto simp: execute_def Let_def split: sum.splits option.splits if_splits)
  then have "table_ok cat' (content_effect now s C) t" for t
    using table_ok_frame[OF eff(1)] assms(2) db by (cases "target s = Some t") (auto simp: populated_ok_def)
  then show ?thesis by (simp add: eff populated_ok_def)
qed

section \<open>Statements that cannot fail on data\<close>

fun safe :: "catalog \<Rightarrow> statement \<Rightarrow> bool" where
  "safe cat (Create_Index t ix) \<longleftrightarrow> \<not> ix_unique ix"
| "safe cat (Add_Column t c) \<longleftrightarrow> (c_null c \<or> c_default c \<noteq> None) \<and> \<not> c_unique c \<and> c_name c \<noteq> ''status''
     \<and> (\<forall>ix\<in>set (unique_indexes cat t). c_name c \<notin> set (ix_fields ix))"
| "safe cat (Set_Not_Null t c) \<longleftrightarrow> False"
| "safe cat (Update_Status t old new) \<longleftrightarrow>
     (\<forall>ix\<in>set (unique_indexes cat t). ix_where ix = Always \<and> ''status'' \<notin> set (ix_fields ix))"
| "safe cat s \<longleftrightarrow> True"

lemma no_clash_map:
  assumes "no_clash ix rs" "\<And>r s. clash ix (g r) (g s) \<Longrightarrow> clash ix r s"
  shows "no_clash ix (map g rs)"
  using assms(1) by (induction rs) (use assms(2) in auto)

lemma no_clash_filter: "no_clash ix rs \<Longrightarrow> no_clash ix (filter P rs)"
  by (induction rs) auto

lemma clash_update:
  assumes "clash ix (r(c := v)) (s(c := w))" "c \<notin> set (ix_fields ix)" "c = ''status'' \<Longrightarrow> ix_where ix = Always \<or> v = None \<and> w = None"
  shows "clash ix r s"
proof -
  have "matches (ix_where ix) r" if "matches (ix_where ix) (r(c := v))" "c = ''status'' \<Longrightarrow> ix_where ix = Always \<or> v = None" for r v
    using that by (cases "ix_where ix") (auto split: if_splits)
  then have "matches (ix_where ix) r" "matches (ix_where ix) s" using assms(1,3) unfolding clash_def by blast+
  moreover have "r x \<noteq> None \<and> r x = s x" if "x \<in> set (ix_fields ix)" for x
  proof -
    have "x \<noteq> c" using that assms(2) by blast
    with that assms(1) show ?thesis by (auto simp: clash_def)
  qed
  ultimately show ?thesis unfolding clash_def by blast
qed

lemma table_okI:
  assumes "columns_of cat t = Some cols" "\<And>r. r \<in> set (C t) \<Longrightarrow> row_ok cols r"
    and "\<And>ix. ix \<in> set (unique_indexes cat t) \<Longrightarrow> no_clash ix (C t)"
  shows "table_ok cat C t"
  using assms by (simp add: table_ok_def)

lemma table_okD:
  assumes "table_ok cat C t" "columns_of cat t = Some cols"
  shows "r \<in> set (C t) \<Longrightarrow> row_ok cols r" "ix \<in> set (unique_indexes cat t) \<Longrightarrow> no_clash ix (C t)"
  using assms by (simp_all add: table_ok_def)

lemma row_ok_update: "row_ok cols r \<Longrightarrow> v \<noteq> None \<or> \<not> has_column cols c \<Longrightarrow> row_ok cols (r(c := v))"
  by (auto simp: row_ok_def has_column_def)

lemma row_ok_append [schema_simps]: "row_ok (cols @ cs) r \<longleftrightarrow> row_ok cols r \<and> row_ok cs r"
  by (auto simp: row_ok_def)

lemma rewrite_status_eq: "\<exists>v. rewrite_status old new r = r(''status'' := v)"
  by (auto simp: rewrite_status_def intro: exI[of _ "r ''status''"])

lemma set_unique_indexes:
  "set (unique_indexes cat t) = {unique_together [c_name c] |c. \<exists>cols. columns_of cat t = Some cols \<and> c \<in> set cols \<and> c_unique c}
     \<union> {ix. (t, ix) \<in> set (indexes cat) \<and> ix_unique ix}"
  by (force simp: unique_indexes_def split: option.splits)

lemma alter_column_ok:
  assumes "table_ok cat C t" "columns_of cat t = Some cols" "\<And>x. c_name (g x) = c_name x" "\<And>x. c_unique (g x) = c_unique x"
    and "\<And>x. c_null x \<Longrightarrow> c_null (g x)"
  shows "table_ok (set_columns t (alter_column g c cols) cat) C t"
proof (rule table_okI)
  show "columns_of (set_columns t (alter_column g c cols) cat) t = Some (alter_column g c cols)" using assms(2) by (simp add: schema_simps)
  show "row_ok (alter_column g c cols) r" if "r \<in> set (C t)" for r
    using table_okD(1)[OF assms(1,2) that] assms(3,5) by (auto simp: row_ok_def alter_column_def)
  show "no_clash ix (C t)" if "ix \<in> set (unique_indexes (set_columns t (alter_column g c cols) cat) t)" for ix
  proof (rule table_okD(2)[OF assms(1,2)])
    show "ix \<in> set (unique_indexes cat t)" using that assms(2-4) by (auto simp: set_unique_indexes schema_simps alter_column_def split: if_splits)
  qed
qed

lemma add_column_ok:
  assumes "table_ok cat C t" "columns_of cat t = Some cols" "\<not> has_column cols (c_name c)" "safe cat (Add_Column t c)"
  shows "table_ok (set_columns t (cols @ [c]) cat) (content_effect now (Add_Column t c) C) t"
proof (rule table_okI)
  let ?v = "default_value now (c_default c)"
  show "columns_of (set_columns t (cols @ [c]) cat) t = Some (cols @ [c])" using assms(2) by (simp add: schema_simps)
  have v: "c_null c \<or> ?v \<noteq> None" using assms(4) by (cases "c_default c"; cases "the (c_default c)") auto
  show "row_ok (cols @ [c]) r" if "r \<in> set (content_effect now (Add_Column t c) C t)" for r
    using that table_okD(1)[OF assms(1,2)] assms(3) v by (auto simp: schema_simps row_ok_update) (auto simp: row_ok_def)
  show "no_clash ix (content_effect now (Add_Column t c) C t)" if "ix \<in> set (unique_indexes (set_columns t (cols @ [c]) cat) t)" for ix
  proof -
    have ix: "ix \<in> set (unique_indexes cat t)" using that assms(2,4) by (auto simp: set_unique_indexes schema_simps)
    then have "c_name c \<notin> set (ix_fields ix)" "c_name c \<noteq> ''status''" using assms(4) by auto
    then show ?thesis using table_okD(2)[OF assms(1,2) ix] clash_update[of ix _ "c_name c" ?v _ ?v] by (auto intro!: no_clash_map)
  qed
qed

lemma drop_column_ok:
  assumes "table_ok cat C t" "catalog_effect (Drop_Column t c) cat = Inr cat'"
  shows "table_ok cat' (content_effect now (Drop_Column t c) C) t"
proof -
  from assms(2) obtain cols where cols: "columns_of cat t = Some cols"
    and cat': "cat' = (set_columns t (filter (\<lambda>x. c_name x \<noteq> c) cols) cat)
       \<lparr>indexes := filter (\<lambda>(u, ix). u \<noteq> t \<or> c \<notin> set (ix_fields ix)) (indexes cat)\<rparr>"
    by (auto simp: effect_Inr)
  show ?thesis
  proof (rule table_okI)
    show "columns_of cat' t = Some (filter (\<lambda>x. c_name x \<noteq> c) cols)" using cols by (simp add: cat' schema_simps)
    show "row_ok (filter (\<lambda>x. c_name x \<noteq> c) cols) r" if "r \<in> set (content_effect now (Drop_Column t c) C t)" for r
      using that table_okD(1)[OF assms(1) cols] by (fastforce simp: row_ok_def)
    show "no_clash ix (content_effect now (Drop_Column t c) C t)" if "ix \<in> set (unique_indexes cat' t)" for ix
    proof -
      have "ix \<in> set (unique_indexes cat t)" "c \<notin> set (ix_fields ix)"
        using that cols by (auto simp: cat' set_unique_indexes schema_simps unique_together_def index_on_def)
      then show ?thesis using table_okD(2)[OF assms(1) cols] clash_update[of ix _ c None _ None] by (auto intro!: no_clash_map)
    qed
  qed
qed

lemma update_status_ok:
  assumes "table_ok cat C t" "columns_of cat t = Some cols" "safe cat (Update_Status t old new)"
  shows "table_ok cat (content_effect now (Update_Status t old new) C) t"
proof (rule table_okI[OF assms(2)])
  show "row_ok cols r" if "r \<in> set (content_effect now (Update_Status t old new) C t)" for r
    using that table_okD(1)[OF assms(1,2)] by (auto simp: rewrite_status_def row_ok_update)
  show "no_clash ix (content_effect now (Update_Status t old new) C t)" if "ix \<in> set (unique_indexes cat t)" for ix
  proof -
    have ix: "ix_where ix = Always" "''status'' \<notin> set (ix_fields ix)" using that assms(3) by auto
    have "clash ix r s" if "clash ix (rewrite_status old new r) (rewrite_status old new s)" for r s
      using rewrite_status_eq[of old new r] rewrite_status_eq[of old new s] that clash_update[OF _ ix(2)] ix(1) by metis
    then show ?thesis using table_okD(2)[OF assms(1,2) that] by (auto intro!: no_clash_map)
  qed
qed

lemma safe_keeps_target:
  assumes "safe cat s" "catalog_effect s cat = Inr cat'" "target s = Some t" "table_ok cat C t"
  shows "table_ok cat' (content_effect now s C) t"
proof (cases s)
  case (Create_Table u cols ixs)
  then show ?thesis using assms(2,3) by (auto simp: table_ok_def split: option.splits if_splits)
next
  case (Drop_Table u)
  then show ?thesis using assms(2,3) by (auto simp: table_ok_def effect_Inr schema_simps split: option.splits if_splits)
next
  case (Create_Index u ix)
  then obtain cols where c: "columns_of cat t = Some cols" and cat': "cat' = cat\<lparr>indexes := indexes cat @ [(t, ix)]\<rparr>"
    using assms(2,3) by (auto simp: effect_Inr split: if_splits list.splits)
  have "set (unique_indexes cat' t) = set (unique_indexes cat t)" using assms(1) Create_Index by (auto simp: cat' set_unique_indexes schema_simps)
  with assms(4) c Create_Index show ?thesis by (simp add: table_ok_def cat' schema_simps)
next
  case (Add_Column u c)
  then obtain cols where "columns_of cat t = Some cols" "\<not> has_column cols (c_name c)" "cat' = set_columns t (cols @ [c]) cat"
    using assms(2,3) by (auto simp: effect_Inr split: if_splits)
  with Add_Column show ?thesis using assms(1,3) add_column_ok[OF assms(4)] by fastforce
next
  case (Drop_Column u c)
  then show ?thesis using assms drop_column_ok by auto
next
  case (Drop_Not_Null u c)
  then show ?thesis using assms by (auto simp: effect_Inr intro!: alter_column_ok)
next
  case (Drop_Default u c)
  then show ?thesis using assms by (auto simp: effect_Inr intro!: alter_column_ok)
next
  case (Update_Status u old new)
  then have "u = t" "cat' = cat" "\<exists>cols. columns_of cat t = Some cols" using assms(2,3) by (auto simp: effect_Inr)
  with Update_Status show ?thesis using assms(1) update_status_ok[OF assms(4)] by blast
next
  case (Delete_Where_Null u c)
  then show ?thesis using assms by (auto simp: effect_Inr table_ok_def no_clash_filter)
qed (use assms in simp_all)

text \<open>A safe statement fails only for a missing or duplicate object, whatever rows the tables hold.\<close>

lemma safe_execute:
  assumes "safe cat s" "catalog_effect s cat = Inr cat'" "populated_ok (cat, C)"
  shows "execute now s (cat, C) = Inr (cat', content_effect now s C)"
  using assms safe_keeps_target[OF assms(1,2)] by (auto simp: execute_def Let_def populated_ok_def split: option.splits)

end
