(* ===== verification/Migrations.thy ===== *)
theory Migrations
  imports Schema
begin

text \<open>
  The migrations of \<open>src/migrations\<close> as data, the model classes of \<open>hefest/models\<close> they are written
  for, and the runs of the migrations that respect their dependencies. Two migrations depend on
  \<open>0005\<close> and are merged by \<open>0008\<close>, so there are several orders; every one of them ends in the schema
  of the model classes, and from \<open>0002\<close> on none of them can fail on the rows a table holds. The last
  section is the dry run of \<open>scripts/ci_check_migrations.py\<close>.
\<close>

section \<open>Operations\<close>

datatype operation =
    CreateModel string string "model_field list" "sql_index list"
  | AddIndex string sql_index
  | AddConstraint string sql_index
  | AlterField string string model_field
  | AddField string string model_field
  | RunSQL "statement list" "statement list"

record migration =
  mg_name :: string
  mg_dependencies :: "string list"
  mg_operations :: "operation list"

text \<open>
  The statements of an operation. A model is named by its class, a statement names its table;
  \<open>models\<close> is the list of the models created so far. The one field the migrations alter becomes
  nullable.
\<close>

fun created :: "operation \<Rightarrow> (string \<times> string) list" where
  "created (CreateModel n t fs ixs) = [(n, t)]"
| "created _ = []"

fun dangling :: "(string \<times> string) list \<Rightarrow> model_field \<Rightarrow> string list" where
  "dangling models f = (case mf_kind f of ForeignKeyField m \<Rightarrow> if map_of models m = None then [m] else [] | _ \<Rightarrow> [])"

definition on_table :: "(string \<times> string) list \<Rightarrow> string \<Rightarrow> (string \<Rightarrow> statement) \<Rightarrow> sql_error + statement list" where
  "on_table models m k = (case map_of models m of None \<Rightarrow> Inl (Undefined_Model m) | Some t \<Rightarrow> Inr [k t])"

fun statements_of :: "(string \<times> string) list \<Rightarrow> operation \<Rightarrow> sql_error + statement list" where
  "statements_of models (CreateModel n t fs ixs) =
     (case concat (map (dangling models) fs) of
        m # _ \<Rightarrow> Inl (Undefined_Model m)
      | [] \<Rightarrow> Inr [Create_Table t (map (column_of models) fs) ixs])"
| "statements_of models (AddIndex m ix) = on_table models m (\<lambda>t. Create_Index t ix)"
| "statements_of models (AddConstraint m ix) = on_table models m (\<lambda>t. Create_Index t ix)"
| "statements_of models (AlterField m n f) =
     on_table models m (\<lambda>t. (if mf_null f then Drop_Not_Null else Set_Not_Null) t (mf_source_field f))"
| "statements_of models (AddField m n f) = on_table models m (\<lambda>t. Add_Column t (column_of models f))"
| "statements_of models (RunSQL sql reverse_sql) = Inr sql"

fun resolve :: "(string \<times> string) list \<Rightarrow> operation list \<Rightarrow> sql_error + statement list" where
  "resolve models [] = Inr []"
| "resolve models (op # ops) = (case statements_of models op of
      Inl e \<Rightarrow> Inl e
    | Inr ss \<Rightarrow> (case resolve (models @ created op) ops of Inl e \<Rightarrow> Inl e | Inr ss' \<Rightarrow> Inr (ss @ ss')))"

section \<open>The migrations\<close>

definition initial :: migration where
  "initial = \<lparr>mg_name = ''0001_initial'', mg_dependencies = [], mg_operations = [
     CreateModel ''NotificationLog'' ''notification_log''
       [primary_key, unique_field (plain ''idempotency_key'' (CharField 512)), plain ''status'' (CharEnumField 16),
        plain ''attempts'' IntField, plain ''created_at'' DatetimeField, plain ''updated_at'' DatetimeField] [],
     CreateModel ''User'' ''users''
       [primary_key, unique_field (plain ''email'' (CharField 254)), plain ''password_hash'' TextField,
        plain ''full_name'' (CharField 255), plain ''role'' (CharEnumField 16), plain ''created_at'' DatetimeField] [],
     CreateModel ''Event'' ''events''
       [primary_key, foreign_key ''organizer'' ''User'', plain ''title'' TextField, plain ''description'' TextField,
        plain ''starts_at'' DatetimeField, nullable (plain ''ends_at'' DatetimeField), plain ''location'' TextField,
        plain ''capacity'' IntField, plain ''status'' (CharEnumField 16), plain ''created_at'' DatetimeField,
        plain ''updated_at'' DatetimeField] [index_on [''organizer_id'']],
     CreateModel ''NotificationJob'' ''notification_jobs''
       [primary_key, foreign_key ''event'' ''Event'', plain ''event_type'' TextField, plain ''payload'' JSONField,
        plain ''status'' (CharEnumField 16), unique_field (plain ''idempotency_key'' (CharField 512)),
        plain ''created_at'' DatetimeField, plain ''updated_at'' DatetimeField] [],
     CreateModel ''Registration'' ''registrations''
       [primary_key, foreign_key ''event'' ''Event'', foreign_key ''student'' ''User'', plain ''status'' (CharEnumField 16),
        plain ''registered_at'' DatetimeField, nullable (plain ''cancelled_at'' DatetimeField)]
       [index_on [''event_id'', ''status''], index_on [''student_id'']]]\<rparr>"

definition auto_20260618_2240 :: migration where
  "auto_20260618_2240 = \<lparr>mg_name = ''0002_auto_20260618_2240'', mg_dependencies = [''0001_initial''], mg_operations = [
     AddIndex ''Event'' (partial_index ''idx_events_published'' [''status''] [''published'']),
     AddIndex ''NotificationJob'' (partial_index ''idx_jobs_pending'' [''id''] [''pending'']),
     AddIndex ''NotificationLog'' (partial_index ''idx_log_processing'' [''idempotency_key''] [''processing'']),
     AddIndex ''Registration'' (partial_index ''idx_registrations_waitlist_fifo'' [''event_id'', ''registered_at''] [''waitlisted'']),
     AddConstraint ''Registration''
       (unique_constraint ''uq_one_active_registration_per_student'' [''event_id'', ''student_id''] [''confirmed'', ''waitlisted''])]\<rparr>"

definition auto_20260619_1539 :: migration where
  "auto_20260619_1539 = \<lparr>mg_name = ''0003_auto_20260619_1539'', mg_dependencies = [''0002_auto_20260618_2240''], mg_operations = [
     CreateModel ''OAuthIdentity'' ''oauth_identities''
       [primary_key, foreign_key ''user'' ''User'', plain ''provider'' (CharField 32), plain ''subject'' (CharField 255),
        plain ''email'' (CharField 254), plain ''created_at'' DatetimeField] [unique_together [''provider'', ''subject'']],
     CreateModel ''RefreshToken'' ''refresh_tokens''
       [primary_key, foreign_key ''user'' ''User'', unique_field (plain ''token_hash'' (CharField 64)), plain ''expires_at'' DatetimeField,
        nullable (plain ''revoked_at'' DatetimeField), plain ''created_at'' DatetimeField] [],
     AlterField ''User'' ''password_hash'' (nullable (plain ''password_hash'' TextField)),
     AddField ''User'' ''email_verified_at'' (nullable (plain ''email_verified_at'' DatetimeField))]\<rparr>"

definition relay_notify_trigger :: migration where
  "relay_notify_trigger = \<lparr>mg_name = ''0004_relay_notify_trigger'', mg_dependencies = [''0003_auto_20260619_1539''], mg_operations = [
     RunSQL
       [Create_Or_Replace_Function ''hefest_notify_pending_job'' ''hefest_jobs'',
        Drop_Trigger_If_Exists ''trg_notify_pending_job'' ''notification_jobs'',
        Create_Trigger ''trg_notify_pending_job'' ''notification_jobs'' ''hefest_notify_pending_job'']
       [Drop_Trigger_If_Exists ''trg_notify_pending_job'' ''notification_jobs'',
        Drop_Function_If_Exists ''hefest_notify_pending_job'']]\<rparr>"

definition waitlist_fifo_index_add_id :: migration where
  "waitlist_fifo_index_add_id = \<lparr>mg_name = ''0005_waitlist_fifo_index_add_id'', mg_dependencies = [''0004_relay_notify_trigger''],
     mg_operations = [
     RunSQL
       [Drop_Index_If_Exists ''idx_registrations_waitlist_fifo'',
        Create_Index ''registrations'' (partial_index ''idx_registrations_waitlist_fifo'' [''event_id'', ''registered_at'', ''id''] [''waitlisted''])]
       [Drop_Index_If_Exists ''idx_registrations_waitlist_fifo'',
        Create_Index ''registrations'' (partial_index ''idx_registrations_waitlist_fifo'' [''event_id'', ''registered_at''] [''waitlisted''])]]\<rparr>"

text \<open>A column as raw SQL declares it.\<close>

definition sql_column :: "string \<Rightarrow> col_type \<Rightarrow> bool \<Rightarrow> sql_default option \<Rightarrow> column" where
  "sql_column n ty null dflt =
     \<lparr>c_name = n, c_type = ty, c_null = null, c_unique = False, c_references = None, c_default = dflt\<rparr>"

definition notification_jobs_outbox_delivery :: migration where
  "notification_jobs_outbox_delivery = \<lparr>mg_name = ''0006_notification_jobs_outbox_delivery'',
     mg_dependencies = [''0005_waitlist_fifo_index_add_id''], mg_operations = [
     RunSQL
       [Add_Column ''notification_jobs'' (sql_column ''attempts'' Int4 False (Some (Literal (V_Int 0)))),
        Add_Column ''notification_jobs'' (sql_column ''locked_by'' Text_Col True None),
        Add_Column ''notification_jobs'' (sql_column ''heartbeat_at'' Timestamptz True None),
        Add_Column ''notification_jobs'' (sql_column ''next_attempt_at'' Timestamptz False (Some Statement_Timestamp)),
        Add_Column ''notification_jobs'' (sql_column ''last_error'' Text_Col True None),
        Update_Status ''notification_jobs'' ''published'' ''pending'',
        Drop_Index_If_Exists ''idx_jobs_pending'',
        Create_Index ''notification_jobs'' (partial_index ''idx_jobs_claimable'' [''next_attempt_at'', ''id''] [''pending'', ''processing'']),
        Create_Index ''notification_jobs'' (partial_index ''idx_jobs_reaper'' [''heartbeat_at''] [''processing'']),
        Drop_Table ''notification_log'']
       [Create_Table ''notification_log''
          [(sql_column ''id'' Uuid False None)\<lparr>c_unique := True\<rparr>,
           (sql_column ''idempotency_key'' (Varchar 512) False None)\<lparr>c_unique := True\<rparr>,
           sql_column ''status'' (Varchar 16) False None,
           sql_column ''attempts'' Int4 False (Some (Literal (V_Int 1))),
           sql_column ''created_at'' Timestamptz False (Some Statement_Timestamp),
           sql_column ''updated_at'' Timestamptz False (Some Statement_Timestamp)] [],
        Create_Index ''notification_log'' (partial_index ''idx_log_processing'' [''idempotency_key''] [''processing'']),
        Drop_Index_If_Exists ''idx_jobs_reaper'',
        Drop_Index_If_Exists ''idx_jobs_claimable'',
        Create_Index ''notification_jobs'' (partial_index ''idx_jobs_pending'' [''id''] [''pending'']),
        Drop_Column ''notification_jobs'' ''last_error'',
        Drop_Column ''notification_jobs'' ''next_attempt_at'',
        Drop_Column ''notification_jobs'' ''heartbeat_at'',
        Drop_Column ''notification_jobs'' ''locked_by'',
        Drop_Column ''notification_jobs'' ''attempts'']]\<rparr>"

definition refresh_token_client :: migration where
  "refresh_token_client = \<lparr>mg_name = ''0006_refresh_token_client'', mg_dependencies = [''0005_waitlist_fifo_index_add_id''],
     mg_operations = [
     RunSQL
       [Add_Column ''refresh_tokens'' (sql_column ''client'' (Varchar 8) False (Some (Literal (V_Text ''web'')))),
        Drop_Default ''refresh_tokens'' ''client'']
       [Drop_Column ''refresh_tokens'' ''client'']]\<rparr>"

definition device_table :: migration where
  "device_table = \<lparr>mg_name = ''0007_device'', mg_dependencies = [''0006_refresh_token_client''], mg_operations = [
     CreateModel ''Device'' ''devices''
       [primary_key, foreign_key ''user'' ''User'', unique_field (plain ''expo_push_token'' (CharField 255)),
        plain ''platform'' (CharEnumField 8), plain ''created_at'' DatetimeField, plain ''updated_at'' DatetimeField] []]\<rparr>"

definition notification_jobs_nullable_event :: migration where
  "notification_jobs_nullable_event = \<lparr>mg_name = ''0008_notification_jobs_nullable_event'',
     mg_dependencies = [''0006_notification_jobs_outbox_delivery'', ''0007_device''], mg_operations = [
     RunSQL
       [Drop_Not_Null ''notification_jobs'' ''event_id'']
       [Delete_Where_Null ''notification_jobs'' ''event_id'', Set_Not_Null ''notification_jobs'' ''event_id'']]\<rparr>"

definition migrations :: "migration list" where
  "migrations = [initial, auto_20260618_2240, auto_20260619_1539, relay_notify_trigger, waitlist_fifo_index_add_id,
     notification_jobs_outbox_delivery, refresh_token_client, device_table, notification_jobs_nullable_event]"

section \<open>The model classes\<close>

text \<open>The classes in the order \<open>hefest/models/__init__.py\<close> exports them, with the indexes and constraints of their \<open>Meta\<close>.\<close>

definition user_model :: operation where
  "user_model = CreateModel ''User'' ''users''
     [primary_key, unique_field (plain ''email'' (CharField 254)), nullable (plain ''password_hash'' TextField),
      plain ''full_name'' (CharField 255), plain ''role'' (CharEnumField 16), nullable (plain ''email_verified_at'' DatetimeField),
      plain ''created_at'' DatetimeField] []"

definition event_model :: operation where
  "event_model = CreateModel ''Event'' ''events''
     [primary_key, foreign_key ''organizer'' ''User'', plain ''title'' TextField, plain ''description'' TextField,
      plain ''starts_at'' DatetimeField, nullable (plain ''ends_at'' DatetimeField), plain ''location'' TextField,
      plain ''capacity'' IntField, plain ''status'' (CharEnumField 16), plain ''created_at'' DatetimeField,
      plain ''updated_at'' DatetimeField]
     [index_on [''organizer_id''], partial_index ''idx_events_published'' [''status''] [''published'']]"

definition registration_model :: operation where
  "registration_model = CreateModel ''Registration'' ''registrations''
     [primary_key, foreign_key ''event'' ''Event'', foreign_key ''student'' ''User'', plain ''status'' (CharEnumField 16),
      plain ''registered_at'' DatetimeField, nullable (plain ''cancelled_at'' DatetimeField)]
     [index_on [''event_id'', ''status''], index_on [''student_id''],
      partial_index ''idx_registrations_waitlist_fifo'' [''event_id'', ''registered_at'', ''id''] [''waitlisted''],
      unique_constraint ''uq_one_active_registration_per_student'' [''event_id'', ''student_id''] [''confirmed'', ''waitlisted'']]"

definition notification_job_model :: operation where
  "notification_job_model = CreateModel ''NotificationJob'' ''notification_jobs''
     [primary_key, nullable (foreign_key ''event'' ''Event''), plain ''event_type'' TextField, plain ''payload'' JSONField,
      plain ''status'' (CharEnumField 16), unique_field (plain ''idempotency_key'' (CharField 512)), plain ''attempts'' IntField,
      nullable (plain ''locked_by'' TextField), nullable (plain ''heartbeat_at'' DatetimeField), plain ''next_attempt_at'' DatetimeField,
      nullable (plain ''last_error'' TextField), plain ''created_at'' DatetimeField, plain ''updated_at'' DatetimeField] []"

definition oauth_identity_model :: operation where
  "oauth_identity_model = CreateModel ''OAuthIdentity'' ''oauth_identities''
     [primary_key, foreign_key ''user'' ''User'', plain ''provider'' (CharField 32), plain ''subject'' (CharField 255),
      plain ''email'' (CharField 254), plain ''created_at'' DatetimeField] [unique_together [''provider'', ''subject'']]"

definition refresh_token_model :: operation where
  "refresh_token_model = CreateModel ''RefreshToken'' ''refresh_tokens''
     [primary_key, foreign_key ''user'' ''User'', unique_field (plain ''token_hash'' (CharField 64)), plain ''client'' (CharEnumField 8),
      plain ''expires_at'' DatetimeField, nullable (plain ''revoked_at'' DatetimeField), plain ''created_at'' DatetimeField] []"

definition device_model :: operation where
  "device_model = CreateModel ''Device'' ''devices''
     [primary_key, foreign_key ''user'' ''User'', unique_field (plain ''expo_push_token'' (CharField 255)),
      plain ''platform'' (CharEnumField 8), plain ''created_at'' DatetimeField, plain ''updated_at'' DatetimeField] []"

definition model_classes :: "operation list" where
  "model_classes = [user_model, event_model, registration_model, notification_job_model, oauth_identity_model,
     refresh_token_model, device_model]"

section \<open>Running migrations\<close>

fun fold_result :: "('a \<Rightarrow> 's \<Rightarrow> 'e + 's) \<Rightarrow> 'a list \<Rightarrow> 's \<Rightarrow> 'e + 's" where
  "fold_result f [] s = Inr s"
| "fold_result f (x # xs) s = (case f x s of Inl e \<Rightarrow> Inl e | Inr s' \<Rightarrow> fold_result f xs s')"

definition operations_of :: "string \<Rightarrow> operation list" where
  "operations_of n = concat (map mg_operations (filter (\<lambda>m. mg_name m = n) migrations))"

definition dependency_graph :: "(string \<times> string list) list" where
  "dependency_graph = map (\<lambda>m. (mg_name m, mg_dependencies m)) migrations"

definition creations :: "(string \<times> (string \<times> string) list) list" where
  "creations = map (\<lambda>m. (mg_name m, concat (map created (mg_operations m)))) migrations"

definition migration_names :: "string list" where
  "migration_names = map fst dependency_graph"

definition requirements :: "string \<Rightarrow> string list" where
  "requirements n = concat (map snd (filter (\<lambda>(m, _). m = n) dependency_graph))"

definition pending :: "string list \<Rightarrow> string list" where
  "pending applied = filter (\<lambda>n. n \<notin> set applied \<and> set (requirements n) \<subseteq> set applied) migration_names"

text \<open>The statements of the next migration, for the models the applied ones created.\<close>

definition next_statements :: "string list \<Rightarrow> string \<Rightarrow> sql_error + statement list" where
  "next_statements applied n = resolve (concat (map (\<lambda>a. concat (map snd (filter (\<lambda>(m, _). m = a) creations))) applied)) (operations_of n)"

definition apply_migration :: "instant \<Rightarrow> string list \<Rightarrow> string \<Rightarrow> catalog \<times> contents \<Rightarrow> sql_error + catalog \<times> contents" where
  "apply_migration now applied n db =
     (case next_statements applied n of Inl e \<Rightarrow> Inl e | Inr ss \<Rightarrow> fold_result (execute now) ss db)"

text \<open>A run applies, one after the other, migrations whose dependencies have been applied.\<close>

inductive migrate_step :: "string list \<times> catalog \<times> contents \<Rightarrow> string list \<times> catalog \<times> contents \<Rightarrow> bool" where
  "n \<in> set (pending applied) \<Longrightarrow> apply_migration now applied n db = Inr db' \<Longrightarrow>
     migrate_step (applied, db) (applied @ [n], db')"

inductive_cases migrate_stepE: "migrate_step s s'"

section \<open>All orders of the migrations\<close>

lemmas migration_defs = migrations_def initial_def auto_20260618_2240_def auto_20260619_1539_def relay_notify_trigger_def
  waitlist_fifo_index_add_id_def notification_jobs_outbox_delivery_def refresh_token_client_def device_table_def
  notification_jobs_nullable_event_def

lemma dependency_graph_eq [code]:
  "dependency_graph = [(''0001_initial'', []), (''0002_auto_20260618_2240'', [''0001_initial'']),
     (''0003_auto_20260619_1539'', [''0002_auto_20260618_2240'']), (''0004_relay_notify_trigger'', [''0003_auto_20260619_1539'']),
     (''0005_waitlist_fifo_index_add_id'', [''0004_relay_notify_trigger'']),
     (''0006_notification_jobs_outbox_delivery'', [''0005_waitlist_fifo_index_add_id'']),
     (''0006_refresh_token_client'', [''0005_waitlist_fifo_index_add_id'']), (''0007_device'', [''0006_refresh_token_client'']),
     (''0008_notification_jobs_nullable_event'', [''0006_notification_jobs_outbox_delivery'', ''0007_device''])]"
  by (simp add: dependency_graph_def migration_defs)

lemma creations_eq [code]:
  "creations = [(''0001_initial'', [(''NotificationLog'', ''notification_log''), (''User'', ''users''), (''Event'', ''events''),
       (''NotificationJob'', ''notification_jobs''), (''Registration'', ''registrations'')]), (''0002_auto_20260618_2240'', []),
     (''0003_auto_20260619_1539'', [(''OAuthIdentity'', ''oauth_identities''), (''RefreshToken'', ''refresh_tokens'')]),
     (''0004_relay_notify_trigger'', []), (''0005_waitlist_fifo_index_add_id'', []), (''0006_notification_jobs_outbox_delivery'', []),
     (''0006_refresh_token_client'', []), (''0007_device'', [(''Device'', ''devices'')]), (''0008_notification_jobs_nullable_event'', [])]"
  by (simp add: creations_def migration_defs)

text \<open>
  A check of every order the dependencies admit, on the catalogue alone: no order gets stuck or
  fails on a missing or duplicate object, from \<open>0002\<close> on the statements are safe, and the final
  catalogue satisfies \<open>P\<close>.
\<close>

fun all_effects :: "bool \<Rightarrow> statement list \<Rightarrow> catalog \<Rightarrow> catalog option" where
  "all_effects strict [] cat = Some cat"
| "all_effects strict (s # ss) cat =
     (if strict \<and> \<not> safe cat s then None else case catalog_effect s cat of Inl e \<Rightarrow> None | Inr cat' \<Rightarrow> all_effects strict ss cat')"

definition next_catalog :: "string list \<Rightarrow> string \<Rightarrow> catalog \<Rightarrow> catalog option" where
  "next_catalog applied n cat = (case next_statements applied n of
      Inl e \<Rightarrow> None | Inr ss \<Rightarrow> all_effects (''0002_auto_20260618_2240'' \<in> set applied) ss cat)"

fun every_run :: "nat \<Rightarrow> (catalog \<Rightarrow> bool) \<Rightarrow> string list \<Rightarrow> catalog \<Rightarrow> bool" where
  "every_run 0 P applied cat \<longleftrightarrow> set migration_names \<subseteq> set applied \<and> P cat"
| "every_run (Suc k) P applied cat \<longleftrightarrow> pending applied \<noteq> [] \<and> (\<forall>n\<in>set (pending applied).
      case next_catalog applied n cat of None \<Rightarrow> False | Some cat' \<Rightarrow> every_run k P (applied @ [n]) cat')"

text \<open>The schema of a database at \<open>0005\<close>, where the history forks.\<close>

definition at_0005 :: "string list" where
  "at_0005 = [''0001_initial'', ''0002_auto_20260618_2240'', ''0003_auto_20260619_1539'', ''0004_relay_notify_trigger'',
     ''0005_waitlist_fifo_index_add_id'']"

definition catalog_0005 :: catalog where
  "catalog_0005 = \<lparr>tables =
     [(''notification_log'', map (column_of [])
        [primary_key, unique_field (plain ''idempotency_key'' (CharField 512)), plain ''status'' (CharEnumField 16),
         plain ''attempts'' IntField, plain ''created_at'' DatetimeField, plain ''updated_at'' DatetimeField]),
      (''users'', map (column_of [])
        [primary_key, unique_field (plain ''email'' (CharField 254)), nullable (plain ''password_hash'' TextField),
         plain ''full_name'' (CharField 255), plain ''role'' (CharEnumField 16), plain ''created_at'' DatetimeField,
         nullable (plain ''email_verified_at'' DatetimeField)]),
      (''events'', map (column_of [(''User'', ''users'')])
        [primary_key, foreign_key ''organizer'' ''User'', plain ''title'' TextField, plain ''description'' TextField,
         plain ''starts_at'' DatetimeField, nullable (plain ''ends_at'' DatetimeField), plain ''location'' TextField,
         plain ''capacity'' IntField, plain ''status'' (CharEnumField 16), plain ''created_at'' DatetimeField,
         plain ''updated_at'' DatetimeField]),
      (''notification_jobs'', map (column_of [(''Event'', ''events'')])
        [primary_key, foreign_key ''event'' ''Event'', plain ''event_type'' TextField, plain ''payload'' JSONField,
         plain ''status'' (CharEnumField 16), unique_field (plain ''idempotency_key'' (CharField 512)),
         plain ''created_at'' DatetimeField, plain ''updated_at'' DatetimeField]),
      (''registrations'', map (column_of [(''Event'', ''events''), (''User'', ''users'')])
        [primary_key, foreign_key ''event'' ''Event'', foreign_key ''student'' ''User'', plain ''status'' (CharEnumField 16),
         plain ''registered_at'' DatetimeField, nullable (plain ''cancelled_at'' DatetimeField)]),
      (''oauth_identities'', map (column_of [(''User'', ''users'')])
        [primary_key, foreign_key ''user'' ''User'', plain ''provider'' (CharField 32), plain ''subject'' (CharField 255),
         plain ''email'' (CharField 254), plain ''created_at'' DatetimeField]),
      (''refresh_tokens'', map (column_of [(''User'', ''users'')])
        [primary_key, foreign_key ''user'' ''User'', unique_field (plain ''token_hash'' (CharField 64)), plain ''expires_at'' DatetimeField,
         nullable (plain ''revoked_at'' DatetimeField), plain ''created_at'' DatetimeField])],
     indexes =
     [(''events'', index_on [''organizer_id'']),
      (''registrations'', index_on [''event_id'', ''status'']),
      (''registrations'', index_on [''student_id'']),
      (''events'', partial_index ''idx_events_published'' [''status''] [''published'']),
      (''notification_jobs'', partial_index ''idx_jobs_pending'' [''id''] [''pending'']),
      (''notification_log'', partial_index ''idx_log_processing'' [''idempotency_key''] [''processing'']),
      (''registrations'', unique_constraint ''uq_one_active_registration_per_student'' [''event_id'', ''student_id''] [''confirmed'', ''waitlisted'']),
      (''oauth_identities'', unique_together [''provider'', ''subject'']),
      (''registrations'', partial_index ''idx_registrations_waitlist_fifo'' [''event_id'', ''registered_at'', ''id''] [''waitlisted''])],
     sql_functions = [(''hefest_notify_pending_job'', ''hefest_jobs'')],
     sql_triggers = [(''trg_notify_pending_job'', ''notification_jobs'', ''hefest_notify_pending_job'')]\<rparr>"

text \<open>
  The catalogue agrees with the model classes: the same tables with the same columns, up to their
  order and to SQL defaults; the same indexes, and the two the worker scans; one trigger, that
  notifies the channel the worker listens on (\<open>settings.worker_notify_channel\<close>) on insertions into
  the outbox.
\<close>

definition table_shapes :: "catalog \<Rightarrow> (string \<times> column set) set" where
  "table_shapes cat = (\<lambda>(t, cols). (t, c_default_update (\<lambda>_. None) ` set cols)) ` set (tables cat)"

definition model_catalog :: "sql_error + catalog" where
  "model_catalog = (case resolve [] model_classes of
      Inl e \<Rightarrow> Inl e | Inr ss \<Rightarrow> fold_result catalog_effect ss empty_catalog)"

definition worker_indexes :: "(string \<times> sql_index) set" where
  "worker_indexes =
     {(''notification_jobs'', partial_index ''idx_jobs_claimable'' [''next_attempt_at'', ''id''] [''pending'', ''processing'']),
      (''notification_jobs'', partial_index ''idx_jobs_reaper'' [''heartbeat_at''] [''processing''])}"

definition worker_notify_channel :: string where
  "worker_notify_channel = ''hefest_jobs''"

definition agrees_with_models :: "catalog \<Rightarrow> bool" where
  "agrees_with_models cat = (case model_catalog of
      Inl e \<Rightarrow> False
    | Inr m \<Rightarrow> table_shapes cat = table_shapes m \<and> set (indexes cat) = set (indexes m) \<union> worker_indexes
        \<and> map (\<lambda>(_, t, f). (t, map_of (sql_functions cat) f)) (sql_triggers cat) = [(''notification_jobs'', Some worker_notify_channel)])"

text \<open>The orders one by one: what every single one gives, every run gives.\<close>

fun orders :: "nat \<Rightarrow> string list \<Rightarrow> string list list" where
  "orders 0 applied = [[]]"
| "orders (Suc k) applied = concat (map (\<lambda>n. map ((#) n) (orders k (applied @ [n]))) (pending applied))"

fun never_stuck :: "nat \<Rightarrow> string list \<Rightarrow> bool" where
  "never_stuck 0 applied \<longleftrightarrow> set migration_names \<subseteq> set applied"
| "never_stuck (Suc k) applied \<longleftrightarrow> pending applied \<noteq> [] \<and> (\<forall>n\<in>set (pending applied). never_stuck k (applied @ [n]))"

fun follow :: "string list \<Rightarrow> string list \<Rightarrow> catalog \<Rightarrow> catalog option" where
  "follow applied [] cat = Some cat"
| "follow applied (n # ns) cat = (case next_catalog applied n cat of None \<Rightarrow> None | Some cat' \<Rightarrow> follow (applied @ [n]) ns cat')"

lemma orders_nonempty: "never_stuck k applied \<Longrightarrow> orders k applied \<noteq> []"
proof (induction k arbitrary: applied)
  case (Suc k)
  from Suc.prems obtain n where "n \<in> set (pending applied)" by (cases "pending applied") auto
  with Suc show ?case by fastforce
qed simp

lemma every_runI:
  "never_stuck k applied \<Longrightarrow> (\<And>ns. ns \<in> set (orders k applied) \<Longrightarrow> \<exists>c. follow applied ns cat = Some c \<and> P c) \<Longrightarrow>
     every_run k P applied cat"
proof (induction k arbitrary: applied cat)
  case 0
  then show ?case using "0.prems"(2)[of "[]"] by simp
next
  case (Suc k)
  have "case next_catalog applied n cat of None \<Rightarrow> False | Some cat' \<Rightarrow> every_run k P (applied @ [n]) cat'"
    if n: "n \<in> set (pending applied)" for n
  proof -
    have ns: "never_stuck k (applied @ [n])" using Suc.prems(1) n by simp
    have run: "\<exists>c. follow applied (n # ns) cat = Some c \<and> P c" if "ns \<in> set (orders k (applied @ [n]))" for ns
      using Suc.prems(2)[of "n # ns"] n that by auto
    obtain o1 where "o1 \<in> set (orders k (applied @ [n]))" using orders_nonempty[OF ns] by (cases "orders k (applied @ [n])") auto
    from run[OF this] obtain cat' where c: "next_catalog applied n cat = Some cat'" by (auto split: option.splits)
    have "every_run k P (applied @ [n]) cat'" using Suc.IH[OF ns, of cat'] run c by simp
    with c show ?thesis by simp
  qed
  with Suc.prems(1) show ?case by simp
qed

fun agreeing :: "catalog option \<Rightarrow> bool" where
  "agreeing None \<longleftrightarrow> False"
| "agreeing (Some cat) \<longleftrightarrow> agrees_with_models cat"

text \<open>The reverse SQL of a migration written as raw SQL.\<close>

definition reverse_of :: "string \<Rightarrow> statement list" where
  "reverse_of n = concat (map (\<lambda>op. case op of RunSQL sql reverse_sql \<Rightarrow> reverse_sql | _ \<Rightarrow> []) (rev (operations_of n)))"

section \<open>The dry run\<close>

text \<open>
  \<open>scripts/ci_check_migrations.py\<close>: the apps of the configuration with their migrations directory,
  the file system as \<open>is_dir\<close> and \<open>stems\<close> (the stems of the Python files, which \<open>sorted_names\<close> sorts), and
  \<open>sqlmigrate\<close> as a parameter. The result is the exit code with the rendered migrations; an
  exception of \<open>sqlmigrate\<close> is not caught.
\<close>

type_synonym rendered = "(string \<times> string \<times> string list) list"

fun render_app :: "(string \<Rightarrow> string \<Rightarrow> exc + string list) \<Rightarrow> string \<Rightarrow> string list \<Rightarrow> rendered \<Rightarrow> exc + rendered" where
  "render_app sqlmigrate app [] acc = Inr acc"
| "render_app sqlmigrate app (n # ns) acc = (case sqlmigrate app n of
      Inl ex \<Rightarrow> Inl ex
    | Inr statements \<Rightarrow> render_app sqlmigrate app ns (acc @ [(app, n, statements)]))"

fun dry_run_apps :: "(string \<Rightarrow> bool) \<Rightarrow> (string \<Rightarrow> string list) \<Rightarrow> (string list \<Rightarrow> string list) \<Rightarrow> (string \<Rightarrow> string \<Rightarrow> exc + string list)
    \<Rightarrow> (string \<times> string option) list \<Rightarrow> rendered \<Rightarrow> exc + (nat \<times> rendered)" where
  "dry_run_apps is_dir stems sorted_names sqlmigrate [] acc = Inr (0, acc)"
| "dry_run_apps is_dir stems sorted_names sqlmigrate ((app, dir) # apps) acc =
     (let migrations_dir = (case dir of None \<Rightarrow> ''migrations'' | Some d \<Rightarrow> d) in
      if \<not> is_dir migrations_dir then Inr (1, acc)
      else let names = sorted_names (filter (\<lambda>n. n \<noteq> ''__init__'') (stems migrations_dir)) in
        if names = [] then Inr (1, acc)
        else case render_app sqlmigrate app names acc of
            Inl ex \<Rightarrow> Inl ex
          | Inr acc' \<Rightarrow> dry_run_apps is_dir stems sorted_names sqlmigrate apps acc')"

definition dry_run :: "(string \<Rightarrow> bool) \<Rightarrow> (string \<Rightarrow> string list) \<Rightarrow> (string list \<Rightarrow> string list) \<Rightarrow> (string \<Rightarrow> string \<Rightarrow> exc + string list)
    \<Rightarrow> (string \<times> string option) list \<Rightarrow> exc + (nat \<times> rendered)" where
  "dry_run is_dir stems sorted_names sqlmigrate apps =
     (if apps = [] then Inr (1, []) else dry_run_apps is_dir stems sorted_names sqlmigrate apps [])"

lemma render_app_Inr:
  "render_app sqlmigrate app ns acc = Inr acc' \<longleftrightarrow>
     (\<forall>n\<in>set ns. \<not> isl (sqlmigrate app n)) \<and> acc' = acc @ map (\<lambda>n. (app, n, projr (sqlmigrate app n))) ns"
  by (induction ns arbitrary: acc) (auto split: sum.splits)

definition migrations_dir_of :: "string option \<Rightarrow> string" where
  "migrations_dir_of dir = (case dir of None \<Rightarrow> ''migrations'' | Some d \<Rightarrow> d)"

text \<open>The script exits with 0 exactly when every app has migrations and every one of them renders.\<close>

lemma dry_run_succeeds_iff:
  assumes "\<And>ns. set (sorted_names ns) = set ns"
  shows "(\<exists>r. dry_run is_dir stems sorted_names sqlmigrate apps = Inr (0, r)) \<longleftrightarrow>
     apps \<noteq> [] \<and> (\<forall>(app, dir)\<in>set apps. is_dir (migrations_dir_of dir)
        \<and> set (stems (migrations_dir_of dir)) - {''__init__''} \<noteq> {}
        \<and> (\<forall>n\<in>set (stems (migrations_dir_of dir)) - {''__init__''}. \<not> isl (sqlmigrate app n)))"
proof -
  have "(\<exists>r. dry_run_apps is_dir stems sorted_names sqlmigrate apps acc = Inr (0, r)) \<longleftrightarrow>
     (\<forall>(app, dir)\<in>set apps. is_dir (migrations_dir_of dir)
        \<and> set (stems (migrations_dir_of dir)) - {''__init__''} \<noteq> {}
        \<and> (\<forall>n\<in>set (stems (migrations_dir_of dir)) - {''__init__''}. \<not> isl (sqlmigrate app n)))" for acc
  proof (induction apps arbitrary: acc)
    case (Cons a apps)
    obtain app dir where a: "a = (app, dir)" by fastforce
    let ?names = "sorted_names (filter (\<lambda>n. n \<noteq> ''__init__'') (stems (migrations_dir_of dir)))"
    have n: "set ?names = set (stems (migrations_dir_of dir)) - {''__init__''}" by (auto simp: assms)
    then have e: "?names = [] \<longleftrightarrow> set (stems (migrations_dir_of dir)) - {''__init__''} = {}" by (metis set_empty)
    show ?case
    proof (cases "render_app sqlmigrate app ?names acc")
      case (Inl ex)
      then have "\<exists>x\<in>set ?names. isl (sqlmigrate app x)" using render_app_Inr[of sqlmigrate app ?names acc] by auto
      with Inl show ?thesis unfolding a e n by (auto simp: Let_def migrations_dir_of_def[symmetric])
    next
      case (Inr acc')
      then have "\<forall>x\<in>set ?names. \<not> isl (sqlmigrate app x)" using render_app_Inr[of sqlmigrate app ?names acc] by auto
      with Inr show ?thesis using Cons.IH[of acc'] unfolding a n
        by (simp add: Let_def migrations_dir_of_def[symmetric] e)
    qed
  qed simp
  then show ?thesis by (simp add: dry_run_def)
qed

end
