(* ===== verification/Migration_Properties.thy ===== *)
theory Migration_Properties
  imports Migrations
begin

text \<open>
  Every order of the migrations: from the empty database each one ends in the schema of the model
  classes, and on a populated database at \<open>0005\<close> each one succeeds and keeps the rows. The catalogues
  are evaluated once per order; the rest is reasoning about runs.
\<close>

section \<open>The catalogues of the orders\<close>

lemma all_orders: "orders 9 [] = map ((@) at_0005) (orders 4 at_0005)"
  by code_simp

lemma orders_from_0005:
  "orders 4 at_0005 =
    [[''0006_notification_jobs_outbox_delivery'', ''0006_refresh_token_client'', ''0007_device'', ''0008_notification_jobs_nullable_event''],
     [''0006_refresh_token_client'', ''0006_notification_jobs_outbox_delivery'', ''0007_device'', ''0008_notification_jobs_nullable_event''],
     [''0006_refresh_token_client'', ''0007_device'', ''0006_notification_jobs_outbox_delivery'', ''0008_notification_jobs_nullable_event'']]"
  by code_simp

lemma never_stuck_migrations: "never_stuck 9 []"
  by code_simp

lemma until_0005: "follow [] at_0005 empty_catalog = Some catalog_0005"
  by code_simp

lemma outbox_first: "agreeing (follow at_0005
    [''0006_notification_jobs_outbox_delivery'', ''0006_refresh_token_client'', ''0007_device'', ''0008_notification_jobs_nullable_event''] catalog_0005)"
  by code_simp

lemma client_first: "agreeing (follow at_0005
    [''0006_refresh_token_client'', ''0006_notification_jobs_outbox_delivery'', ''0007_device'', ''0008_notification_jobs_nullable_event''] catalog_0005)"
  by code_simp

lemma device_first: "agreeing (follow at_0005
    [''0006_refresh_token_client'', ''0007_device'', ''0006_notification_jobs_outbox_delivery'', ''0008_notification_jobs_nullable_event''] catalog_0005)"
  by code_simp

text \<open>
  Rolling back: the reverse SQL of the client column restores the catalogue exactly; the one of the
  outbox migration restores the tables up to SQL defaults, and the indexes up to their order.
\<close>

lemma rollback_client:
  "(case next_catalog at_0005 ''0006_refresh_token_client'' catalog_0005 of
      None \<Rightarrow> False | Some c \<Rightarrow> fold_result catalog_effect (reverse_of ''0006_refresh_token_client'') c = Inr catalog_0005)"
  by code_simp

lemma rollback_outbox:
  "(case next_catalog at_0005 ''0006_notification_jobs_outbox_delivery'' catalog_0005 of
      None \<Rightarrow> False
    | Some c \<Rightarrow> (case fold_result catalog_effect (reverse_of ''0006_notification_jobs_outbox_delivery'') c of
        Inl e \<Rightarrow> False
      | Inr c' \<Rightarrow> table_shapes c' = table_shapes catalog_0005 \<and> set (indexes c') = set (indexes catalog_0005)))"
  by code_simp

section \<open>Runs on a populated database\<close>

lemma fold_result_contents:
  "fold_result (execute now) ss (cat, C) = Inr (cat', C') \<Longrightarrow> C' = fold (content_effect now) ss C"
proof (induction ss arbitrary: cat C)
  case (Cons s ss)
  then obtain c where "execute now s (cat, C) = Inr (c, content_effect now s C)"
    by (auto simp: execute_def Let_def split: sum.splits option.splits if_splits)
  with Cons show ?case by simp
qed simp

lemma table_ok_empty: "C t = [] \<Longrightarrow> table_ok cat C t"
  by (auto simp: table_ok_def split: option.splits)

lemma execute_empty: "catalog_effect s cat = Inr cat' \<Longrightarrow> execute now s (cat, \<lambda>_. []) = Inr (cat', \<lambda>_. [])"
proof -
  assume "catalog_effect s cat = Inr cat'"
  moreover have "content_effect now s (\<lambda>_. []) = (\<lambda>_. [])" by (cases s) (auto simp: fun_eq_iff)
  moreover have "table_ok cat' (\<lambda>_. []) t" for t by (simp add: table_ok_empty)
  ultimately show ?thesis by (auto simp: execute_def Let_def split: option.splits)
qed

text \<open>
  A database can take the next migration when its tables are empty, or when its rows meet the
  constraints and \<open>0002\<close>, whose unique constraint may fail on data, has been applied.
\<close>

definition can_migrate :: "string list \<Rightarrow> catalog \<times> contents \<Rightarrow> bool" where
  "can_migrate applied db \<longleftrightarrow> snd db = (\<lambda>_. []) \<or> ''0002_auto_20260618_2240'' \<in> set applied \<and> populated_ok db"

lemma all_effects_execute:
  assumes "all_effects strict ss cat = Some cat'" "C = (\<lambda>_. []) \<or> strict \<and> populated_ok (cat, C)"
  shows "\<exists>C'. fold_result (execute now) ss (cat, C) = Inr (cat', C') \<and> (C' = (\<lambda>_. []) \<or> strict \<and> populated_ok (cat', C'))"
  using assms
proof (induction ss arbitrary: cat C)
  case (Cons s ss)
  from Cons.prems(1) obtain c where c: "catalog_effect s cat = Inr c" "all_effects strict ss c = Some cat'" "strict \<Longrightarrow> safe cat s"
    by (auto split: if_splits sum.splits)
  have "\<exists>C1. execute now s (cat, C) = Inr (c, C1) \<and> (C1 = (\<lambda>_. []) \<or> strict \<and> populated_ok (c, C1))"
    using Cons.prems(2)
  proof
    assume "strict \<and> populated_ok (cat, C)"
    then have "execute now s (cat, C) = Inr (c, content_effect now s C)" "populated_ok (cat, C)" using safe_execute[OF c(3,1)] by auto
    then show ?thesis using execute_keeps_constraints \<open>strict \<and> _\<close> by blast
  qed (use execute_empty[OF c(1)] in auto)
  with Cons.IH[OF c(2)] show ?case by fastforce
qed auto

lemma apply_ready:
  assumes "next_catalog applied n cat = Some cat'" "can_migrate applied (cat, C)"
  shows "\<exists>C'. apply_migration now applied n (cat, C) = Inr (cat', C') \<and> can_migrate (applied @ [n]) (cat', C')"
proof -
  from assms(1) obtain ss where ss: "next_statements applied n = Inr ss"
    "all_effects (''0002_auto_20260618_2240'' \<in> set applied) ss cat = Some cat'"
    by (auto simp: next_catalog_def split: sum.splits)
  from all_effects_execute[OF ss(2)] assms(2) ss(1) show ?thesis by (fastforce simp: apply_migration_def can_migrate_def)
qed

lemma apply_keeps_constraints:
  assumes "apply_migration now applied n db = Inr db'" "populated_ok db"
  shows "populated_ok db'"
proof -
  have "fold_result (execute now) ss db = Inr db' \<Longrightarrow> populated_ok db \<Longrightarrow> populated_ok db'" for ss db
    by (induction ss arbitrary: db) (auto split: sum.splits dest: execute_keeps_constraints)
  with assms show ?thesis by (auto simp: apply_migration_def split: sum.splits)
qed

lemma pending_complete: "set migration_names \<subseteq> set applied \<Longrightarrow> pending applied = []"
  by (auto simp: pending_def filter_empty_conv)

lemma run_invariant:
  assumes "migrate_step\<^sup>*\<^sup>* (applied, cat, C) (p, c, D)" "every_run k P applied cat" "can_migrate applied (cat, C)"
  shows "(\<exists>j. every_run j P p c) \<and> can_migrate p (c, D)"
  using assms
proof (induction "(p, c, D)" arbitrary: p c D rule: rtranclp_induct)
  case (step s)
  obtain p' c' D' where s: "s = (p', c', D')" by (cases s)
  with step.hyps(2) obtain n now where n: "n \<in> set (pending p')" "p = p' @ [n]" "apply_migration now p' n (c', D') = Inr (c, D)"
    by (auto elim: migrate_stepE)
  from step.hyps(3)[OF s] step.prems obtain j where j: "every_run j P p' c'" and r: "can_migrate p' (c', D')" by blast
  from j n(1) obtain i cat' where i: "next_catalog p' n c' = Some cat'" "every_run i P p cat'"
    using pending_complete[of p'] by (cases j) (auto simp: n(2) split: option.splits)
  from apply_ready[OF i(1) r, of now] n(2,3) i(2) show ?case by auto
qed blast

text \<open>No run gets stuck before every migration is applied, and a complete run satisfies \<open>P\<close>.\<close>

lemma run_completes:
  assumes "migrate_step\<^sup>*\<^sup>* (applied, cat, C) (p, c, D)" "every_run k P applied cat" "can_migrate applied (cat, C)"
  shows "(\<exists>s. migrate_step (p, c, D) s) \<or> set migration_names \<subseteq> set p \<and> P c"
proof -
  from run_invariant[OF assms] obtain j where j: "every_run j P p c" and r: "can_migrate p (c, D)" by blast
  show ?thesis
  proof (cases j)
    case (Suc i)
    with j obtain n cat' where n: "n \<in> set (pending p)" "next_catalog p n c = Some cat'"
      by (cases "pending p") (auto split: option.splits)
    from apply_ready[OF n(2) r] migrate_step.intros[OF n(1)] show ?thesis by blast
  qed (use j in simp)
qed

lemma applied_once:
  "migrate_step\<^sup>*\<^sup>* (applied, db) (p, db') \<Longrightarrow> distinct applied \<and> set applied \<subseteq> set migration_names \<Longrightarrow>
     distinct p \<and> set p \<subseteq> set migration_names \<and> set applied \<subseteq> set p"
  by (induction "(p, db')" arbitrary: p db' rule: rtranclp_induct) (auto elim!: migrate_stepE simp: pending_def)

lemma order_is_run:
  "ns \<in> set (orders k applied) \<Longrightarrow> follow applied ns cat = Some c \<Longrightarrow> can_migrate applied (cat, C) \<Longrightarrow>
     \<exists>D. migrate_step\<^sup>*\<^sup>* (applied, cat, C) (applied @ ns, c, D)"
proof (induction k arbitrary: applied ns cat C)
  case (Suc k)
  then obtain n ms cat' where n: "ns = n # ms" "n \<in> set (pending applied)" "ms \<in> set (orders k (applied @ [n]))"
    "next_catalog applied n cat = Some cat'" "follow (applied @ [n]) ms cat' = Some c"
    by (auto split: option.splits)
  from apply_ready[OF n(4) Suc.prems(3)] obtain C' where
    C': "apply_migration 0 applied n (cat, C) = Inr (cat', C')" "can_migrate (applied @ [n]) (cat', C')" by blast
  from Suc.IH[OF n(3,5) C'(2)] migrate_step.intros[OF n(2) C'(1)] n(1) show ?case
    by (auto intro: converse_rtranclp_into_rtranclp)
qed auto

lemma list_memE: "x \<in> set (y # ys) \<Longrightarrow> (x = y \<Longrightarrow> R) \<Longrightarrow> (x \<in> set ys \<Longrightarrow> R) \<Longrightarrow> R"
  by auto

lemma orders_agree:
  assumes "ns \<in> set (orders 4 at_0005)"
  shows "\<exists>c. follow at_0005 ns catalog_0005 = Some c \<and> agrees_with_models c"
proof -
  from assms have "agreeing (follow at_0005 ns catalog_0005)"
    unfolding orders_from_0005 using outbox_first client_first device_first by (elim list_memE) (simp_all only: list.set empty_iff)
  then show ?thesis by (cases "follow at_0005 ns catalog_0005") auto
qed

lemma forks_agree: "every_run 4 agrees_with_models at_0005 catalog_0005"
proof (rule every_runI)
  show "never_stuck 4 at_0005" by code_simp
qed (rule orders_agree)

lemma follow_append: "follow applied (ms @ ns) cat = (case follow applied ms cat of None \<Rightarrow> None | Some c \<Rightarrow> follow (applied @ ms) ns c)"
  by (induction ms arbitrary: applied cat) (auto split: option.splits)

lemma all_orders_agree: "every_run 9 agrees_with_models [] empty_catalog"
proof (rule every_runI)
  show "never_stuck 9 []" by (rule never_stuck_migrations)
  fix ns assume "ns \<in> set (orders 9 [])"
  then obtain ms where "ns = at_0005 @ ms" "ms \<in> set (orders 4 at_0005)" by (auto simp: all_orders)
  then show "\<exists>c. follow [] ns empty_catalog = Some c \<and> agrees_with_models c"
    using orders_agree[of ms] by (simp add: follow_append until_0005)
qed

section \<open>The migrations and the model classes\<close>


lemma final_order_complete: "pending (at_0005 @ orders 4 at_0005 ! 0) = []"
  by code_simp


section \<open>Upgrading a populated database\<close>

text \<open>What the upgrade from \<open>0005\<close> makes of the rows: the outbox gets its delivery columns, refresh tokens a client.\<close>

definition backfill_job :: "instant \<Rightarrow> row \<Rightarrow> row" where
  "backfill_job now r = rewrite_status ''published'' ''pending''
     (r(''attempts'' \<mapsto> V_Int 0, ''locked_by'' := None, ''heartbeat_at'' := None, ''next_attempt_at'' \<mapsto> V_Time now, ''last_error'' := None))"

definition backfill_outbox :: "instant \<Rightarrow> contents \<Rightarrow> contents" where
  "backfill_outbox now C =
     C(''notification_jobs'' := map (backfill_job now) (C ''notification_jobs''), ''notification_log'' := [])"

definition backfill_client :: "contents \<Rightarrow> contents" where
  "backfill_client C = C(''refresh_tokens'' := map (\<lambda>r. r(''client'' \<mapsto> V_Text ''web'')) (C ''refresh_tokens''))"

definition backfill :: "instant \<Rightarrow> string list \<Rightarrow> contents \<Rightarrow> contents" where
  "backfill now applied C =
     (if ''0006_notification_jobs_outbox_delivery'' \<in> set applied then backfill_outbox now else id)
       ((if ''0006_refresh_token_client'' \<in> set applied then backfill_client else id) C)"

lemma backfills_commute: "backfill_client (backfill_outbox now C) = backfill_outbox now (backfill_client C)"
  by (simp add: backfill_client_def backfill_outbox_def fun_upd_twist)

lemma after_0005:
  assumes "n \<in> set (pending p)" "set at_0005 \<subseteq> set p"
  shows "n = ''0006_notification_jobs_outbox_delivery'' \<or> n = ''0006_refresh_token_client'' \<or> n = ''0007_device''
    \<or> n = ''0008_notification_jobs_nullable_event''"
proof -
  have "n \<in> set migration_names" "n \<notin> set at_0005" using assms by (auto simp: pending_def)
  then show ?thesis by (auto simp: migration_names_def dependency_graph_eq at_0005_def)
qed

lemma outbox_statements: "\<exists>ss. next_statements p ''0006_notification_jobs_outbox_delivery'' = Inr ss
    \<and> fold (content_effect now) ss C = backfill_outbox now C"
  by (simp add: backfill_outbox_def next_statements_def operations_of_def migration_defs sql_column_def backfill_job_def [abs_def] comp_def)

lemma client_statements: "\<exists>ss. next_statements p ''0006_refresh_token_client'' = Inr ss
    \<and> fold (content_effect now) ss C = backfill_client C"
  by (simp add: backfill_client_def next_statements_def operations_of_def migration_defs sql_column_def)

lemma event_statements: "\<exists>ss. next_statements p ''0008_notification_jobs_nullable_event'' = Inr ss \<and> fold (content_effect now) ss C = C"
  by (simp add: next_statements_def operations_of_def migration_defs)

lemma device_statements: "next_statements p ''0007_device'' = Inr ss \<Longrightarrow> \<exists>cols. ss = [Create_Table ''devices'' cols []]"
  by (auto simp: next_statements_def operations_of_def migration_defs split: sum.splits list.splits)

lemma missing_table_empty: "populated_ok (cat, C) \<Longrightarrow> columns_of cat t = None \<Longrightarrow> C t = []"
  by (auto simp: populated_ok_def table_ok_def dest: spec[of _ t])

lemma create_keeps_contents:
  assumes "fold_result (execute now) [Create_Table t cols []] (cat, C) = Inr (cat', C')" "populated_ok (cat, C)"
  shows "C' = C"
proof -
  have "columns_of cat t = None" using assms(1) by (auto simp: execute_def split: if_splits)
  from missing_table_empty[OF assms(2) this] fold_result_contents[OF assms(1)] show ?thesis by auto
qed

lemma backfill_step:
  assumes "n \<in> set (pending p)" "set at_0005 \<subseteq> set p" "populated_ok (cat, backfill now p C)"
    and "apply_migration now' p n (cat, backfill now p C) = Inr (cat', C')" "C ''devices'' = []"
  shows "\<exists>now. C' = backfill now (p @ [n]) C"
proof -
  from assms(4) obtain ss where ss: "next_statements p n = Inr ss" "fold_result (execute now') ss (cat, backfill now p C) = Inr (cat', C')"
    by (auto simp: apply_migration_def split: sum.splits)
  note C' = fold_result_contents[OF ss(2)]
  have new: "n \<notin> set p" using assms(1) by (simp add: pending_def)
  from after_0005[OF assms(1,2)] consider (outbox) "n = ''0006_notification_jobs_outbox_delivery''"
    | (client) "n = ''0006_refresh_token_client''" | (device) "n = ''0007_device''" | (event) "n = ''0008_notification_jobs_nullable_event''"
    by (elim disjE)
  then show ?thesis
  proof cases
    case outbox
    with outbox_statements[of p now' "backfill now p C"] ss(1) C' have "C' = backfill_outbox now' (backfill now p C)" by simp
    with outbox new show ?thesis by (intro exI[of _ now']) (simp add: backfill_def)
  next
    case client
    with client_statements[of p now' "backfill now p C"] ss(1) C' have "C' = backfill_client (backfill now p C)" by simp
    with client new show ?thesis by (intro exI[of _ now]) (simp add: backfill_def backfills_commute)
  next
    case device
    with device_statements ss(1) obtain cols where "ss = [Create_Table ''devices'' cols []]" by blast
    with create_keeps_contents ss(2) assms(3) have "C' = backfill now p C" by blast
    with device show ?thesis by (intro exI[of _ now]) (simp add: backfill_def)
  next
    case event
    with event_statements[of p now' "backfill now p C"] ss(1) C' show ?thesis
      by (intro exI[of _ now]) (simp add: backfill_def)
  qed
qed


definition old_job :: row where
  "old_job = [''id'' \<mapsto> V_Uuid 1, ''event_id'' \<mapsto> V_Uuid 2, ''event_type'' \<mapsto> V_Text ''EventCancelled'', ''payload'' \<mapsto> V_Json ''{}'',
     ''status'' \<mapsto> V_Text ''published'', ''idempotency_key'' \<mapsto> V_Text ''1:EventCancelled'', ''created_at'' \<mapsto> V_Time 3, ''updated_at'' \<mapsto> V_Time 3]"

definition old_token :: row where
  "old_token = [''id'' \<mapsto> V_Uuid 4, ''user_id'' \<mapsto> V_Uuid 5, ''token_hash'' \<mapsto> V_Text ''h'', ''expires_at'' \<mapsto> V_Time 9, ''created_at'' \<mapsto> V_Time 6]"

definition old_contents :: contents where
  "old_contents = (\<lambda>_. [])(''notification_jobs'' := [old_job], ''refresh_tokens'' := [old_token])"

lemma old_rows_ok: "table_ok catalog_0005 old_contents ''notification_jobs''" "table_ok catalog_0005 old_contents ''refresh_tokens''"
  by code_simp+

lemma old_contents_ok: "populated_ok (catalog_0005, old_contents)"
proof -
  have "t = ''notification_jobs'' \<or> t = ''refresh_tokens'' \<or> old_contents t = []" for t by (simp add: old_contents_def)
  then show ?thesis using old_rows_ok table_ok_empty unfolding populated_ok_def by (metis fst_conv snd_conv)
qed


end
