(* ===== verification/Application.thy ===== *)
theory Application
  imports Rate_Limit_Properties Configuration
begin

text \<open>
  The application object of \<open>hefest/main.py\<close>: the table of routes in the order the routers are
  included, the middlewares around it, and the liveness probe. A path template is a list of segments;
  matching one is Starlette's documented behaviour (a parameter takes one non-empty segment, the
  first route that matches path and method wins, a path with no route for the method is answered
  405, an unknown path 404). The path the limiter reads from the URL is taken to be the path that is
  routed. The pages FastAPI adds itself (\<open>/docs\<close>, \<open>/openapi.json\<close>) and the redirect
  of trailing slashes are left out.
\<close>

section \<open>Routes\<close>

datatype segment = Lit string | Param string

record route =
  rt_method :: string
  rt_path :: "segment list"
  rt_endpoint :: string

definition on :: "string \<Rightarrow> segment list \<Rightarrow> string \<Rightarrow> route" where
  "on m p e = \<lparr>rt_method = m, rt_path = p, rt_endpoint = e\<rparr>"

definition auth_routes :: "route list" where
  "auth_routes =
    [on ''POST'' [Lit ''register''] ''register'',
     on ''POST'' [Lit ''auth'', Lit ''verify-email''] ''verify_email'',
     on ''POST'' [Lit ''login''] ''login'',
     on ''POST'' [Lit ''auth'', Lit ''refresh''] ''refresh_tokens'',
     on ''POST'' [Lit ''auth'', Lit ''logout''] ''logout'',
     on ''GET'' [Lit ''users'', Lit ''me''] ''get_me'',
     on ''PATCH'' [Lit ''users'', Lit ''me''] ''update_me'',
     on ''POST'' [Lit ''auth'', Lit ''change-password''] ''change_password'',
     on ''POST'' [Lit ''auth'', Lit ''logout-all''] ''logout_all'']"

definition sso_routes :: "route list" where
  "sso_routes =
    [on ''GET'' [Lit ''auth'', Lit ''providers''] ''list_providers'',
     on ''GET'' [Lit ''auth'', Lit ''google'', Lit ''login''] ''google_login'',
     on ''GET'' [Lit ''auth'', Lit ''google'', Lit ''callback''] ''google_callback'',
     on ''GET'' [Lit ''auth'', Lit ''microsoft'', Lit ''login''] ''microsoft_login'',
     on ''GET'' [Lit ''auth'', Lit ''microsoft'', Lit ''callback''] ''microsoft_callback'']"

definition events_routes :: "route list" where
  "events_routes =
    [on ''POST'' [Lit ''events''] ''create_event'',
     on ''GET'' [Lit ''events''] ''list_events'',
     on ''GET'' [Lit ''events'', Param ''event_id''] ''get_event'',
     on ''PUT'' [Lit ''events'', Param ''event_id''] ''update_event'',
     on ''POST'' [Lit ''events'', Param ''event_id'', Lit ''publish''] ''publish_event'',
     on ''POST'' [Lit ''events'', Param ''event_id'', Lit ''cancel''] ''cancel_event'']"

definition registrations_routes :: "route list" where
  "registrations_routes =
    [on ''POST'' [Lit ''events'', Param ''event_id'', Lit ''registrations''] ''register_for_event'',
     on ''GET'' [Lit ''registrations'', Lit ''me''] ''my_registrations'',
     on ''DELETE'' [Lit ''registrations'', Param ''reg_id''] ''cancel_registration'',
     on ''GET'' [Lit ''events'', Param ''event_id'', Lit ''registrations''] ''event_registrations'',
     on ''GET'' [Lit ''events'', Param ''event_id'', Lit ''waitlist''] ''event_waitlist'']"

definition notification_jobs_routes :: "route list" where
  "notification_jobs_routes =
    [on ''GET'' [Lit ''notification-jobs''] ''list_notification_jobs'',
     on ''GET'' [Lit ''notification-jobs'', Param ''job_id''] ''get_notification_job'']"

definition device_routes :: "route list" where
  "device_routes =
    [on ''POST'' [Lit ''devices'', Lit ''register''] ''register_device'',
     on ''POST'' [Lit ''devices'', Lit ''unregister''] ''unregister_device'']"

definition stats_routes :: "route list" where
  "stats_routes = [on ''GET'' [Lit ''stats''] ''get_stats'']"

definition internal_routes :: "route list" where
  "internal_routes = [on ''DELETE'' [Lit ''internal'', Lit ''flush-ratelimit''] ''flush_ratelimit'']"

definition probe_routes :: "route list" where
  "probe_routes = [on ''GET'' [Lit ''health''] ''health'', on ''GET'' [Lit ''ready''] ''ready'']"

definition app_routes :: "string \<Rightarrow> route list" where
  "app_routes env = auth_routes @ sso_routes @ events_routes @ registrations_routes @ notification_jobs_routes
     @ device_routes @ stats_routes @ (if env \<noteq> ''production'' then internal_routes else []) @ probe_routes"

fun segment_matches :: "segment \<Rightarrow> string \<Rightarrow> bool" where
  "segment_matches (Lit l) s \<longleftrightarrow> s = l"
| "segment_matches (Param n) s \<longleftrightarrow> s \<noteq> []"

definition path_matches :: "segment list \<Rightarrow> string \<Rightarrow> bool" where
  "path_matches template path = (case split_on (CHR ''/'') path of
      [] \<Rightarrow> False | root # ss \<Rightarrow> root = [] \<and> list_all2 segment_matches template ss)"

datatype routed = Endpoint string | MethodNotAllowed | NotFound

definition find_route :: "route list \<Rightarrow> string \<Rightarrow> string \<Rightarrow> routed" where
  "find_route rs m path = (case find (\<lambda>r. rt_method r = m \<and> path_matches (rt_path r) path) rs of
      Some r \<Rightarrow> Endpoint (rt_endpoint r)
    | None \<Rightarrow> if \<exists>r\<in>set rs. path_matches (rt_path r) path then MethodNotAllowed else NotFound)"

section \<open>The middlewares\<close>

text \<open>
  Starlette runs the middleware added last first: the proxy headers rewrite the client address
  (\<open>proxy_headers\<close>, of uvicorn), then the rate limiter, then CORS around the routes. Of the handlers
  only the one that flushes counters writes to the store of the limiter.
\<close>

datatype served =
    TooManyRequests int
  | WithCors routed

definition serve ::
  "string \<Rightarrow> (request \<Rightarrow> request) \<Rightarrow> crypto \<Rightarrow> rate_settings \<Rightarrow> request \<Rightarrow> instant \<Rightarrow> string \<Rightarrow> redis \<Rightarrow> served \<times> redis" where
  "serve env proxy_headers cr rs rq now member st =
     (let rq' = proxy_headers rq
      in case dispatch cr rs rq' now member st of
           (TooMany retry, st') \<Rightarrow> (TooManyRequests retry, st')
         | (CallNext, st') \<Rightarrow>
             let routed = find_route (app_routes env) (rq_method rq') (rq_path rq')
             in (WithCors routed, if routed = Endpoint ''flush_ratelimit'' then flush_ratelimit rq' st' else st'))"

record health_response =
  hr_status :: string
  hr_version :: string

definition health :: health_response where
  "health = \<lparr>hr_status = ''ok'', hr_version = ''0.1.0''\<rparr>"

section \<open>Every request has at most one route\<close>

fun compatible :: "segment \<Rightarrow> segment \<Rightarrow> bool" where
  "compatible (Lit a) (Lit b) \<longleftrightarrow> a = b"
| "compatible _ _ \<longleftrightarrow> True"

definition overlap :: "route \<Rightarrow> route \<Rightarrow> bool" where
  "overlap r1 r2 \<longleftrightarrow> rt_method r1 = rt_method r2 \<and> list_all2 compatible (rt_path r1) (rt_path r2)"

lemma segment_compatible: "segment_matches a s \<Longrightarrow> segment_matches b s \<Longrightarrow> compatible a b"
  by (cases a; cases b) auto

lemma both_match_overlap:
  assumes "rt_method r1 = rt_method r2" "path_matches (rt_path r1) p" "path_matches (rt_path r2) p"
  shows "overlap r1 r2"
proof -
  from assms(2,3) obtain ss where "list_all2 segment_matches (rt_path r1) ss" "list_all2 segment_matches (rt_path r2) ss"
    by (auto simp: path_matches_def split: list.splits)
  then have "list_all2 compatible (rt_path r1) (rt_path r2)"
    unfolding list_all2_conv_all_nth by (metis segment_compatible)
  with assms(1) show ?thesis by (simp add: overlap_def)
qed

fun pairwise_distinct :: "route list \<Rightarrow> bool" where
  "pairwise_distinct [] \<longleftrightarrow> True"
| "pairwise_distinct (r # rs) \<longleftrightarrow> (\<forall>s\<in>set rs. \<not> overlap r s) \<and> pairwise_distinct rs"

lemma development_routes: "pairwise_distinct (app_routes ''dev'')"
  by code_simp

lemma production_routes: "pairwise_distinct (app_routes ''production'')"
  by code_simp

lemma routes_disjoint: "pairwise_distinct (app_routes env)"
  using development_routes production_routes by (cases "env = ''production''") (auto simp: app_routes_def)

lemma disjoint_unique:
  assumes "pairwise_distinct rs" "r \<in> set rs" "s \<in> set rs" "overlap r s"
  shows "r = s"
proof -
  have "overlap s r" using assms(4) by (auto simp: overlap_def list_all2_conv_all_nth) (metis compatible.elims(2) compatible.simps)
  with assms show ?thesis by (induction rs) auto
qed

text \<open>
  The table is unambiguous: at most one route takes a request, so the order in which the routers are
  included, and in which a router declares its routes, does not matter.
\<close>

lemma find_route_Endpoint:
  "find_route (app_routes env) m p = Endpoint e \<longleftrightarrow>
     (\<exists>r\<in>set (app_routes env). rt_method r = m \<and> path_matches (rt_path r) p \<and> rt_endpoint r = e)"
proof -
  let ?P = "\<lambda>r. rt_method r = m \<and> path_matches (rt_path r) p"
  have one: "r = s" if "r \<in> set (app_routes env)" "s \<in> set (app_routes env)" "?P r" "?P s" for r s
    using that both_match_overlap[of r s p] by (intro disjoint_unique[OF routes_disjoint]) auto
  have find: "find ?P rs = Some r \<Longrightarrow> r \<in> set rs \<and> ?P r" for rs r by (auto simp: find_Some_iff)
  show ?thesis
  proof
    assume "find_route (app_routes env) m p = Endpoint e"
    then obtain r where "find ?P (app_routes env) = Some r" "rt_endpoint r = e"
      by (auto simp: find_route_def simp del: find_Some_iff split: option.splits if_splits)
    with find[of "app_routes env" r] show "\<exists>r\<in>set (app_routes env). rt_method r = m \<and> path_matches (rt_path r) p \<and> rt_endpoint r = e"
      by blast
  next
    assume "\<exists>r\<in>set (app_routes env). rt_method r = m \<and> path_matches (rt_path r) p \<and> rt_endpoint r = e"
    then obtain r where r: "r \<in> set (app_routes env)" "?P r" "rt_endpoint r = e" by blast
    then obtain s where s: "find ?P (app_routes env) = Some s" by (cases "find ?P (app_routes env)") (auto simp: find_None_iff)
    have "s = r" using find[OF s] r by (intro one) auto
    with s r(3) show "find_route (app_routes env) m p = Endpoint e" by (simp add: find_route_def)
  qed
qed

lemma routing_ignores_order:
  assumes "set rs = set (app_routes env)"
  shows "find_route rs m p = find_route (app_routes env) m p"
proof -
  let ?P = "\<lambda>r. rt_method r = m \<and> path_matches (rt_path r) p"
  have one: "r = s" if "r \<in> set rs" "s \<in> set rs" "?P r" "?P s" for r s
    using that both_match_overlap[of r s p] assms by (intro disjoint_unique[OF routes_disjoint]) auto
  have "find ?P rs = find ?P (app_routes env)"
  proof (cases "find ?P rs")
    case None
    with assms have "find ?P (app_routes env) = None" by (simp add: find_None_iff)
    with None show ?thesis by simp
  next
    case (Some r)
    then have r: "?P r" "r \<in> set rs" by (auto simp: find_Some_iff)
    then obtain s where s: "find ?P (app_routes env) = Some s"
      using assms by (cases "find ?P (app_routes env)") (auto simp: find_None_iff)
    then have "?P s" "s \<in> set rs" using assms by (auto simp: find_Some_iff)
    with Some s one[OF r(2) _ r(1)] show ?thesis by simp
  qed
  then show ?thesis unfolding find_route_def assms by (rule arg_cong)
qed

lemmas route_tables = app_routes_def auth_routes_def sso_routes_def events_routes_def registrations_routes_def
  notification_jobs_routes_def device_routes_def stats_routes_def probe_routes_def internal_routes_def on_def

lemma route_of:
  assumes "r \<in> set (app_routes env)"
  shows "rt_endpoint r = ''login'' \<Longrightarrow> rt_method r = ''POST'' \<and> rt_path r = [Lit ''login'']"
    and "rt_endpoint r = ''register'' \<Longrightarrow> rt_method r = ''POST'' \<and> rt_path r = [Lit ''register'']"
    and "rt_endpoint r = ''register_for_event'' \<Longrightarrow> rt_method r = ''POST''
       \<and> rt_path r = [Lit ''events'', Param ''event_id'', Lit ''registrations'']"
    and "rt_endpoint r = ''flush_ratelimit'' \<Longrightarrow> env \<noteq> ''production''"
  using assms by (auto simp: route_tables split: if_splits)

text \<open>The route that resets counters exists outside production only.\<close>

lemma flush_unreachable_in_production: "find_route (app_routes env) m p = Endpoint ''flush_ratelimit'' \<Longrightarrow> env \<noteq> ''production''"
  unfolding find_route_Endpoint using route_of(4) by blast

section \<open>What the rate limiter sees\<close>

lemma split_no_slash: "s \<in> set (split_on (CHR ''/'') p) \<Longrightarrow> CHR ''/'' \<notin> set s"
  by (induction p arbitrary: s) (auto split: list.splits if_splits)

lemma path_matches_split: "path_matches template p \<longleftrightarrow> (\<exists>ss. split_on (CHR ''/'') p = [] # ss \<and> list_all2 segment_matches template ss)"
  by (auto simp: path_matches_def split: list.splits)

lemma literal_path: "path_matches [Lit a] p \<Longrightarrow> p = CHR ''/'' # a"
  using join_split[of "CHR ''/''" p] by (auto simp: path_matches_split list_all2_Cons1)

lemma registration_path:
  assumes "path_matches [Lit ''events'', Param n, Lit ''registrations''] p"
  shows "events_register_path p"
proof -
  from assms obtain s where s: "split_on (CHR ''/'') p = [[], ''events'', s, ''registrations'']" "s \<noteq> []"
    by (auto simp: path_matches_split list_all2_Cons1)
  have p: "p = ''/events/'' @ s @ ''/registrations''" using join_split[of "CHR ''/''" p] by (simp add: s(1))
  have "CHR ''/'' \<notin> set s" using split_no_slash[of s p] by (simp add: s(1))
  with s(2) show ?thesis by (cases s) (simp_all add: events_register_path_def p)
qed

text \<open>
  Whatever request reaches the handler of a login, a sign-up or a registration for an event has been
  counted under the rule for it, and not under the general one.
\<close>

lemma limited_endpoints:
  "find_route (app_routes env) (rq_method rq) (rq_path rq) = Endpoint ''login'' \<Longrightarrow> resolved rs rq = Some (rules rs ! 0)"
  "find_route (app_routes env) (rq_method rq) (rq_path rq) = Endpoint ''register'' \<Longrightarrow> resolved rs rq = Some (rules rs ! 1)"
  "find_route (app_routes env) (rq_method rq) (rq_path rq) = Endpoint ''register_for_event'' \<Longrightarrow> resolved rs rq = Some (rules rs ! 2)"
proof -
  assume "find_route (app_routes env) (rq_method rq) (rq_path rq) = Endpoint ''login''"
  then have "rq_method rq = ''POST''" "path_matches [Lit ''login''] (rq_path rq)"
    unfolding find_route_Endpoint using route_of(1) by metis+
  then show "resolved rs rq = Some (rules rs ! 0)"
    by (auto simp: resolved_def rules_def rule_matches_def dest!: literal_path)
next
  assume "find_route (app_routes env) (rq_method rq) (rq_path rq) = Endpoint ''register''"
  then have "rq_method rq = ''POST''" "path_matches [Lit ''register''] (rq_path rq)"
    unfolding find_route_Endpoint using route_of(2) by metis+
  then show "resolved rs rq = Some (rules rs ! 1)"
    by (auto simp: resolved_def rules_def rule_matches_def dest!: literal_path)
next
  assume "find_route (app_routes env) (rq_method rq) (rq_path rq) = Endpoint ''register_for_event''"
  then have "rq_method rq = ''POST''" "path_matches [Lit ''events'', Param ''event_id'', Lit ''registrations''] (rq_path rq)"
    unfolding find_route_Endpoint using route_of(3) by metis+
  then have "rq_method rq = ''POST''" "events_register_path (rq_path rq)" by (simp_all add: registration_path)
  moreover from this have "rq_path rq \<noteq> ''/login''" "rq_path rq \<noteq> ''/register''"
    by (auto simp: events_register_path_def)
  ultimately show "resolved rs rq = Some (rules rs ! 2)"
    by (simp add: resolved_def rules_def rule_matches_def events_register_re_def numeral_2_eq_2)
qed

text \<open>
  A refused request never reaches the CORS middleware, so its response carries no CORS headers and a
  browser on another origin cannot read the status or the \<open>Retry-After\<close> of it.
\<close>

lemma refused_without_cors:
  "fst (dispatch cr rs (proxy_headers rq) now member st) = TooMany retry \<Longrightarrow>
     fst (serve env proxy_headers cr rs rq now member st) = TooManyRequests retry"
  by (auto simp: serve_def Let_def split: prod.splits)

section \<open>Guessing passwords\<close>

text \<open>A sequence of requests, each with its instant and the member the limiter adds, and what is served.\<close>

fun serve_all ::
  "string \<Rightarrow> (request \<Rightarrow> request) \<Rightarrow> crypto \<Rightarrow> rate_settings \<Rightarrow> (request \<times> instant \<times> string) list \<Rightarrow> redis
     \<Rightarrow> (request \<times> instant \<times> served) list" where
  "serve_all env proxy_headers cr rs [] st = []"
| "serve_all env proxy_headers cr rs ((rq, now, member) # reqs) st =
     (case serve env proxy_headers cr rs rq now member st of
        (out, st') \<Rightarrow> (proxy_headers rq, now, out) # serve_all env proxy_headers cr rs reqs st')"

definition logins :: "string \<Rightarrow> (request \<times> instant \<times> served) list \<Rightarrow> instant list" where
  "logins ip trace = map (\<lambda>(rq, now, out). now)
     (filter (\<lambda>(rq, now, out). out = WithCors (Endpoint ''login'') \<and> client_ip rq = ip) trace)"

definition is_login :: "string \<Rightarrow> request \<Rightarrow> bool" where
  "is_login ip rq \<longleftrightarrow> rq_method rq = ''POST'' \<and> rq_path rq = ''/login'' \<and> client_ip rq = ip"

definition login_key :: "string \<Rightarrow> string" where
  "login_key ip = ratelimit_prefix @ '':login:ip:'' @ ip"

lemma post_login_routed: "find_route (app_routes env) ''POST'' ''/login'' = Endpoint ''login''"
  unfolding find_route_Endpoint
  by (rule bexI[of _ "on ''POST'' [Lit ''login''] ''login''"]) (simp_all add: path_matches_def on_def app_routes_def auth_routes_def)

lemma login_routed: "find_route (app_routes env) m p = Endpoint ''login'' \<longleftrightarrow> m = ''POST'' \<and> p = ''/login''"
proof
  assume "find_route (app_routes env) m p = Endpoint ''login''"
  then have "m = ''POST''" "path_matches [Lit ''login''] p" unfolding find_route_Endpoint using route_of(1) by metis+
  then show "m = ''POST'' \<and> p = ''/login''" using literal_path by simp
qed (simp add: post_login_routed)

lemma login_rule: "is_login ip rq \<Longrightarrow> resolved rs rq = Some (rules rs ! 0)"
  by (simp add: is_login_def resolved_def rules_def rule_matches_def)

lemma login_request_key: "is_login ip rq \<Longrightarrow> request_key cr (rules rs ! 0) rq now = login_key ip"
  by (simp add: is_login_def request_key_subject subject_def subject_text_def rules_def login_key_def)

lemma other_request_key:
  assumes "resolved rs rq = Some r" "request_key cr r rq now = login_key ip"
  shows "is_login ip rq"
proof -
  have r: "r \<in> set (rules rs)" by (rule resolved_rule[OF assms(1)])
  have "rl_tag r @ '':'' @ subject_text (subject cr r rq now) = ''login'' @ '':'' @ subject_text (Inr ip)"
    using assms(2) by (simp add: request_key_subject login_key_def subject_text_def)
  from split_at_colon[OF rules_tags[OF r] _ this] have "rl_tag r = ''login''" "subject cr r rq now = Inr ip"
    by (simp_all add: subject_text_inj)
  with r assms(1) show ?thesis
    by (auto simp: rules_def resolved_def is_login_def subject_def rule_matches_def split: if_splits)
qed

lemma serve_login:
  assumes "is_login ip (proxy_headers rq)"
    and "sliding_window (login_key ip) now (rs_login_window rs) (rs_login_count rs) member st = ((limited, retry), st')"
  shows "serve env proxy_headers cr rs rq now member st = (if limited then TooManyRequests retry else WithCors (Endpoint ''login''), st')"
proof -
  have "dispatch cr rs (proxy_headers rq) now member st = (if limited then TooMany retry else CallNext, st')"
    using assms(2) by (simp add: dispatch_resolved[OF login_rule[OF assms(1)]] login_request_key[OF assms(1)]) (simp add: rules_def)
  with assms(1) show ?thesis by (simp add: serve_def Let_def is_login_def post_login_routed)
qed

lemma serve_other:
  assumes "\<not> is_login ip (proxy_headers rq)" "serve ''production'' proxy_headers cr rs rq now member st = (out, st')"
  shows "st' (login_key ip) = st (login_key ip) \<and> \<not> (out = WithCors (Endpoint ''login'') \<and> client_ip (proxy_headers rq) = ip)"
proof -
  let ?rq = "proxy_headers rq"
  obtain a st1 where d: "dispatch cr rs ?rq now member st = (a, st1)" by fastforce
  have "st1 (login_key ip) = st (login_key ip)"
  proof (cases "resolved rs ?rq")
    case None
    with d show ?thesis by (simp add: dispatch_def check_def resolved_def)
  next
    case (Some r)
    then have "request_key cr r ?rq now \<noteq> login_key ip" using other_request_key assms(1) by blast
    with d show ?thesis using sliding_window_other[of "login_key ip" "request_key cr r ?rq now"]
      by (auto simp: dispatch_resolved[OF Some] split: prod.splits) (metis snd_conv)
  qed
  moreover have "find_route (app_routes ''production'') m p \<noteq> Endpoint ''flush_ratelimit''" for m p
    using flush_unreachable_in_production by blast
  ultimately show ?thesis using assms d
    by (auto simp: serve_def Let_def login_routed is_login_def split: response.splits)
qed

lemma sliding_window_local_store:
  "st k = st' k \<Longrightarrow> snd (sliding_window k now window limit member st) k = snd (sliding_window k now window limit member st') k"
  by (simp add: sliding_window_def entries_at_def put_entries_def Let_def split: option.splits)

lemma run_checks_local: "st k = st' k \<Longrightarrow> fst (run_checks k window limit reqs st) = fst (run_checks k window limit reqs st')"
proof (induction reqs arbitrary: st st')
  case (Cons q reqs)
  obtain now member where q: "q = (now, member)" by fastforce
  from sliding_window_local[of st k st' now window limit member, OF Cons.prems]
    sliding_window_local_store[of st k st' now window limit member, OF Cons.prems] Cons.IH
  show ?case by (auto simp: q split: prod.splits) (metis fst_conv snd_conv)+
qed simp

text \<open>The logins that are served are the checks of one counter that accept.\<close>

lemma logins_are_checks:
  "logins ip (serve_all ''production'' proxy_headers cr rs reqs st)
     = fst (run_checks (login_key ip) (rs_login_window rs) (rs_login_count rs)
         (map snd (filter (\<lambda>(rq, now, member). is_login ip (proxy_headers rq)) reqs)) st)"
proof (induction reqs arbitrary: st)
  case (Cons q reqs)
  obtain rq now member where q: "q = (rq, now, member)" by (cases q)
  obtain out st' where s: "serve ''production'' proxy_headers cr rs rq now member st = (out, st')" by fastforce
  show ?case
  proof (cases "is_login ip (proxy_headers rq)")
    case True
    obtain limited retry st1 where
      w: "sliding_window (login_key ip) now (rs_login_window rs) (rs_login_count rs) member st = ((limited, retry), st1)" by (metis surj_pair)
    have "serve ''production'' proxy_headers cr rs rq now member st
        = (if limited then TooManyRequests retry else WithCors (Endpoint ''login''), st1)" using True w by (rule serve_login)
    with Cons.IH[of st1] True w show ?thesis
      by (auto simp: q logins_def is_login_def split: prod.splits)
  next
    case False
    from serve_other[OF False s] run_checks_local[of st' "login_key ip" st] Cons.IH[of st'] s False show ?thesis
      by (simp add: q logins_def)
  qed
qed (simp add: logins_def)

lemma chronological_filter: "chronological (map snd reqs) \<Longrightarrow> chronological (map snd (filter P reqs))"
proof -
  assume c: "chronological (map snd reqs)"
  have "sorted (map (fst \<circ> snd) (filter P reqs))" using c by (intro sorted_filter) (simp add: chronological_def)
  moreover have "distinct (map (snd \<circ> snd) (filter P reqs))" using c by (intro distinct_map_filter) (simp add: chronological_def)
  ultimately show ?thesis using c by (auto simp: chronological_def)
qed


definition guesses :: "(request \<times> instant \<times> string) list" where
  "guesses = [(sample_login ''10.0.0.1'', seconds 1, ''a''), (sample_login ''10.0.0.2'', seconds 2, ''b''),
     (sample_login ''10.0.0.1'', seconds 3, ''c''), (sample_login ''10.0.0.1'', seconds 62, ''d'')]"


end
