(* ===== verification/Transactions.thy ===== *)
theory Transactions
  imports Hefest_Prelude
begin

text \<open>
  Transactions as PostgreSQL runs them for the program, statement by statement. A statement first
  takes its row and index locks, waiting while another session holds one of them; then it reads what
  is committed together with the writes of its own transaction (\<open>READ COMMITTED\<close>) and adds to these
  writes. A commit publishes them and releases the locks, a rollback drops them. The locale
  \<open>locking\<close> states when a set of transactions is serial in effect: what a statement has read must stay
  true as long as its locks are held, and a transaction must hold the locks of what it writes.
\<close>

section \<open>A transaction, statement by statement\<close>

text \<open>
  \<open>Stmt locks writes next\<close>: both the writes added and the rest of the transaction depend on the store
  the statement sees.
\<close>

datatype ('k, 's, 'a) tx =
    Commit 'a
  | is_Rollback: Rollback exc
  | Stmt "'k set" "'s \<Rightarrow> 's \<Rightarrow> 's" "'s \<Rightarrow> ('k, 's, 'a) tx"

text \<open>A query, and an update that does not depend on what it reads.\<close>

definition no_write :: "'s \<Rightarrow> 's \<Rightarrow> 's" where
  "no_write v d = d"

definition select_stmt :: "'k set \<Rightarrow> ('s \<Rightarrow> ('k, 's, 'a) tx) \<Rightarrow> ('k, 's, 'a) tx" where
  "select_stmt L k = Stmt L no_write k"

definition update_stmt :: "'k set \<Rightarrow> ('s \<Rightarrow> 's) \<Rightarrow> ('k, 's, 'a) tx \<Rightarrow> ('k, 's, 'a) tx" where
  "update_stmt L f k = Stmt L (\<lambda>v. f) (\<lambda>v. k)"

text \<open>The transaction with nothing in between, on a store and with the writes made so far.\<close>

primrec run_tx :: "('k, 's, 'a) tx \<Rightarrow> ('s \<Rightarrow> 's) \<Rightarrow> ('s, 'a) prog" where
  "run_tx (Commit x) w d = (Inr x, w d)"
| "run_tx (Rollback e) w d = (Inl e, d)"
| "run_tx (Stmt L u k) w d = run_tx (k (w d)) (\<lambda>x. u (w d) (w x)) d"

text \<open>Every lock the run asks for.\<close>

primrec locks_of :: "('k, 's, 'a) tx \<Rightarrow> ('s \<Rightarrow> 's) \<Rightarrow> 's \<Rightarrow> 'k set" where
  "locks_of (Commit x) w d = {}"
| "locks_of (Rollback e) w d = {}"
| "locks_of (Stmt L u k) w d = L \<union> locks_of (k (w d)) (\<lambda>x. u (w d) (w x)) d"

text \<open>
  Reads are protected along this run: on any store that \<open>R\<close> allows while the locks taken so far are
  held, each statement writes the same and continues in the same way. A statement after which the
  transaction is rolled back needs no protection.
\<close>

primrec protected :: "('k set \<Rightarrow> 's \<Rightarrow> 's \<Rightarrow> bool) \<Rightarrow> ('k, 's, 'a) tx \<Rightarrow> ('s \<Rightarrow> 's) \<Rightarrow> 'k set \<Rightarrow> 's \<Rightarrow> bool" where
  "protected R (Commit x) w L d \<longleftrightarrow> True"
| "protected R (Rollback e) w L d \<longleftrightarrow> True"
| "protected R (Stmt M u k) w L d \<longleftrightarrow>
     (\<not> is_Rollback (k (w d)) \<longrightarrow> (\<forall>d'. R (L \<union> M) d d' \<longrightarrow> u (w d') = u (w d) \<and> k (w d') = k (w d)))
     \<and> protected R (k (w d)) (\<lambda>x. u (w d) (w x)) (L \<union> M) d"

text \<open>
  Writes are guarded along this run: what a statement writes is covered by the locks taken so far,
  unless the transaction is rolled back after it.
  \<open>R L\<close> relates the stores that differ only in what the locks \<open>L\<close> do not protect.
\<close>

primrec guarded :: "('k set \<Rightarrow> 's \<Rightarrow> 's \<Rightarrow> bool) \<Rightarrow> ('k, 's, 'a) tx \<Rightarrow> ('s \<Rightarrow> 's) \<Rightarrow> 'k set \<Rightarrow> 's \<Rightarrow> bool" where
  "guarded R (Commit x) w L d \<longleftrightarrow> True"
| "guarded R (Rollback e) w L d \<longleftrightarrow> True"
| "guarded R (Stmt M u k) w L d \<longleftrightarrow>
     (\<not> is_Rollback (k (w d)) \<longrightarrow> R (- (L \<union> M)) (w d) (u (w d) (w d))) \<and> guarded R (k (w d)) (\<lambda>x. u (w d) (w x)) (L \<union> M) d"

text \<open>Both halves of a locking protocol, for a transaction that has got to a point of its run.\<close>

definition obeys :: "('s \<Rightarrow> bool) \<Rightarrow> ('k set \<Rightarrow> 's \<Rightarrow> 's \<Rightarrow> bool) \<Rightarrow>
    ('k, 's, 'a) tx \<Rightarrow> ('s \<Rightarrow> 's) \<Rightarrow> 'k set \<Rightarrow> 's \<Rightarrow> bool" where
  "obeys I R t w L d \<longleftrightarrow> protected (\<lambda>L d d'. I d' \<and> R L d d') t w L d \<and> guarded R t w L d"

lemma obeys_end [simp]: "obeys I R (Commit x) w L d" "obeys I R (Rollback e) w L d"
  by (simp_all add: obeys_def)

lemma obeys_select:
  assumes "\<And>d'. \<not> is_Rollback (k (w d)) \<Longrightarrow> I d' \<Longrightarrow> R (L \<union> M) d d' \<Longrightarrow> k (w d') = k (w d)"
    and "obeys I R (k (w d)) w (L \<union> M) d" "\<And>L d. R L d d"
  shows "obeys I R (select_stmt M k) w L d"
  using assms by (auto simp: obeys_def select_stmt_def no_write_def)

lemma obeys_update:
  assumes "\<not> is_Rollback k \<Longrightarrow> R (- (L \<union> M)) (w d) (f (w d))" "obeys I R k (\<lambda>x. f (w x)) (L \<union> M) d"
  shows "obeys I R (update_stmt M f k) w L d"
  using assms by (simp add: obeys_def update_stmt_def)

text \<open>\<open>reached d t w L t' w' L'\<close>: the run on \<open>d\<close> gets from one point of the transaction to another.\<close>

inductive reached :: "'s \<Rightarrow> ('k, 's, 'a) tx \<Rightarrow> ('s \<Rightarrow> 's) \<Rightarrow> 'k set \<Rightarrow> ('k, 's, 'a) tx \<Rightarrow> ('s \<Rightarrow> 's) \<Rightarrow> 'k set \<Rightarrow> bool" for d where
  here: "reached d t w L t w L"
| further: "reached d t w L (Stmt M u k) w' L' \<Longrightarrow> \<not> is_Rollback (k (w' d)) \<Longrightarrow>
    reached d t w L (k (w' d)) (\<lambda>x. u (w' d) (w' x)) (L' \<union> M)"

lemma reached_run: "reached d t w L t' w' L' \<Longrightarrow> run_tx t w d = run_tx t' w' d"
  by (induction rule: reached.induct) simp_all

lemma reached_locks: "reached d t w L t' w' L' \<Longrightarrow> L \<union> locks_of t w d = L' \<union> locks_of t' w' d"
  by (induction rule: reached.induct) (simp_all add: Un_assoc)

lemma reached_first:
  "reached d t w L t' w' L' \<Longrightarrow> t' = t \<and> L' = L \<or> (\<exists>M u k. t = Stmt M u k \<and> M \<subseteq> L')"
  by (induction rule: reached.induct) auto

lemma reached_protected: "reached d t w L t' w' L' \<Longrightarrow> protected R t w L d \<Longrightarrow> protected R t' w' L' d"
  by (induction rule: reached.induct) simp_all

lemma reached_guarded:
  assumes "reached d t w L t' w' L'" "guarded R t w L d" "R (- L) d (w d)"
    and "\<And>A B a b. A \<subseteq> B \<Longrightarrow> R B a b \<Longrightarrow> R A a b" "\<And>A a b c. R A a b \<Longrightarrow> R A b c \<Longrightarrow> R A a c"
  shows "R (- L') d (w' d) \<and> guarded R t' w' L' d"
  using assms(1-3)
proof (induction rule: reached.induct)
  case (further t w L M u k w' L')
  then have so_far: "R (- L') d (w' d)" and g: "guarded R (Stmt M u k) w' L' d" by blast+
  have "R (- (L' \<union> M)) d (w' d)" by (rule assms(4)[OF _ so_far]) blast
  with g further.hyps(2) show ?case by (auto intro: assms(5))
qed simp

text \<open>Another store that the locks allow leads to the same point.\<close>

lemma reached_elsewhere:
  assumes "reached d t w L t' w' L'" "protected R t w L d" "R L' d d'"
    and "\<And>A B. A \<subseteq> B \<Longrightarrow> R B d d' \<Longrightarrow> R A d d'"
  shows "reached d' t w L t' w' L'"
  using assms(1-3)
proof (induction rule: reached.induct)
  case (here t w L)
  show ?case by (rule reached.here)
next
  case (further t w L M u k w' L')
  have "R L' d d'" using assms(4)[OF _ further.prems(2)] by blast
  with further have there: "reached d' t w L (Stmt M u k) w' L'" by blast
  from reached_protected[OF further.hyps(1) further.prems(1)] further.hyps(2) further.prems(2)
  have "u (w' d') = u (w' d)" "k (w' d') = k (w' d)" by auto
  with reached.further[OF there] further.hyps(2) show ?case by simp
qed

section \<open>Sessions\<close>

record ('k, 's, 'a, 'r) session =
  ses_request :: 'r
  ses_seen :: 's
  ses_tx :: "('k, 's, 'a) tx"
  ses_writes :: "'s \<Rightarrow> 's"
  ses_locks :: "'k set"

record ('k, 's, 'a, 'r) world =
  committed :: 's
  sessions :: "nat \<Rightarrow> ('k, 's, 'a, 'r) session option"

definition idle :: "'s \<Rightarrow> ('k, 's, 'a, 'r) world" where
  "idle d = \<lparr>committed = d, sessions = (\<lambda>i. None)\<rparr>"

definition unlocked :: "nat \<Rightarrow> 'k set \<Rightarrow> ('k, 's, 'a, 'r) world \<Rightarrow> bool" where
  "unlocked i L w \<longleftrightarrow> (\<forall>j s. j \<noteq> i \<longrightarrow> sessions w j = Some s \<longrightarrow> L \<inter> ses_locks s = {})"

definition put_session :: "nat \<Rightarrow> ('k, 's, 'a, 'r) session option \<Rightarrow> ('k, 's, 'a, 'r) world \<Rightarrow> ('k, 's, 'a, 'r) world" where
  "put_session i so w = w\<lparr>sessions := (sessions w)(i := so)\<rparr>"

definition new_session :: "('r \<Rightarrow> 's \<Rightarrow> ('k, 's, 'a) tx) \<Rightarrow> 'r \<Rightarrow> 's \<Rightarrow> ('k, 's, 'a, 'r) session" where
  "new_session opener r d = \<lparr>ses_request = r, ses_seen = d, ses_tx = opener r d, ses_writes = id, ses_locks = {}\<rparr>"

definition advance :: "'k set \<Rightarrow> ('s \<Rightarrow> 's \<Rightarrow> 's) \<Rightarrow> ('s \<Rightarrow> ('k, 's, 'a) tx) \<Rightarrow> 's \<Rightarrow>
    ('k, 's, 'a, 'r) session \<Rightarrow> ('k, 's, 'a, 'r) session" where
  "advance L u k d s = (let v = ses_writes s d in
     s\<lparr>ses_tx := k v, ses_writes := (\<lambda>x. u v (ses_writes s x)), ses_locks := ses_locks s \<union> L\<rparr>)"

text \<open>
  One step of one session, or of anything else that writes the database. A label is the end of a
  session: its request, the store its first reads saw, and its outcome. A session may be lost at any
  time (a closed connection, the victim of a deadlock). \<open>keeps L d d'\<close> says that a write from \<open>d\<close> to
  \<open>d'\<close> does not touch what the locks \<open>L\<close> protect.
\<close>

inductive tx_step ::
  "('r \<Rightarrow> 's \<Rightarrow> ('k, 's, 'a) tx) \<Rightarrow> ('r \<Rightarrow> 's \<Rightarrow> bool) \<Rightarrow> ('k set \<Rightarrow> 's \<Rightarrow> 's \<Rightarrow> bool) \<Rightarrow> ('s \<Rightarrow> 's \<Rightarrow> bool) \<Rightarrow>
   ('k, 's, 'a, 'r) world \<Rightarrow> ('r \<times> 's \<times> (exc + 'a)) option \<Rightarrow> ('k, 's, 'a, 'r) world \<Rightarrow> bool"
  for opener admissible keeps env where
  t_open: "sessions w i = None \<Longrightarrow> admissible r (committed w) \<Longrightarrow>
    tx_step opener admissible keeps env w None (put_session i (Some (new_session opener r (committed w))) w)"
| t_stmt: "sessions w i = Some s \<Longrightarrow> ses_tx s = Stmt L u k \<Longrightarrow> unlocked i L w \<Longrightarrow>
    \<not> is_Rollback (k (ses_writes s (committed w))) \<Longrightarrow>
    tx_step opener admissible keeps env w None (put_session i (Some (advance L u k (committed w) s)) w)"
| t_raise: "sessions w i = Some s \<Longrightarrow> ses_tx s = Stmt L u k \<Longrightarrow> unlocked i L w \<Longrightarrow>
    k (ses_writes s (committed w)) = Rollback e \<Longrightarrow>
    tx_step opener admissible keeps env w (Some (ses_request s, ses_seen s, Inl e)) (put_session i None w)"
| t_refuse: "sessions w i = Some s \<Longrightarrow> ses_tx s = Rollback e \<Longrightarrow>
    tx_step opener admissible keeps env w (Some (ses_request s, ses_seen s, Inl e)) (put_session i None w)"
| t_commit: "sessions w i = Some s \<Longrightarrow> ses_tx s = Commit x \<Longrightarrow>
    tx_step opener admissible keeps env w (Some (ses_request s, ses_seen s, Inr x))
      (put_session i None (w\<lparr>committed := ses_writes s (committed w)\<rparr>))"
| t_lost: "sessions w i = Some s \<Longrightarrow> tx_step opener admissible keeps env w None (put_session i None w)"
| t_other: "env (committed w) d' \<Longrightarrow> (\<And>i s. sessions w i = Some s \<Longrightarrow> keeps (ses_locks s) (committed w) d') \<Longrightarrow>
    tx_step opener admissible keeps env w None (w\<lparr>committed := d'\<rparr>)"

text \<open>A run, with the labels of its steps; an end of a session comes with the store it ends on.\<close>

inductive tx_run ::
  "(('k, 's, 'a, 'r) world \<Rightarrow> ('r \<times> 's \<times> (exc + 'a)) option \<Rightarrow> ('k, 's, 'a, 'r) world \<Rightarrow> bool) \<Rightarrow>
   ('k, 's, 'a, 'r) world \<Rightarrow> ('k, 's, 'a, 'r) world \<Rightarrow> bool" for step where
  run_start: "tx_run step w w"
| run_step: "tx_run step w w' \<Longrightarrow> step w' l w'' \<Longrightarrow> tx_run step w w''"

lemma sessions_put [simp]: "sessions (put_session i so w) = (sessions w)(i := so)" "committed (put_session i so w) = committed w"
  by (simp_all add: put_session_def)

lemma run_trans: "tx_run step b c \<Longrightarrow> tx_run step a b \<Longrightarrow> tx_run step a c"
proof (induction rule: tx_run.induct)
  case (run_step b c l c')
  then have "tx_run step a c" by simp
  from tx_run.run_step[OF this run_step.hyps(2)] show ?case .
qed simp

lemma run_one: "step a l b \<Longrightarrow> tx_run step a b"
  by (rule run_step[OF run_start])

text \<open>A session that nobody blocks can run to its end, with the outcome of its statements in a row.\<close>

lemma run_alone:
  fixes w :: "('k, 's, 'a, 'r) world"
  assumes "sessions w i = Some s" "\<And>j t. j \<noteq> i \<Longrightarrow> sessions w j = Some t \<Longrightarrow> ses_locks t = {}"
    and "run_tx (ses_tx s) (ses_writes s) (committed w) = (res, d')"
  shows "\<exists>w1. tx_run (tx_step opener admissible keeps env) w w1 \<and> committed w1 = committed w \<and> (\<forall>j. j \<noteq> i \<longrightarrow> sessions w1 j = sessions w j)
    \<and> tx_step opener admissible keeps env w1 (Some (ses_request s, ses_seen s, res)) (put_session i None (w\<lparr>committed := d'\<rparr>))"
  using assms
proof (induction "ses_tx s" arbitrary: s w)
  case (Commit x)
  note tx = Commit.hyps[symmetric]
  have "res = Inr x" "d' = ses_writes s (committed w)" using Commit.prems(3) by (simp_all add: tx)
  with t_commit[OF Commit.prems(1) tx, of opener admissible keeps env] run_start show ?case
    by (intro exI[where x = w] conjI) simp_all
next
  case (Rollback e)
  note tx = Rollback.hyps[symmetric]
  have "res = Inl e" "w\<lparr>committed := d'\<rparr> = w" using Rollback.prems(3) by (simp_all add: tx)
  with t_refuse[OF Rollback.prems(1) tx, of opener admissible keeps env] run_start show ?case
    by (intro exI[where x = w] conjI) simp_all
next
  case (Stmt L u k)
  let ?v = "ses_writes s (committed w)"
  have free: "unlocked i L w" using Stmt.prems(2) by (auto simp: unlocked_def)
  note tx = Stmt.hyps(2)[symmetric]
  show ?case
  proof (cases "is_Rollback (k ?v)")
    case True
    then obtain e where e: "k ?v = Rollback e" by (cases "k ?v") simp_all
    then have "res = Inl e" "w\<lparr>committed := d'\<rparr> = w" using Stmt.prems(3) by (simp_all add: tx)
    with t_raise[OF Stmt.prems(1) tx free e, of opener admissible keeps env] run_start show ?thesis
      by (intro exI[where x = w] conjI) simp_all
  next
    case False
    let ?s = "advance L u k (committed w) s"
    let ?w = "put_session i (Some ?s) w"
    have first: "tx_step opener admissible keeps env w None ?w" by (rule t_stmt[OF Stmt.prems(1) tx free False])
    have s: "sessions ?w i = Some ?s" "ses_tx ?s \<in> range k" "ses_request ?s = ses_request s" "ses_seen ?s = ses_seen s"
      by (simp_all add: advance_def Let_def)
    have alone: "\<And>j t. j \<noteq> i \<Longrightarrow> sessions ?w j = Some t \<Longrightarrow> ses_locks t = {}" using Stmt.prems(2) by simp
    have rest: "run_tx (ses_tx ?s) (ses_writes ?s) (committed ?w) = (res, d')"
      using Stmt.prems(3) by (simp add: tx advance_def Let_def)
    have "\<exists>w1. tx_run (tx_step opener admissible keeps env) ?w w1 \<and> committed w1 = committed ?w \<and> (\<forall>j. j \<noteq> i \<longrightarrow> sessions w1 j = sessions ?w j)
      \<and> tx_step opener admissible keeps env w1 (Some (ses_request ?s, ses_seen ?s, res)) (put_session i None (?w\<lparr>committed := d'\<rparr>))"
      by (rule Stmt.hyps(1)[OF s(2) s(1) _ rest]) (rule alone)
    then obtain w1 where run: "tx_run (tx_step opener admissible keeps env) ?w w1" and same: "committed w1 = committed w"
      "\<forall>j. j \<noteq> i \<longrightarrow> sessions w1 j = sessions ?w j" and last:
      "tx_step opener admissible keeps env w1 (Some (ses_request s, ses_seen s, res)) (put_session i None (?w\<lparr>committed := d'\<rparr>))"
      unfolding s(3,4) sessions_put(2) by blast
    have "put_session i None (?w\<lparr>committed := d'\<rparr>) = put_session i None (w\<lparr>committed := d'\<rparr>)"
      by (simp add: put_session_def)
    with last same run_trans[OF run run_one[where step = "tx_step opener admissible keeps env", OF first]] show ?thesis
      by (intro exI[where x = w1] conjI) simp_all
  qed
qed

section \<open>Two-phase locking makes runs serial\<close>

text \<open>
  \<open>opener r d\<close> is the transaction that a request starts after its first, unlocked reads have seen \<open>d\<close>;
  \<open>atomic r d\<close> is the handler as one step. \<open>ready r d d'\<close> is what the request knows of the store \<open>d'\<close>
  when it has seen \<open>d\<close>.
\<close>

locale locking =
  fixes opener :: "'r \<Rightarrow> 's \<Rightarrow> ('k, 's, 'a) tx"
    and atomic :: "'r \<Rightarrow> 's \<Rightarrow> ('s, 'a) prog"
    and admissible :: "'r \<Rightarrow> 's \<Rightarrow> bool"
    and ready :: "'r \<Rightarrow> 's \<Rightarrow> 's \<Rightarrow> bool"
    and inv :: "'s \<Rightarrow> bool"
    and keeps :: "'k set \<Rightarrow> 's \<Rightarrow> 's \<Rightarrow> bool"
    and env :: "'s \<Rightarrow> 's \<Rightarrow> bool"
  assumes keeps_mono: "A \<subseteq> B \<Longrightarrow> keeps B d d' \<Longrightarrow> keeps A d d'"
    and keeps_refl: "keeps L d d"
    and keeps_trans: "keeps L a b \<Longrightarrow> keeps L b c \<Longrightarrow> keeps L a c"
    and ready_start: "admissible r d \<Longrightarrow> inv d \<Longrightarrow> ready r d d"
    and ready_kept: "ready r s d \<Longrightarrow> keeps L d d' \<Longrightarrow> ready r s d'"
    and runs_as: "inv d \<Longrightarrow> ready r s d \<Longrightarrow> run_tx (opener r s) id d = atomic r s d"
    and reads_protected: "inv d \<Longrightarrow> ready r s d \<Longrightarrow> protected (\<lambda>L d d'. inv d' \<and> keeps L d d') (opener r s) id {} d"
    and writes_guarded: "inv d \<Longrightarrow> ready r s d \<Longrightarrow> guarded keeps (opener r s) id {} d"
    and inv_atomic: "inv d \<Longrightarrow> ready r s d \<Longrightarrow> atomic r s d = (Inr x, d') \<Longrightarrow> inv d'"
    and inv_env: "inv d \<Longrightarrow> env d d' \<Longrightarrow> inv d'"
begin

definition session_ok :: "'s \<Rightarrow> ('k, 's, 'a, 'r) session \<Rightarrow> bool" where
  "session_ok d s \<longleftrightarrow> ready (ses_request s) (ses_seen s) d
     \<and> reached d (opener (ses_request s) (ses_seen s)) id {} (ses_tx s) (ses_writes s) (ses_locks s)"

definition world_ok :: "('k, 's, 'a, 'r) world \<Rightarrow> bool" where
  "world_ok w \<longleftrightarrow> inv (committed w) \<and> (\<forall>i s. sessions w i = Some s \<longrightarrow> session_ok (committed w) s)
     \<and> (\<forall>i j s t. i \<noteq> j \<longrightarrow> sessions w i = Some s \<longrightarrow> sessions w j = Some t \<longrightarrow> ses_locks s \<inter> ses_locks t = {})"

lemma world_okD:
  assumes "world_ok w"
  shows "inv (committed w)" and "sessions w i = Some s \<Longrightarrow> session_ok (committed w) s"
    and "i \<noteq> j \<Longrightarrow> sessions w i = Some s \<Longrightarrow> sessions w j = Some t \<Longrightarrow> ses_locks s \<inter> ses_locks t = {}"
  using assms unfolding world_ok_def by blast+

lemma session_elsewhere:
  assumes "session_ok d s" "inv d" "inv d'" "keeps (ses_locks s) d d'"
  shows "session_ok d' s"
proof -
  let ?r = "ses_request s" and ?d0 = "ses_seen s"
  have rd: "ready ?r ?d0 d" and at: "reached d (opener ?r ?d0) id {} (ses_tx s) (ses_writes s) (ses_locks s)"
    using assms(1) by (simp_all add: session_ok_def)
  have "reached d' (opener ?r ?d0) id {} (ses_tx s) (ses_writes s) (ses_locks s)"
    by (rule reached_elsewhere[OF at reads_protected[OF assms(2) rd]]) (use assms(3,4) keeps_mono in auto)
  with ready_kept[OF rd assms(4)] show ?thesis by (simp add: session_ok_def)
qed

lemma committed_effect:
  assumes "world_ok w" "sessions w i = Some s" "ses_tx s = Commit x"
  shows "atomic (ses_request s) (ses_seen s) (committed w) = (Inr x, ses_writes s (committed w))"
    and "keeps (- ses_locks s) (committed w) (ses_writes s (committed w))"
proof -
  have ok: "session_ok (committed w) s" "inv (committed w)" using world_okD[OF assms(1)] assms(2) by auto
  then have r: "reached (committed w) (opener (ses_request s) (ses_seen s)) id {} (Commit x) (ses_writes s) (ses_locks s)"
    and rd: "ready (ses_request s) (ses_seen s) (committed w)" using assms(3) by (auto simp: session_ok_def)
  show "atomic (ses_request s) (ses_seen s) (committed w) = (Inr x, ses_writes s (committed w))"
    using reached_run[OF r] runs_as[OF ok(2) rd] by simp
  show "keeps (- ses_locks s) (committed w) (ses_writes s (committed w))"
    using reached_guarded[OF r writes_guarded[OF ok(2) rd] _ keeps_mono keeps_trans] by (simp add: keeps_refl)
qed

lemma raised_effect:
  assumes "world_ok w" "sessions w i = Some s"
    and "ses_tx s = Rollback e \<or> (\<exists>L u k. ses_tx s = Stmt L u k \<and> k (ses_writes s (committed w)) = Rollback e)"
  shows "atomic (ses_request s) (ses_seen s) (committed w) = (Inl e, committed w)"
proof -
  have ok: "session_ok (committed w) s" "inv (committed w)" using world_okD[OF assms(1)] assms(2) by auto
  then have "run_tx (opener (ses_request s) (ses_seen s)) id (committed w) = (Inl e, committed w)"
    using reached_run assms(3) unfolding session_ok_def by fastforce
  with ok runs_as show ?thesis unfolding session_ok_def by metis
qed

lemma drop_session: "world_ok w \<Longrightarrow> world_ok (put_session i None w)"
  by (auto simp: world_ok_def)

lemma step_world_ok:
  assumes "tx_step opener admissible keeps env w l w'" "world_ok w"
  shows "world_ok w'"
  using assms
proof (cases rule: tx_step.cases)
  case (t_open i r)
  have "session_ok (committed w) (new_session opener r (committed w))"
    using t_open ready_start world_okD(1)[OF assms(2)] by (auto simp: session_ok_def new_session_def intro: reached.here)
  with assms(2) t_open show ?thesis by (auto simp: world_ok_def new_session_def)
next
  case (t_stmt i s L u k)
  have "session_ok (committed w) (advance L u k (committed w) s)"
    using world_okD(2)[OF assms(2) t_stmt(3)] t_stmt(4,6) reached.further[of "committed w"]
    by (auto simp: session_ok_def advance_def Let_def)
  moreover have "ses_locks (advance L u k (committed w) s) \<inter> ses_locks t = {}" if "sessions w j = Some t" "j \<noteq> i" for j t
    using world_okD(3)[OF assms(2) that(2,1) t_stmt(3)] t_stmt(5) that by (auto simp: unlocked_def advance_def Let_def)
  ultimately show ?thesis using assms(2) t_stmt by (auto simp: world_ok_def)
next
  case (t_commit i s x)
  note ok = world_okD[OF assms(2)]
  let ?d' = "ses_writes s (committed w)"
  note eff = committed_effect[OF assms(2) t_commit(3,4)]
  have rd: "ready (ses_request s) (ses_seen s) (committed w)" using ok(2)[OF t_commit(3)] by (simp add: session_ok_def)
  have inv': "inv ?d'" by (rule inv_atomic[OF ok(1) rd eff(1)])
  have "session_ok ?d' t" if "sessions w j = Some t" "j \<noteq> i" for j t
  proof (rule session_elsewhere[OF ok(2)[OF that(1)] ok(1) inv'])
    show "keeps (ses_locks t) (committed w) ?d'"
      by (rule keeps_mono[OF _ eff(2)]) (use ok(3)[OF that(2,1) t_commit(3)] in blast)
  qed
  with assms(2) inv' t_commit show ?thesis by (auto simp: world_ok_def)
next
  case (t_other d')
  note ok = world_okD[OF assms(2)]
  have "session_ok d' s" if "sessions w i = Some s" for i s
    using session_elsewhere[OF ok(2)[OF that] ok(1) inv_env[OF ok(1) t_other(3)] t_other(4)[OF that]] .
  with assms(2) t_other inv_env show ?thesis by (auto simp: world_ok_def)
qed (use drop_session[OF assms(2)] in auto)

lemma run_world_ok: "tx_run (tx_step opener admissible keeps env) w w' \<Longrightarrow> world_ok w \<Longrightarrow> world_ok w'"
  by (induction rule: tx_run.induct) (auto intro: step_world_ok)

lemma idle_ok: "inv d \<Longrightarrow> world_ok (idle d)"
  by (simp add: world_ok_def idle_def)

text \<open>Every session that ends has had exactly the effect and the outcome of the handler as one step.\<close>

lemma ends_as_one_step:
  assumes "tx_step opener admissible keeps env w (Some (r, seen, res)) w'" "world_ok w"
  shows "atomic r seen (committed w) = (res, committed w') \<and> ready r seen (committed w)"
  using assms(1)
proof (cases rule: tx_step.cases)
  case (t_raise i s L u k e)
  with raised_effect[OF assms(2)] world_okD(2)[OF assms(2)] show ?thesis by (fastforce simp: session_ok_def)
next
  case (t_refuse i s e)
  with raised_effect[OF assms(2)] world_okD(2)[OF assms(2)] show ?thesis by (fastforce simp: session_ok_def)
next
  case (t_commit i s x)
  with committed_effect[OF assms(2)] world_okD(2)[OF assms(2)] show ?thesis by (fastforce simp: session_ok_def)
qed

text \<open>What the handlers and the other writers keep, as single steps, every run keeps.\<close>

lemma world_invariant:
  assumes "tx_run (tx_step opener admissible keeps env) w w'" "world_ok w" "P (committed w)"
    and "\<And>r s d x d'. inv d \<Longrightarrow> P d \<Longrightarrow> ready r s d \<Longrightarrow> atomic r s d = (Inr x, d') \<Longrightarrow> P d'"
    and "\<And>d d'. inv d \<Longrightarrow> P d \<Longrightarrow> env d d' \<Longrightarrow> P d'"
  shows "P (committed w')"
  using assms(1-3)
proof (induction rule: tx_run.induct)
  case (run_step w w' l w'')
  then have ok: "world_ok w'" and P: "P (committed w')" using run_world_ok by auto
  from run_step.hyps(2) show ?case
  proof (cases rule: tx_step.cases)
    case (t_commit i s x)
    with committed_effect[OF ok] world_okD[OF ok] assms(4)[OF _ P] show ?thesis by (fastforce simp: session_ok_def)
  next
    case (t_other d')
    with assms(5)[OF world_okD(1)[OF ok] P] show ?thesis by simp
  qed (use P in auto)
qed

end

end
