(* ===== verification/Interleaving_Protocol.thy ===== *)
theory Interleaving_Protocol
  imports Interleaving
begin

text \<open>
  The locking protocol of the handlers: what each lock protects (\<open>untouched\<close>), that every read of
  every handler is protected by the locks held when it is made, and that every write is covered by
  them. The interpretation \<open>handlers\<close> of \<open>locking\<close> follows, and with it the statements about arbitrary
  interleavings.
\<close>

section \<open>What a lock protects\<close>

definition event_rows :: "uuid \<Rightarrow> db \<Rightarrow> registration list" where
  "event_rows e d = filter (\<lambda>r. reg_event_id r = e) (registrations d)"

definition same_event :: "uuid \<Rightarrow> db \<Rightarrow> db \<Rightarrow> bool" where
  "same_event e d d' \<longleftrightarrow> event_by_id e d' = event_by_id e d \<and> event_rows e d' = event_rows e d"

text \<open>
  The lock of an event row protects the event and, by the convention of the handlers, the
  registrations of the event. The key of an index protects its being taken or free. Rows are never
  deleted by anybody.
\<close>

definition untouched :: "lock set \<Rightarrow> db \<Rightarrow> db \<Rightarrow> bool" where
  "untouched L d d' \<longleftrightarrow> extends d d' \<and> usr_id ` set (users d) \<subseteq> usr_id ` set (users d')
     \<and> (\<forall>e. EventRow e \<in> L \<longrightarrow> same_event e d d')
     \<and> (\<forall>i. RegistrationKey i \<in> L \<longrightarrow> (i \<in> reg_id ` set (registrations d') \<longleftrightarrow> i \<in> reg_id ` set (registrations d)))
     \<and> (\<forall>i. JobKey i \<in> L \<longrightarrow> (i \<in> job_id ` set (notification_jobs d') \<longleftrightarrow> i \<in> job_id ` set (notification_jobs d)))
     \<and> (\<forall>k. JobIdem k \<in> L \<longrightarrow>
          (k \<in> job_idempotency_key ` set (notification_jobs d') \<longleftrightarrow> k \<in> job_idempotency_key ` set (notification_jobs d)))"

lemma untouched_mono: "A \<subseteq> B \<Longrightarrow> untouched B d d' \<Longrightarrow> untouched A d d'"
  unfolding untouched_def by (elim conjE, intro conjI) (assumption | meson subsetD)+

lemma untouched_refl: "untouched L d d"
  by (simp add: untouched_def same_event_def)

lemma untouched_trans: "untouched L a b \<Longrightarrow> untouched L b c \<Longrightarrow> untouched L a c"
  unfolding untouched_def same_event_def
  by (elim conjE, intro conjI) (rule extends_trans, assumption+, rule subset_trans, assumption+, simp_all)

lemma untouched_event: "untouched L d d' \<Longrightarrow> EventRow e \<in> L \<Longrightarrow> same_event e d d'"
  by (simp add: untouched_def)

section \<open>Reads\<close>

lemma has_event_by_id: "has_event e d \<longleftrightarrow> event_by_id e d \<noteq> None"
  by (auto simp: has_event_def event_by_id_def get_or_none_None)

lemma event_rows_views:
  "confirmed_count e d = count_where (\<lambda>r. reg_status r = Confirmed) (event_rows e d)"
  "waitlist_count e d = count_where (\<lambda>r. reg_status r = Waitlisted) (event_rows e d)"
  "waitlisted_rows e d = filter (\<lambda>r. reg_status r = Waitlisted) (event_rows e d)"
  "active_of_event e d = filter active (event_rows e d)"
  by (simp_all add: confirmed_count_def waitlist_count_def waitlisted_rows_def active_of_event_def event_rows_def
      count_where_def has_status_def[abs_def])

lemma same_event_views:
  assumes "same_event e d d'"
  shows "event_by_id e d' = event_by_id e d" "confirmed_count e d' = confirmed_count e d"
    "waitlist_count e d' = waitlist_count e d" "waitlisted_rows e d' = waitlisted_rows e d"
    "active_of_event e d' = active_of_event e d" "has_event e d' = has_event e d"
  using assms by (simp_all add: same_event_def event_rows_views has_event_by_id)

text \<open>The writes a handler makes before it reads again leave these views equal.\<close>

lemma same_event_save:
  assumes "same_event e d d'" "\<And>r. reg_event_id (f r) = reg_event_id r"
  shows "same_event e (save_registration i f d) (save_registration i f d')"
proof -
  have rows: "event_rows e (save_registration i f x) = update_where (\<lambda>r. reg_id r = i) f (event_rows e x)" for x
    using assms(2) by (auto simp: event_rows_def save_registration_def update_where_def filter_map comp_def intro!: map_cong filter_cong)
  with assms(1) show ?thesis
    by (simp add: same_event_def) (simp add: event_by_id_def save_registration_def)
qed

lemma locked_registration:
  assumes "schema_ok d" "schema_ok d'" "same_event e d d'" "registration_by_id i d = Some r" "reg_event_id r = e"
  shows "registration_by_id i d' = Some r"
proof -
  have "r \<in> set (event_rows e d)" "reg_id r = i" using registration_by_id_Some[OF assms(4)] assms(5) by (simp_all add: event_rows_def)
  with assms(3) have "r \<in> set (event_rows e d')" by (simp add: same_event_def)
  then have "r \<in> set (registrations d')" by (simp add: event_rows_def)
  with registration_by_id_eq[OF assms(2) this] \<open>reg_id r = i\<close> show ?thesis by simp
qed

lemma locked_insertion:
  assumes "same_event (reg_event_id r) d d'" "has_user (reg_student_id r) d" "has_user (reg_student_id r) d'"
    and "reg_id r \<in> reg_id ` set (registrations d') \<longleftrightarrow> reg_id r \<in> reg_id ` set (registrations d)"
  shows "fst (create_registration r d') = fst (create_registration r d)"
proof -
  have pair: "(\<exists>x\<in>set (registrations y). active x \<and> reg_event_id x = reg_event_id r \<and> reg_student_id x = reg_student_id r)
      \<longleftrightarrow> (\<exists>x\<in>set (event_rows (reg_event_id r) y). active x \<and> reg_student_id x = reg_student_id r)" for y
    by (auto simp: event_rows_def)
  show ?thesis using assms same_event_views(6)[OF assms(1)] by (simp add: create_registration_def pair same_event_def)
qed

text \<open>Writes made so far that add a fixed list of jobs, and no event.\<close>

definition appends :: "notification_job list \<Rightarrow> (db \<Rightarrow> db) \<Rightarrow> bool" where
  "appends js w \<longleftrightarrow> (\<forall>x. notification_jobs (w x) = notification_jobs x @ js \<and> (\<forall>e. has_event e (w x) = has_event e x))"

lemma appends_intros:
  "appends [] id" "appends [] (\<lambda>x. x)"
  "appends js w \<Longrightarrow> appends js (\<lambda>x. save_registration i f (w x))"
  "appends js w \<Longrightarrow> appends js (\<lambda>x. (w x)\<lparr>registrations := registrations (w x) @ rs\<rparr>)"
  "appends js w \<Longrightarrow> appends (js @ ks) (\<lambda>x. add_jobs ks (w x))"
  by (simp_all add: appends_def save_registration_def add_jobs_def)

lemma appends_save_event: "(\<And>e. evt_id (f e) = evt_id e) \<Longrightarrow> appends js w \<Longrightarrow> appends js (\<lambda>x. save_event i f (w x))"
  by (simp add: appends_def has_event_def image_update_where)

lemma locked_jobs:
  assumes "appends ks w" "untouched L d d'" "job_locks js \<subseteq> L" "EventRow e \<in> L" "j \<in> set js"
  shows "job_id j \<in> job_id ` set (notification_jobs (w d')) \<longleftrightarrow> job_id j \<in> job_id ` set (notification_jobs (w d))"
    and "job_idempotency_key j \<in> job_idempotency_key ` set (notification_jobs (w d'))
       \<longleftrightarrow> job_idempotency_key j \<in> job_idempotency_key ` set (notification_jobs (w d))"
    and "has_event e (w d') = has_event e (w d)"
proof -
  have "JobKey (job_id j) \<in> L" "JobIdem (job_idempotency_key j) \<in> L" using assms(3,5) by (auto simp: job_locks_def)
  with assms(1,2) show "job_id j \<in> job_id ` set (notification_jobs (w d')) \<longleftrightarrow> job_id j \<in> job_id ` set (notification_jobs (w d))"
    "job_idempotency_key j \<in> job_idempotency_key ` set (notification_jobs (w d'))
       \<longleftrightarrow> job_idempotency_key j \<in> job_idempotency_key ` set (notification_jobs (w d))"
    by (simp_all add: appends_def untouched_def image_Un)
  show "has_event e (w d') = has_event e (w d)"
    using assms(1) same_event_views(6)[OF untouched_event[OF assms(2,4)]] by (simp add: appends_def)
qed

lemma locked_job_insertion:
  assumes "appends ks w" "untouched L d d'" "job_locks js \<subseteq> L" "EventRow e \<in> L" "\<And>j. j \<in> set js \<Longrightarrow> job_event_id j = Some e"
  shows "js = [j] \<Longrightarrow> fst (create_job j (w d')) = fst (create_job j (w d))"
    and "fst (bulk_create_jobs js (w d')) = fst (bulk_create_jobs js (w d))"
  using locked_jobs[OF assms(1-4)] assms(5) by (simp_all add: create_job_def bulk_create_jobs_def)

section \<open>Writes\<close>

lemma write_registration:
  assumes "EventRow e \<in> L" "\<And>r. r \<in> set (registrations d) \<Longrightarrow> reg_id r = i \<Longrightarrow> reg_event_id r = e"
    and f: "\<And>r. reg_id (f r) = reg_id r" "\<And>r. reg_event_id (f r) = reg_event_id r" "\<And>r. reg_student_id (f r) = reg_student_id r"
  shows "untouched (- L) d (save_registration i f d)"
proof -
  have "extends d (save_registration i f d)"
    unfolding extends_def
  proof
    fix r assume "r \<in> set (registrations d)"
    then have "(if reg_id r = i then f r else r) \<in> set (registrations (save_registration i f d))"
      by (auto simp: set_update_where)
    then show "\<exists>r'\<in>set (registrations (save_registration i f d)). reg_id r' = reg_id r \<and> reg_event_id r' = reg_event_id r \<and> reg_student_id r' = reg_student_id r"
      by (rule bexI[rotated]) (simp add: f)
  qed
  moreover have "same_event e' d (save_registration i f d)" if "EventRow e' \<notin> L" for e'
  proof -
    have "e' \<noteq> e" using that assms(1) by blast
    then have "update_where (\<lambda>r. reg_id r = i) f (event_rows e' d) = event_rows e' d"
      using assms(2) by (intro update_where_none) (auto simp: event_rows_def)
    moreover have "event_rows e' (save_registration i f d) = update_where (\<lambda>r. reg_id r = i) f (event_rows e' d)"
      using f(2) by (auto simp: event_rows_def update_where_def filter_map comp_def intro!: map_cong filter_cong)
    ultimately show ?thesis by (simp add: same_event_def event_by_id_def)
  qed
  ultimately show ?thesis using assms(1) by (auto simp: untouched_def image_update_where f)
qed

lemma write_new_registration:
  assumes "EventRow (reg_event_id r) \<in> L" "RegistrationKey (reg_id r) \<in> L"
  shows "untouched (- L) d (d\<lparr>registrations := registrations d @ [r]\<rparr>)"
  using assms by (auto simp: untouched_def same_event_def event_rows_def event_by_id_def extends_def)

lemma write_jobs: "job_locks js \<subseteq> L \<Longrightarrow> untouched (- L) d (add_jobs js d)"
  by (auto simp: untouched_def same_event_def event_rows_def event_by_id_def extends_def add_jobs_def job_locks_def image_subset_iff)

lemma write_event:
  assumes "EventRow i \<in> L" "\<And>e. evt_id (f e) = evt_id e"
  shows "untouched (- L) d (save_event i f d)"
proof -
  have "event_by_id e (save_event i f d) = event_by_id e d" if "EventRow e \<notin> L" for e
  proof -
    have "e \<noteq> i" using that assms(1) by blast
    then have "get_or_none (\<lambda>x. evt_id x = e) (update_where (\<lambda>x. evt_id x = i) f es) = get_or_none (\<lambda>x. evt_id x = e) es" for es
      using assms(2) by (induction es) auto
    then show ?thesis by (simp add: event_by_id_def)
  qed
  with assms(1) show ?thesis by (auto simp: untouched_def same_event_def event_rows_def extends_def)
qed

lemma write_new_event:
  assumes "EventRow (evt_id e) \<in> L"
  shows "untouched (- L) d (d\<lparr>events := events d @ [e]\<rparr>)"
proof -
  have "event_by_id i (d\<lparr>events := events d @ [e]\<rparr>) = event_by_id i d" if "EventRow i \<notin> L" for i
    using that assms by (auto simp: event_by_id_def get_or_none_append split: option.split)
  then show ?thesis by (auto simp: untouched_def same_event_def event_rows_def extends_def)
qed

section \<open>Statements\<close>

abbreviation follows :: "handler_tx \<Rightarrow> (db \<Rightarrow> db) \<Rightarrow> lock set \<Rightarrow> db \<Rightarrow> bool" where
  "follows \<equiv> obeys system_ok untouched"

lemmas follows_select = obeys_select[where R = untouched, OF _ _ untouched_refl]

lemmas follows_update = obeys_update[where R = untouched]

lemma follows_insert_job:
  assumes "appends ks w" "EventRow e \<in> L" "job_event_id j = Some e"
    and "follows k (\<lambda>x. add_jobs [j] (w x)) (L \<union> job_locks [j]) d"
  shows "follows (insert_job j k) w L d"
proof -
  let ?L = "L \<union> job_locks [j]"
  have "fst (create_job j (w d')) = fst (create_job j (w d))" if "untouched ?L d d'" for d'
    by (rule locked_job_insertion(1)[OF assms(1) that, where js = "[j]" and e = e]) (use assms(2,3) in auto)
  moreover have "untouched (- ?L) (w d) (add_jobs [j] (w d))" by (rule write_jobs) simp
  ultimately show ?thesis using assms(4)
    by (cases "fst (create_job j (w d))") (simp_all add: obeys_def insert_job_def untouched_refl)
qed

lemma follows_bulk_insert:
  assumes "appends ks w" "EventRow e \<in> L" "\<And>j. j \<in> set js \<Longrightarrow> job_event_id j = Some e"
    and "follows k (\<lambda>x. add_jobs js (w x)) (L \<union> job_locks js) d"
  shows "follows (bulk_insert_jobs js k) w L d"
proof -
  let ?L = "L \<union> job_locks js"
  have "fst (bulk_create_jobs js (w d')) = fst (bulk_create_jobs js (w d))" if "untouched ?L d d'" for d'
    by (rule locked_job_insertion(2)[OF assms(1) that, where e = e]) (use assms(2,3) in auto)
  moreover have "untouched (- ?L) (w d) (add_jobs js (w d))" by (rule write_jobs) simp
  ultimately show ?thesis using assms(4)
    by (cases "fst (bulk_create_jobs js (w d))") (simp_all add: obeys_def bulk_insert_jobs_def untouched_refl)
qed

section \<open>The handlers\<close>

fun call_ready :: "service_call \<Rightarrow> db \<Rightarrow> db \<Rightarrow> bool" where
  "call_ready (CreateEvent organizer data i now) seen d = has_user (usr_id organizer) d"
| "call_ready (RegisterStudent student eid rid jid t1 t2) seen d = has_user (usr_id student) d"
| "call_ready (CancelRegistration student rid pj cj now cnow jnow) seen d = extends seen d"
| "call_ready _ seen d = True"

text \<open>
  A request is admitted with an authenticated caller, whose account exists
  (\<open>get_current_user\<close> of \<open>routers/deps.py\<close>).
\<close>

fun admitted :: "service_call \<Rightarrow> db \<Rightarrow> bool" where
  "admitted (CreateEvent organizer data i now) d = has_user (usr_id organizer) d"
| "admitted (RegisterStudent student eid rid jid t1 t2) d = has_user (usr_id student) d"
| "admitted _ d = True"

lemma call_ready_start: "admitted r d \<Longrightarrow> call_ready r d d"
  by (cases r) auto

lemma call_ready_kept: "call_ready r s d \<Longrightarrow> untouched L d d' \<Longrightarrow> call_ready r s d'"
  by (cases r) (auto simp: untouched_def has_user_def intro: extends_trans)

lemma follows_create_event:
  assumes "has_user (usr_id organizer) d"
  shows "follows (create_event_tx organizer data i now) id {} d"
proof -
  have "fst (create_event organizer data i now d') = fst (create_event organizer data i now d)" if "untouched {EventRow i} d d'" for d'
  proof -
    have "has_event i d' = has_event i d" using that by (intro same_event_views(6) untouched_event[OF that]) simp
    moreover have "has_user (usr_id organizer) d'" using that assms by (auto simp: untouched_def has_user_def)
    ultimately show ?thesis using assms by (simp add: create_event_def create_event_row_def has_event_def)
  qed
  moreover have "untouched (- {EventRow i}) d (d\<lparr>events := events d @ [e]\<rparr>)" if "fst (create_event organizer data i now d) = Inr e" for e
    using that by (intro write_new_event) (auto simp: create_event_def create_event_row_def split: if_splits)
  ultimately show ?thesis
    by (cases "fst (create_event organizer data i now d)") (simp_all add: obeys_def create_event_tx_def untouched_refl)
qed

lemma follows_update_event: "follows (update_event_tx h user i data now seen) id {} d"
  by (auto simp: update_event_tx_def Let_def save_fields_def split: option.split sum.split intro!: follows_update write_event)

lemma follows_publish_event: "follows (publish_event_tx user i now seen) id {} d"
  by (auto simp: publish_event_tx_def split: sum.split intro!: follows_update write_event)

text \<open>Reads under the lock of the event, before anything is written.\<close>

lemma first_read: "untouched L d d' \<Longrightarrow> EventRow e \<in> L \<Longrightarrow>
   event_by_id e d' = event_by_id e d \<and> confirmed_count e d' = confirmed_count e d \<and> waitlist_count e d' = waitlist_count e d"
  using same_event_views[OF untouched_event] by simp

lemma follows_cancel_event: "follows (cancel_event_tx user i new_id now snow jnow) id {} d"
proof -
  define cancel where "cancel = (\<lambda>e::event. e\<lparr>evt_status := EventCancelled, evt_updated_at := snow\<rparr>)"
  have id: "evt_id (cancel e) = evt_id e" for e by (simp add: cancel_def)
  define jobs where "jobs v = map (event_cancelled_job i (isoformat jnow) new_id jnow) (active_of_event i v)" for v
  have after_save: "follows (update_stmt {EventRow i} (save_event i cancel) (select_stmt {} (\<lambda>v.
      if jobs v \<noteq> [] then bulk_insert_jobs (jobs v) (Commit a) else Commit a))) id {EventRow i} d" for a
  proof (rule follows_update)
    show "untouched (- ({EventRow i} \<union> {EventRow i})) (id d) (save_event i cancel (id d))"
      by (rule write_event) (simp_all add: id)
    let ?w = "\<lambda>x. save_event i cancel (id x)" and ?L = "{EventRow i} \<union> {EventRow i}"
    have ap: "appends [] ?w" by (intro appends_save_event appends_intros id)
    show "follows (select_stmt {} (\<lambda>v. if jobs v \<noteq> [] then bulk_insert_jobs (jobs v) (Commit a) else Commit a)) ?w ?L d"
    proof (rule follows_select, goal_cases)
      case (1 d')
      then have "same_event i d d'" by (intro untouched_event) auto
      then have "jobs (save_event i cancel d') = jobs (save_event i cancel d)"
        using same_event_views(5) by (simp add: jobs_def active_of_event_def)
      then show ?case by simp
    next
      case 2
      have "job_event_id j = Some i" if "j \<in> set (jobs v)" for j v using that by (auto simp: jobs_def event_cancelled_job_def)
      then have "follows (bulk_insert_jobs (jobs v) (Commit a)) ?w (?L \<union> {}) d" for v
        by (intro follows_bulk_insert[OF ap, where e = i]) simp_all
      then show ?case by simp
    qed
  qed
  show ?thesis
    unfolding cancel_event_tx_def
  proof (rule follows_select, goal_cases)
    case (1 d')
    with first_read[of _ d d' i] show ?case by simp
  next
    case 2
    show ?case using after_save[unfolded jobs_def cancel_def] by (auto simp: Let_def split: option.split sum.split)
  qed
qed

lemma follows_insert_registration:
  assumes "EventRow (evt_id event) \<in> L" "has_user (usr_id student) d"
  shows "follows (insert_registration student event rid jid t1 t2 st ty pos) id L d"
proof -
  define reg where "reg = \<lparr>reg_id = rid, reg_event_id = evt_id event, reg_student_id = usr_id student,
                 reg_status = st, reg_registered_at = t1, reg_cancelled_at = None\<rparr>"
  let ?M = "{RegistrationKey rid, ActivePair (evt_id event) (usr_id student)}"
  let ?add = "\<lambda>d. d\<lparr>registrations := registrations d @ [reg]\<rparr>"
  have stable: "fst (create_registration reg d') = fst (create_registration reg d)" if "untouched (L \<union> ?M) d d'" for d'
  proof (rule locked_insertion)
    show "same_event (reg_event_id reg) d d'" using that assms(1) by (intro untouched_event[OF that]) (simp add: reg_def)
    show "has_user (reg_student_id reg) d" "has_user (reg_student_id reg) d'"
      using that assms(2) by (auto simp: reg_def untouched_def has_user_def)
    show "reg_id reg \<in> reg_id ` set (registrations d') \<longleftrightarrow> reg_id reg \<in> reg_id ` set (registrations d)"
      using that by (simp add: untouched_def reg_def)
  qed
  have guard: "untouched (- (L \<union> ?M)) d (?add d)"
    by (rule write_new_registration) (use assms(1) in \<open>simp_all add: reg_def\<close>)
  have "follows (insert_job (new_job jid (Some (evt_id event)) ty p k t2) (Commit a)) (\<lambda>x. ?add x) (L \<union> ?M) d" for p k a
    by (rule follows_insert_job[where e = "evt_id event" and ks = "[]"]) (use assms(1) in \<open>simp_all add: appends_def\<close>)
  with stable guard show ?thesis
    by (cases "fst (create_registration reg d)")
      (simp_all add: obeys_def insert_registration_def Let_def untouched_refl flip: reg_def)
qed

lemma follows_register:
  assumes "has_user (usr_id student) d"
  shows "follows (register_tx student eid rid jid t1 t2) id {} d"
  unfolding register_tx_def
proof (rule follows_select, goal_cases)
  case (1 d')
  with first_read[of _ d d' eid] show ?case by simp
next
  case 2
  show ?case
  proof (cases "event_by_id eid d")
    case (Some event)
    then have eid: "evt_id event = eid" by (simp add: event_by_id_Some)
    note ins = follows_insert_registration[OF _ assms, of event]
    show ?thesis unfolding id_apply Some option.case
    proof (split if_split, intro conjI impI, simp, rule follows_select, goal_cases)
      case (1 d')
      with first_read[of _ d d' eid] show ?case by simp
    next
      case 2
      then show ?case
      proof (split if_split, intro conjI impI, goal_cases)
        case 1
        show ?case unfolding id_def[symmetric] by (rule ins) (simp add: eid)
      next
        case 2
        show ?case
        proof (rule follows_select, goal_cases)
          case (1 d')
          with first_read[of _ d d' eid] show ?case by simp
        qed (unfold id_def[symmetric], rule ins, simp add: eid)
      qed
    qed
  qed simp
qed

lemma follows_cancel_locked:
  assumes ok: "schema_ok d" and reg: "reg \<in> set (registrations d)" and lock: "EventRow (reg_event_id reg) \<in> L"
  shows "follows (cancel_locked student ev reg pj cj cnow jnow) id L d"
proof -
  let ?e = "reg_event_id reg"
  define w1 where "w1 = save_registration (reg_id reg) (\<lambda>r. r\<lparr>reg_status := Cancelled, reg_cancelled_at := Some cnow\<rparr>)"
  define over where "over = insert_job (cancellation_job student cj jnow reg)
      (Commit (CancelledAnswer (reg\<lparr>reg_status := Cancelled, reg_cancelled_at := Some cnow\<rparr>)))"
  have over: "follows over w L' d" if "appends ks w" "EventRow ?e \<in> L'" for ks w L'
    unfolding over_def by (rule follows_insert_job[OF that]) simp_all
  have ap: "appends [] w1" using appends_intros(3)[OF appends_intros(2)] by (simp add: w1_def)
  have dist: "distinct (map reg_id (registrations d))" by (rule schema_ok_D(2)[OF ok])
  then have dist1: "distinct (map reg_id (registrations (w1 d)))" by (simp add: w1_def map_update_where)
  let ?promote = "\<lambda>n. update_stmt {RegistrationRow (reg_id n)} (save_registration (reg_id n) (\<lambda>r. r\<lparr>reg_status := Confirmed\<rparr>))
      (insert_job (promotion_job ev ?e pj jnow n) over)"
  have promote: "follows (?promote n) w1 L' d"
    if n: "first_by fifo (waitlisted_rows ?e (w1 d)) = Some n" and L': "EventRow ?e \<in> L'" for n L'
  proof (rule follows_update)
    have "n \<in> set (waitlisted_rows ?e (w1 d))" using first_by_Some[OF n] by simp
    then have "n \<in> set (registrations (w1 d))" "reg_event_id n = ?e" by (simp_all add: waitlisted_rows_def has_status_def)
    then show "untouched (- (L' \<union> {RegistrationRow (reg_id n)})) (w1 d) (save_registration (reg_id n) (\<lambda>r. r\<lparr>reg_status := Confirmed\<rparr>) (w1 d))"
      using L' pk_unique[OF dist1] by (intro write_registration[where e = ?e]) auto
    show "follows (insert_job (promotion_job ev ?e pj jnow n) over)
        (\<lambda>x. save_registration (reg_id n) (\<lambda>r. r\<lparr>reg_status := Confirmed\<rparr>) (w1 x)) (L' \<union> {RegistrationRow (reg_id n)}) d"
      by (rule follows_insert_job[where e = ?e], rule appends_intros(3)[OF ap], use L' in simp, simp,
          rule over, rule appends_intros(5), rule appends_intros(3)[OF ap], use L' in simp)
  qed
  have rest: "follows (if reg_status reg = Confirmed then select_stmt {} (\<lambda>v. case first_by fifo (waitlisted_rows ?e v) of
      None \<Rightarrow> over | Some n \<Rightarrow> ?promote n) else over) w1 L' d" if L': "EventRow ?e \<in> L'" for L'
  proof -
    have "follows (select_stmt {} (\<lambda>v. case first_by fifo (waitlisted_rows ?e v) of None \<Rightarrow> over | Some n \<Rightarrow> ?promote n)) w1 L' d"
    proof (rule follows_select, goal_cases)
      case (1 d')
      then have "same_event ?e d d'" using L' by (intro untouched_event) auto
      then have "same_event ?e (w1 d) (w1 d')" unfolding w1_def by (rule same_event_save) simp
      then show ?case using same_event_views(4) by simp
    next
      case 2
      show ?case using L' over[OF ap] promote by (simp split: option.split)
    qed
    with over[OF ap L'] show ?thesis by simp
  qed
  have guard: "untouched (- (L \<union> {RegistrationRow (reg_id reg)})) (id d) (w1 (id d))"
    unfolding w1_def using lock pk_unique[OF dist reg] by (intro write_registration[where e = ?e]) auto
  have "follows (update_stmt {RegistrationRow (reg_id reg)} w1 (if reg_status reg = Confirmed
      then select_stmt {} (\<lambda>v. case first_by fifo (waitlisted_rows ?e v) of None \<Rightarrow> over | Some n \<Rightarrow> ?promote n) else over)) id L d"
    by (rule follows_update, rule guard) (use rest lock in simp)
  then show ?thesis unfolding cancel_locked_def Let_def w1_def over_def .
qed

lemma follows_cancel_registration:
  assumes ok: "system_ok d" and ext: "extends seen d"
  shows "follows (cancel_registration_tx student rid pj cj now cnow jnow seen) id {} d"
proof (cases "get_or_none (\<lambda>r. reg_id r = rid \<and> reg_student_id r = usr_id student) (registrations seen)")
  case (Some reg0)
  let ?e = "reg_event_id reg0" and ?L = "{} \<union> {EventRow (reg_event_id reg0)}"
  have sch: "schema_ok d" using ok by (simp add: system_ok_def)
  have "reg0 \<in> set (registrations seen)" "reg_id reg0 = rid" using get_or_none_Some[OF Some] by simp_all
  with ext obtain reg where reg: "reg \<in> set (registrations d)" "reg_id reg = rid" "reg_event_id reg = ?e"
    unfolding extends_def by metis
  then have found: "registration_by_id rid d = Some reg" using registration_by_id_eq[OF sch reg(1)] by simp
  have again: "registration_by_id rid d' = Some reg" if "system_ok d'" "untouched L d d'" "EventRow ?e \<in> L" for d' L
    using locked_registration[OF sch _ untouched_event[OF that(2,3)] found reg(3)] that(1) by (simp add: system_ok_def)
  have locked: "follows (cancel_locked student ev reg pj cj cnow jnow) id (?L \<union> {RegistrationRow rid}) d" for ev
    by (rule follows_cancel_locked[OF sch reg(1)]) (simp add: reg(3))
  have second: "follows (select_stmt {RegistrationRow rid} (\<lambda>v. case registration_by_id rid v of
                None \<Rightarrow> Rollback DoesNotExist
              | Some reg \<Rightarrow>
                  if reg_status reg = Cancelled then Rollback already_cancelled
                  else if replace_tzinfo_utc (evt_starts_at ev) \<le> now then Rollback event_already_started
                  else cancel_locked student ev reg pj cj cnow jnow)) id ?L d" for ev
  proof (rule follows_select, goal_cases)
    case (1 d')
    with again[of d'] found show ?case by simp
  next
    case 2
    show ?case using locked found by simp
  qed
  have "follows (select_stmt {EventRow ?e} (\<lambda>v. case event_by_id ?e v of
              None \<Rightarrow> Rollback event_not_found
            | Some event \<Rightarrow> select_stmt {RegistrationRow rid} (\<lambda>v. case registration_by_id rid v of
                None \<Rightarrow> Rollback DoesNotExist
              | Some reg \<Rightarrow>
                  if reg_status reg = Cancelled then Rollback already_cancelled
                  else if replace_tzinfo_utc (evt_starts_at event) \<le> now then Rollback event_already_started
                  else cancel_locked student event reg pj cj cnow jnow))) id {} d"
  proof (rule follows_select, goal_cases)
    case (1 d')
    with first_read[of _ d d' ?e] show ?case by simp
  next
    case 2
    show ?case using second by (simp split: option.split)
  qed
  with Some show ?thesis by (simp add: cancel_registration_tx_def)
qed (simp add: cancel_registration_tx_def)

lemma follows_call:
  assumes "system_ok d" "call_ready r seen d"
  shows "follows (open_call r seen) id {} d"
  using assms follows_create_event follows_update_event follows_publish_event follows_cancel_event follows_register
    follows_cancel_registration by (cases r) auto

section \<open>Everybody else\<close>

text \<open>The statements of the workers and the account endpoints touch nothing that a lock protects.\<close>

lemma worker_rows_untouched:
  assumes "list_all2 row_step (notification_jobs d) js"
  shows "untouched L d (d\<lparr>notification_jobs := js\<rparr>)"
proof -
  have "map job_id js = map job_id (notification_jobs d) \<and> map job_idempotency_key js = map job_idempotency_key (notification_jobs d)"
    using assms by (induction rule: list_all2_induct) (auto simp: row_step_def)
  then have "job_id ` set js = job_id ` set (notification_jobs d)"
    "job_idempotency_key ` set js = job_idempotency_key ` set (notification_jobs d)" by (metis set_map)+
  then show ?thesis by (auto simp: untouched_def same_event_def event_rows_def event_by_id_def extends_def)
qed

lemma account_untouched: "account_write d d' \<Longrightarrow> untouched L d d'"
  by (auto simp: account_write_def untouched_def same_event_def event_rows_def event_by_id_def extends_def)

section \<open>Which locks a call asks for\<close>

fun target_event :: "service_call \<Rightarrow> db \<Rightarrow> uuid" where
  "target_event (CreateEvent organizer data i now) seen = i"
| "target_event (UpdateEvent h user i data now) seen = i"
| "target_event (PublishEvent user i now) seen = i"
| "target_event (CancelEvent user i new_id now snow jnow) seen = i"
| "target_event (RegisterStudent student eid rid jid t1 t2) seen = eid"
| "target_event (CancelRegistration student rid pj cj now cnow jnow) seen =
     (case get_or_none (\<lambda>r. reg_id r = rid \<and> reg_student_id r = usr_id student) (registrations seen) of
        None \<Rightarrow> rid | Some reg0 \<Rightarrow> reg_event_id reg0)"

text \<open>The identifiers a call draws for new rows.\<close>

fun drawn_jobs :: "service_call \<Rightarrow> db \<Rightarrow> uuid set" where
  "drawn_jobs (CancelEvent user i new_id now snow jnow) d = new_id ` reg_id ` set (event_rows i d)"
| "drawn_jobs (RegisterStudent student eid rid jid t1 t2) d = {jid}"
| "drawn_jobs (CancelRegistration student rid pj cj now cnow jnow) d = {pj, cj}"
| "drawn_jobs _ d = {}"

fun drawn_registrations :: "service_call \<Rightarrow> uuid set" where
  "drawn_registrations (RegisterStudent student eid rid jid t1 t2) = {rid}"
| "drawn_registrations _ = {}"

definition lock_domain :: "uuid \<Rightarrow> service_call \<Rightarrow> db \<Rightarrow> lock set" where
  "lock_domain e r d = {EventRow e} \<union> RegistrationRow ` reg_id ` set (event_rows e d) \<union> range (ActivePair e)
     \<union> RegistrationKey ` drawn_registrations r \<union> JobKey ` drawn_jobs r d
     \<union> {JobIdem (idempotency_key i ty) | i ty. i \<in> reg_id ` set (event_rows e d) \<union> drawn_registrations r}"

lemma locks_of_stmts [simp]:
  "locks_of (select_stmt M k) w d = M \<union> locks_of (k (w d)) w d"
  "locks_of (update_stmt M f t) w d = M \<union> locks_of t (\<lambda>x. f (w x)) d"
  "locks_of (insert_job j t) w d = job_locks [j]
     \<union> (case fst (create_job j (w d)) of Inl e \<Rightarrow> {} | Inr _ \<Rightarrow> locks_of t (\<lambda>x. add_jobs [j] (w x)) d)"
  "locks_of (bulk_insert_jobs js t) w d = job_locks js
     \<union> (case fst (bulk_create_jobs js (w d)) of Inl e \<Rightarrow> {} | Inr _ \<Rightarrow> locks_of t (\<lambda>x. add_jobs js (w x)) d)"
  by (simp_all add: select_stmt_def update_stmt_def insert_job_def bulk_insert_jobs_def no_write_def split: sum.split)

lemma locks_register:
  "locks_of (register_tx student eid rid jid t1 t2) id d \<subseteq> lock_domain eid (RegisterStudent student eid rid jid t1 t2) d"
  by (auto simp: register_tx_def insert_registration_def lock_domain_def Let_def job_locks_def
      split: option.splits sum.splits dest: event_by_id_Some)

lemma locks_cancel_event:
  "locks_of (cancel_event_tx user i new_id now snow jnow) id d \<subseteq> lock_domain i (CancelEvent user i new_id now snow jnow) d"
  by (auto simp: cancel_event_tx_def lock_domain_def Let_def job_locks_def event_cancelled_job_def active_of_event_def event_rows_def
      split: option.splits sum.splits)

lemma next_waitlisted_row:
  assumes "first_by fifo (waitlisted_rows e (save_registration i f d)) = Some n"
    and f: "\<And>r. reg_id (f r) = reg_id r" "\<And>r. reg_event_id (f r) = reg_event_id r"
  shows "reg_id n \<in> reg_id ` set (event_rows e d)"
proof -
  from first_by_Some(1)[OF assms(1)] obtain r where "r \<in> set (registrations d)" "reg_event_id r = e" "reg_id n = reg_id r"
    by (auto simp: waitlisted_rows_def has_status_def save_registration_def set_update_where f split: if_splits)
  then show ?thesis by (auto simp: event_rows_def)
qed

lemma locks_cancel_locked:
  assumes "reg \<in> set (event_rows e d)"
  shows "locks_of (cancel_locked student ev reg pj cj cnow jnow) id d
    \<subseteq> lock_domain e (CancelRegistration student (reg_id reg) pj cj now cnow jnow) d"
proof -
  have e: "reg_event_id reg = e" and own: "reg_id reg \<in> reg_id ` set (event_rows e d)"
    using assms by (auto simp: event_rows_def)
  let ?w = "save_registration (reg_id reg) (\<lambda>r. r\<lparr>reg_status := Cancelled, reg_cancelled_at := Some cnow\<rparr>) d"
  have "reg_id n \<in> reg_id ` set (event_rows e d)" if "first_by fifo (waitlisted_rows e ?w) = Some n" for n
    by (rule next_waitlisted_row[OF that]) simp_all
  with own show ?thesis
    by (auto simp: cancel_locked_def Let_def e lock_domain_def job_locks_def split: option.splits sum.splits)
qed

lemma locks_cancel_registration:
  assumes "system_ok d" "extends seen d"
  shows "locks_of (cancel_registration_tx student rid pj cj now cnow jnow seen) id d
    \<subseteq> lock_domain (target_event (CancelRegistration student rid pj cj now cnow jnow) seen) (CancelRegistration student rid pj cj now cnow jnow) d"
proof (cases "get_or_none (\<lambda>r. reg_id r = rid \<and> reg_student_id r = usr_id student) (registrations seen)")
  case (Some reg0)
  then have "reg0 \<in> set (registrations seen)" "reg_id reg0 = rid" using get_or_none_Some by fastforce+
  with assms(2) obtain reg where reg: "reg \<in> set (registrations d)" "reg_id reg = rid" "reg_event_id reg = reg_event_id reg0"
    unfolding extends_def by metis
  then have found: "registration_by_id rid d = Some reg"
    using registration_by_id_eq[OF _ reg(1)] assms(1) by (simp add: system_ok_def)
  have row: "reg \<in> set (event_rows (reg_event_id reg0) d)" using reg by (simp add: event_rows_def)
  have "EventRow (reg_event_id reg0) \<in> lock_domain (reg_event_id reg0) r d"
    "RegistrationRow rid \<in> lock_domain (reg_event_id reg0) r d" for r
    using row reg(2) by (auto simp: lock_domain_def)
  with Some found locks_cancel_locked[OF row] show ?thesis
    by (auto simp: cancel_registration_tx_def reg(2) split: option.splits)
qed (simp add: cancel_registration_tx_def)

lemma locks_of_call:
  assumes "system_ok d" "call_ready r seen d"
  shows "locks_of (open_call r seen) id d \<subseteq> lock_domain (target_event r seen) r d"
proof (cases r)
  case (CreateEvent organizer data i now)
  then show ?thesis by (auto simp: create_event_tx_def lock_domain_def split: sum.splits)
next
  case (UpdateEvent h user i data now)
  then show ?thesis by (auto simp: update_event_tx_def lock_domain_def split: option.splits sum.splits)
next
  case (PublishEvent user i now)
  then show ?thesis by (auto simp: publish_event_tx_def lock_domain_def split: sum.splits)
next
  case (CancelRegistration student rid pj cj now cnow jnow)
  with locks_cancel_registration assms show ?thesis by simp
qed (use locks_register locks_cancel_event in simp_all)

lemma call_starts: "open_call r seen = Stmt M u k \<Longrightarrow> M = {EventRow (target_event r seen)}"
  by (cases r) (auto simp: create_event_tx_def update_event_tx_def publish_event_tx_def cancel_event_tx_def register_tx_def
      cancel_registration_tx_def select_stmt_def update_stmt_def split: option.splits sum.splits if_splits)

end
