(* ===== verification/Interleaving_Properties.thy ===== *)
theory Interleaving_Properties
  imports Interleaving_Protocol Registration_Properties Auth_Properties
begin

text \<open>
  What holds of every interleaving of the statements of the services, with the workers and the account
  endpoints writing in between: each call that ends is one step of the model of the services, so the
  invariant of the system holds at every moment, and no event is overbooked.
\<close>

section \<open>The protocol\<close>

text \<open>Everybody else: the steps of the application that change no event and no registration.\<close>

definition other_write :: "crypto \<Rightarrow> auth_settings \<Rightarrow> db \<Rightarrow> db \<Rightarrow> bool" where
  "other_write cr st d d' \<longleftrightarrow> system_step cr st d d' \<and> events d' = events d \<and> registrations d' = registrations d"

text \<open>\<open>A\<close> is a restriction on the calls considered; \<open>\<lambda>r. True\<close> is none.\<close>

abbreviation handler_step where
  "handler_step A cr st \<equiv> tx_step open_call (\<lambda>r d. A r \<and> admitted r d) untouched (other_write cr st)"

lemma save_event_system_ok:
  assumes "system_ok d" "\<And>e. evt_id (f e) = evt_id e" "\<And>e. int32 (evt_capacity e) \<Longrightarrow> int32 (evt_capacity (f e))"
  shows "system_ok (save_event i f d)"
proof -
  have "schema_ok (save_event i f d) \<and> columns_ok (save_event i f d)"
    using assms save_event_schema_ok save_event_columns by (simp add: system_ok_def del: save_event_simps)
  then show ?thesis
    using assms(2) by (intro appended_jobs_ok[OF assms(1), where new = "[]"] grows_users_events) (simp_all add: map_update_where)
qed

lemma update_event_writes:
  assumes "update_event h user i data now seen d = (Inr e, d')"
  obtains "d' = d" | obj where "d' = save_event i (save_fields data obj) d"
    "eur_capacity data \<noteq> None \<Longrightarrow> int32 (evt_capacity obj)"
  using assms
  by (auto simp: update_event_def res_simps simp del: save_event_simps split: option.splits sum.splits if_splits)

lemma serve_call_ok:
  assumes "serve_call r seen d = (Inr x, d')" "system_ok d" "call_ready r seen d"
  shows "system_ok d'"
proof (cases r)
  case (CreateEvent organizer data i now)
  with assms show ?thesis by (auto simp: answering_Inr intro: service_step_system_ok service_step.s_create)
next
  case (UpdateEvent h user i data now)
  with assms(1) obtain e where "update_event h user i data now seen d = (Inr e, d')" by (auto simp: answering_Inr)
  then show ?thesis
  proof (cases rule: update_event_writes)
    case 1
    with assms(2) show ?thesis by simp
  next
    case (2 obj)
    then show ?thesis
      using assms(2) by (simp del: save_event_simps) (intro save_event_system_ok, simp_all add: save_fields_def)
  qed
next
  case (PublishEvent user i now)
  with assms(1) have "d' = save_event i (\<lambda>e. e\<lparr>evt_status := Published, evt_updated_at := now\<rparr>) d"
    by (auto simp: answering_Inr publish_event_Inr simp del: save_event_simps)
  then show ?thesis using save_event_system_ok[OF assms(2)] by simp
next
  case (CancelEvent user i new_id now snow jnow)
  with assms show ?thesis by (auto simp: answering_Inr intro: service_step_system_ok service_step.s_cancel)
next
  case (RegisterStudent student eid rid jid t1 t2)
  with assms show ?thesis by (auto simp: answering_Inr intro: service_step_system_ok service_step.s_register)
next
  case (CancelRegistration student rid pj cj now cnow jnow)
  with assms show ?thesis by (auto simp: answering_Inr intro: service_step_system_ok service_step.s_unregister)
qed

interpretation handlers: locking open_call serve_call "\<lambda>r d. A r \<and> admitted r d" "\<lambda>r s d. A r \<and> call_ready r s d"
  system_ok untouched "other_write cr st" for A cr st
proof (unfold_locales, goal_cases)
  case (1 L M d d')
  then show ?case by (rule untouched_mono)
next
  case (2 L d)
  show ?case by (rule untouched_refl)
next
  case (3 L a b c)
  then show ?case by (rule untouched_trans)
next
  case (4 r d)
  then show ?case by (simp add: call_ready_start)
next
  case (5 r s d L d')
  then show ?case using call_ready_kept by blast
next
  case (6 d r s)
  show ?case by (rule run_call)
next
  case (7 d r s)
  then show ?case using follows_call by (auto simp: obeys_def)
next
  case (8 d r s)
  then show ?case using follows_call by (auto simp: obeys_def)
next
  case (9 d r s x d')
  then show ?case using serve_call_ok by blast
next
  case (10 d d')
  then show ?case using system_step_ok by (auto simp: other_write_def)
qed

section \<open>A concrete interleaving\<close>

text \<open>
  Two students ask for the only seat at the same time: both calls have started when the first one
  takes the lock, and the second one continues after the first one has committed.
\<close>

definition call_2 :: service_call where "call_2 = RegisterStudent student2 10 20 30 100 100"

definition call_3 :: service_call where "call_3 = RegisterStudent student3 10 21 31 200 200"

definition ask :: "nat \<Rightarrow> service_call \<Rightarrow> db \<Rightarrow> (lock, db, answer, service_call) world \<Rightarrow> (lock, db, answer, service_call) world" where
  "ask i r d w = put_session i (Some (new_session open_call r d)) w"

lemma sample_db_system_ok: "system_ok sample_db"
  using sample_db_ok by (simp add: system_ok_def outbox_typed_def columns_ok_def sample_defs user_fits_def fits_def int32_def)

lemma call_effects:
  "serve_call call_2 sample_db sample_db = (Inr (RegistrationAnswer (sample_resp 20 2 Confirmed 100 None)), full_db)"
  "serve_call call_3 sample_db full_db = (Inr (RegistrationAnswer (sample_resp 21 3 Waitlisted 200 (Some 1))), waiting_db)"
  by (simp_all add: call_2_def call_3_def answering_def run_register_2 run_register_3)

lemma two_students:
  assumes "A call_2" "A call_3"
  shows "\<exists>w1 w2 w3. tx_run (handler_step A cr st) (idle sample_db) w1 \<and> committed w1 = full_db
     \<and> handler_step A cr st w1 (Some (call_3, sample_db, Inr (RegistrationAnswer (sample_resp 21 3 Waitlisted 200 (Some 1))))) w2
     \<and> tx_run (handler_step A cr st) (idle sample_db) w2 \<and> committed w2 = waiting_db"
proof -
  let ?step = "handler_step A cr st" and ?w0 = "idle sample_db :: (lock, db, answer, service_call) world"
  let ?wa = "ask 0 call_2 sample_db ?w0"
  let ?wb = "ask 1 call_3 sample_db ?wa"
  have com: "committed ?w0 = sample_db" "sessions ?w0 j = None" for j by (simp_all add: idle_def)
  have adm: "admitted call_2 sample_db" "admitted call_3 sample_db"
    by (simp_all add: call_2_def call_3_def sample_defs has_user_def)
  have a: "?step ?w0 None ?wa" using t_open[of ?w0 0 "\<lambda>r d. A r \<and> admitted r d" call_2] assms adm com by (simp add: ask_def)
  have b: "?step ?wa None ?wb" using t_open[of ?wa 1 "\<lambda>r d. A r \<and> admitted r d" call_3] assms adm com by (simp add: ask_def)
  have s0: "sessions ?wb 0 = Some (new_session open_call call_2 sample_db)" "committed ?wb = sample_db"
    and s1: "\<And>j t. j \<noteq> 0 \<Longrightarrow> sessions ?wb j = Some t \<Longrightarrow> ses_locks t = {}"
    using com by (auto simp: ask_def new_session_def split: if_splits)
  let ?s = "new_session open_call call_2 sample_db" and ?t = "new_session open_call call_3 sample_db"
  have "run_tx (ses_tx ?s) (ses_writes ?s) (committed ?wb) = (Inr (RegistrationAnswer (sample_resp 20 2 Confirmed 100 None)), full_db)"
    using s0(2) run_call call_effects(1) by (simp add: new_session_def)
  from run_alone[OF s0(1) _ this, of "\<lambda>r d. open_call r d" "\<lambda>r d. A r \<and> admitted r d" untouched "other_write cr st"] s1
  obtain w where w: "tx_run ?step ?wb w" "?step w (Some (call_2, sample_db, Inr (RegistrationAnswer (sample_resp 20 2 Confirmed 100 None)))) (put_session 0 None (?wb\<lparr>committed := full_db\<rparr>))"
    by (auto simp: new_session_def)
  let ?wc = "put_session 0 None (?wb\<lparr>committed := full_db\<rparr>)"
  have c: "tx_run ?step ?w0 ?wc"
    by (rule run_trans[OF run_one[where step = ?step, OF w(2)] run_trans[OF w(1) run_trans[OF run_one[where step = ?step, OF b] run_one[where step = ?step, OF a]]]])
  have t0: "sessions ?wc 1 = Some ?t" "committed ?wc = full_db"
    and t1: "\<And>j t. j \<noteq> 1 \<Longrightarrow> sessions ?wc j = Some t \<Longrightarrow> ses_locks t = {}"
    using com by (auto simp: ask_def put_session_def idle_def split: if_splits)
  have "run_tx (ses_tx ?t) (ses_writes ?t) (committed ?wc) = (Inr (RegistrationAnswer (sample_resp 21 3 Waitlisted 200 (Some 1))), waiting_db)"
    using t0(2) run_call call_effects(2) by (simp add: new_session_def)
  from run_alone[OF t0(1) _ this, of open_call "\<lambda>r d. A r \<and> admitted r d" untouched "other_write cr st"] t1
  obtain v where v: "tx_run ?step ?wc v" "committed v = full_db"
      "?step v (Some (call_3, sample_db, Inr (RegistrationAnswer (sample_resp 21 3 Waitlisted 200 (Some 1))))) (put_session 1 None (?wc\<lparr>committed := waiting_db\<rparr>))"
    using t0(2) by (auto simp: new_session_def)
  have "tx_run ?step ?w0 v" by (rule run_trans[OF v(1) c])
  moreover have "tx_run ?step ?w0 (put_session 1 None (?wc\<lparr>committed := waiting_db\<rparr>))"
    by (rule run_trans[OF run_one[where step = ?step, OF v(3)] run_trans[OF v(1) c]])
  ultimately show ?thesis using v by (intro exI[where x = v] exI[where x = "put_session 1 None (?wc\<lparr>committed := waiting_db\<rparr>)"]) simp
qed

section \<open>Interleavings are serial\<close>



section \<open>Seats\<close>

fun keeps_capacity :: "uuid \<Rightarrow> service_call \<Rightarrow> bool" where
  "keeps_capacity eid (UpdateEvent h user i data now) \<longleftrightarrow> i \<noteq> eid \<or> eur_capacity data = None"
| "keeps_capacity eid _ \<longleftrightarrow> True"

lemma event_by_id_save:
  assumes "\<And>e. evt_id (f e) = evt_id e"
  shows "event_by_id eid (save_event i f d) = map_option (\<lambda>e. if evt_id e = i then f e else e) (event_by_id eid d)"
proof -
  have "get_or_none (\<lambda>x. evt_id x = eid) (update_where (\<lambda>x. evt_id x = i) f es)
      = map_option (\<lambda>e. if evt_id e = i then f e else e) (get_or_none (\<lambda>x. evt_id x = eid) es)" for es
    using assms by (induction es) auto
  then show ?thesis by (simp add: event_by_id_def)
qed

lemma seat_view_save_event:
  assumes "\<And>e. evt_id (f e) = evt_id e" "\<And>e. i = eid \<Longrightarrow> evt_capacity (f e) = evt_capacity e"
  shows "seat_view eid (save_event i f d) = seat_view eid d"
  using assms by (auto simp: seat_view_def event_by_id_save waitlisted_rows_def split: option.split dest: event_by_id_Some)

text \<open>What one call does to the seats of an event: at most one abstract operation.\<close>

lemma serve_call_seats:
  assumes "serve_call r seen d = (Inr x, d')" "system_ok d" "call_ready r seen d" "keeps_capacity eid r"
    and "event_by_id eid d = Some ev"
  shows "(\<exists>op. enabled op (seat_view eid d) \<and> seat_view eid d' = apply_op op (seat_view eid d)) \<and> event_by_id eid d' \<noteq> None"
proof -
  have sch: "schema_ok d" using assms(2) by (simp add: system_ok_def)
  have skip: ?thesis if "seat_view eid d' = seat_view eid d" "event_by_id eid d' \<noteq> None"
    using that by (auto intro!: exI[where x = Skip])
  have saved: ?thesis if "d' = save_event i f d \<or> (\<exists>js. d' = (save_event i f d)\<lparr>notification_jobs := js\<rparr>)" "\<And>e. evt_id (f e) = evt_id e"
      "\<And>e. i = eid \<Longrightarrow> evt_capacity (f e) = evt_capacity e" for i f
  proof -
    have "seat_view eid d' = seat_view eid (save_event i f d) \<and> event_by_id eid d' = event_by_id eid (save_event i f d)"
      using that(1) by (auto simp: seat_view_def waitlisted_rows_def event_by_id_def)
    then show ?thesis using seat_view_save_event[OF that(2,3)] event_by_id_save[OF that(2)] assms(5)
      by (intro skip) simp_all
  qed
  have step: ?thesis if "seat_step eid d op d'" for op
    using seat_step_sound[OF sch that] seat_step_events[OF sch that] assms(5) by (auto simp: event_by_id_def)
  show ?thesis
  proof (cases r)
    case (CreateEvent organizer data i now)
    with assms(1) obtain e where "create_event organizer data i now d = (Inr e, d')" by (auto simp: answering_Inr)
    from create_event_effect(1)[OF this] show ?thesis
      using assms(5) by (intro skip) (simp_all add: seat_view_def waitlisted_rows_def event_by_id_def get_or_none_append)
  next
    case (UpdateEvent h user i data now)
    with assms(1) obtain e where "update_event h user i data now seen d = (Inr e, d')" by (auto simp: answering_Inr)
    then show ?thesis
    proof (cases rule: update_event_writes)
      case 1
      with assms(5) show ?thesis by (intro skip) simp_all
    next
      case (2 obj)
      with UpdateEvent assms(4) show ?thesis by (intro saved[where i = i and f = "save_fields data obj"]) (simp_all add: save_fields_def)
    qed
  next
    case (PublishEvent user i now)
    with assms(1) show ?thesis
      by (intro saved[where i = i and f = "\<lambda>e. e\<lparr>evt_status := Published, evt_updated_at := now\<rparr>"])
        (auto simp: answering_Inr publish_event_Inr simp del: save_event_simps)
  next
    case (CancelEvent user i new_id now snow jnow)
    with assms(1) obtain e where "cancel_event user i new_id now snow jnow d = (Inr e, d')" by (auto simp: answering_Inr)
    then show ?thesis
    proof (cases rule: cancel_event_effect)
      case 1
      with assms(5) show ?thesis by (intro skip) simp_all
    next
      case (2 ev' js)
      then show ?thesis
        by (intro saved[where i = i and f = "\<lambda>e. e\<lparr>evt_status := EventCancelled, evt_updated_at := snow\<rparr>"]) auto
    qed
  next
    case (RegisterStudent student e rid jid t1 t2)
    with assms(1) obtain resp where "register_student student e rid jid t1 t2 d = (Inr resp, d')" by (auto simp: answering_Inr)
    then have "\<exists>op. seat_step eid d op d'" using seat_step.register seat_step.register_other by metis
    with step show ?thesis by blast
  next
    case (CancelRegistration student rid pj cj now cnow jnow)
    with assms(1) obtain c where "cancel_registration student rid pj cj now cnow jnow seen d = (Inr c, d')" by (auto simp: answering_Inr)
    moreover have "extends seen d" using assms(3) CancelRegistration by simp
    ultimately have "\<exists>op. seat_step eid d op d'" using seat_step.cancel seat_step.cancel_other by metis
    with step show ?thesis by blast
  qed
qed

text \<open>A property of the seats that every abstract operation keeps holds at every moment of every interleaving.\<close>

lemma interleaved_seats:
  assumes ok: "system_ok d" and run: "tx_run (handler_step (keeps_capacity eid) cr st) (idle d) w"
    and ev: "event_by_id eid d = Some ev" and Q: "Q (seat_view eid d)"
    and op: "\<And>op s. wf_seats s \<Longrightarrow> enabled op s \<Longrightarrow> Q s \<Longrightarrow> Q (apply_op op s)"
  shows "Q (seat_view eid (committed w)) \<and> event_by_id eid (committed w) \<noteq> None"
proof (rule handlers.world_invariant[OF run handlers.idle_ok[OF ok]])
  show "Q (seat_view eid (committed (idle d))) \<and> event_by_id eid (committed (idle d)) \<noteq> None"
    using ev Q by (simp add: idle_def)
next
  fix r s d x d'
  assume "system_ok d" and Q: "Q (seat_view eid d) \<and> event_by_id eid d \<noteq> None"
    and "keeps_capacity eid r \<and> call_ready r s d" "serve_call r s d = (Inr x, d')"
  then have "(\<exists>op. enabled op (seat_view eid d) \<and> seat_view eid d' = apply_op op (seat_view eid d)) \<and> event_by_id eid d' \<noteq> None"
    using serve_call_seats by blast
  moreover have "wf_seats (seat_view eid d)" using \<open>system_ok d\<close> by (intro seat_view_wf) (simp add: system_ok_def)
  ultimately show "Q (seat_view eid d') \<and> event_by_id eid d' \<noteq> None" using op Q by metis
next
  fix d d' assume "Q (seat_view eid d) \<and> event_by_id eid d \<noteq> None" "other_write cr st d d'"
  then show "Q (seat_view eid d') \<and> event_by_id eid d' \<noteq> None"
    by (simp add: other_write_def seat_view_def event_by_id_def waitlisted_rows_def)
qed



section \<open>No deadlock\<close>

text \<open>
  The identifiers drawn for new rows (\<open>uuid4\<close>) differ from each other and from those in use.
\<close>

definition fresh_draws :: "(lock, db, answer, service_call) world \<Rightarrow> bool" where
  "fresh_draws w \<longleftrightarrow> (\<forall>i j s t. i \<noteq> j \<longrightarrow> sessions w i = Some s \<longrightarrow> sessions w j = Some t \<longrightarrow>
       drawn_jobs (ses_request s) (committed w) \<inter> drawn_jobs (ses_request t) (committed w) = {}
       \<and> drawn_registrations (ses_request s) \<inter> drawn_registrations (ses_request t) = {})
     \<and> (\<forall>i s. sessions w i = Some s \<longrightarrow>
         drawn_registrations (ses_request s) \<inter> reg_id ` set (registrations (committed w)) = {})"

definition waits :: "nat \<Rightarrow> ('k, 's, 'a, 'r) world \<Rightarrow> bool" where
  "waits i w \<longleftrightarrow> (\<exists>s L u k. sessions w i = Some s \<and> ses_tx s = Stmt L u k \<and> \<not> unlocked i L w)"

lemma fresh_drawsD:
  assumes "fresh_draws w" "j \<noteq> i" "sessions w i = Some s" "sessions w j = Some t"
  shows "drawn_jobs (ses_request s) (committed w) \<inter> drawn_jobs (ses_request t) (committed w) = {}"
    and "drawn_registrations (ses_request s) \<inter> drawn_registrations (ses_request t) = {}"
    and "drawn_registrations (ses_request s) \<inter> reg_id ` set (registrations (committed w)) = {}"
    and "drawn_registrations (ses_request t) \<inter> reg_id ` set (registrations (committed w)) = {}"
proof -
  note f = assms(1)[unfolded fresh_draws_def] and ij = assms(2)[symmetric]
  note p = conjunct1[OF f, rule_format, OF ij assms(3,4)] and u = conjunct2[OF f, rule_format]
  show "drawn_jobs (ses_request s) (committed w) \<inter> drawn_jobs (ses_request t) (committed w) = {}" using p by (rule conjunct1)
  show "drawn_registrations (ses_request s) \<inter> drawn_registrations (ses_request t) = {}" using p by (rule conjunct2)
  show "drawn_registrations (ses_request s) \<inter> reg_id ` set (registrations (committed w)) = {}" by (rule u[OF assms(3)])
  show "drawn_registrations (ses_request t) \<inter> reg_id ` set (registrations (committed w)) = {}" by (rule u[OF assms(4)])
qed

lemma lock_domains_disjoint:
  assumes "schema_ok d" "e \<noteq> e'" "drawn_jobs r d \<inter> drawn_jobs r' d = {}" "drawn_registrations r \<inter> drawn_registrations r' = {}"
    and "drawn_registrations r \<inter> reg_id ` set (registrations d) = {}" "drawn_registrations r' \<inter> reg_id ` set (registrations d) = {}"
  shows "lock_domain e r d \<inter> lock_domain e' r' d = {}"
proof -
  let ?I = "\<lambda>e. reg_id ` set (event_rows e d)"
  have rows: "i \<notin> ?I e'" if i: "i \<in> ?I e" for i
  proof
    assume "i \<in> ?I e'"
    with i obtain x y where x: "x \<in> set (registrations d)" "reg_event_id x = e" "reg_id x = i"
      and y: "y \<in> set (registrations d)" "reg_event_id y = e'" "reg_id y = i" by (auto simp: event_rows_def)
    from pk_unique[OF schema_ok_D(2)[OF assms(1)] x(1) y(1)] x y assms(2) show False by simp
  qed
  have used: "\<And>i x. i \<in> ?I x \<Longrightarrow> i \<in> reg_id ` set (registrations d)" by (auto simp: event_rows_def)
  have drawn: "i \<notin> drawn_registrations r'" "i \<notin> reg_id ` set (registrations d)" if "i \<in> drawn_registrations r" for i
    using that assms(4,5) by auto
  have drawn': "i \<notin> reg_id ` set (registrations d)" if "i \<in> drawn_registrations r'" for i using that assms(6) by auto
  have keys: "i \<notin> ?I e' \<union> drawn_registrations r'" if "i \<in> ?I e \<union> drawn_registrations r" for i
    using that rows[of i] used[of i e] used[of i e'] drawn[of i] drawn'[of i] by blast
  have False if x: "x \<in> lock_domain e r d" "x \<in> lock_domain e' r' d" for x
  proof (cases x)
    case (EventRow i)
    with x assms(2) show False by (simp add: lock_domain_def image_iff)
  next
    case (RegistrationRow i)
    then have "i \<in> ?I e" "i \<in> ?I e'" using x by (auto simp: lock_domain_def)
    with rows show False by blast
  next
    case (RegistrationKey i)
    then have "i \<in> drawn_registrations r" "i \<in> drawn_registrations r'" using x by (auto simp: lock_domain_def)
    with assms(4) show False by blast
  next
    case (ActivePair i u)
    with x assms(2) show False by (auto simp: lock_domain_def)
  next
    case (JobKey i)
    then have "i \<in> drawn_jobs r d" "i \<in> drawn_jobs r' d" using x by (auto simp: lock_domain_def)
    with assms(3) show False by blast
  next
    case (JobIdem k)
    then obtain i ty where "k = idempotency_key i ty" "i \<in> ?I e \<union> drawn_registrations r"
      using x(1) by (auto simp: lock_domain_def)
    moreover from JobIdem obtain i' ty' where "k = idempotency_key i' ty'" "i' \<in> ?I e' \<union> drawn_registrations r'"
      using x(2) by (auto simp: lock_domain_def)
    ultimately show False using keys by (metis idempotency_key_inject)
  qed
  then show ?thesis by blast
qed

text \<open>A session that holds a lock holds the lock of its event, and every lock it holds or asks for is in its domain.\<close>

lemma session_locks:
  assumes "system_ok d" "call_ready (ses_request s) (ses_seen s) d"
    and "reached d (open_call (ses_request s) (ses_seen s)) id {} (ses_tx s) (ses_writes s) (ses_locks s)"
  shows "ses_locks s \<union> locks_of (ses_tx s) (ses_writes s) d \<subseteq> lock_domain (target_event (ses_request s) (ses_seen s)) (ses_request s) d"
    and "ses_locks s \<noteq> {} \<Longrightarrow> EventRow (target_event (ses_request s) (ses_seen s)) \<in> ses_locks s"
proof -
  show "ses_locks s \<union> locks_of (ses_tx s) (ses_writes s) d \<subseteq> lock_domain (target_event (ses_request s) (ses_seen s)) (ses_request s) d"
    using reached_locks[OF assms(3)] locks_of_call[OF assms(1,2)] by simp
  assume "ses_locks s \<noteq> {}"
  then obtain M u k where "open_call (ses_request s) (ses_seen s) = Stmt M u k" "M \<subseteq> ses_locks s"
    using reached_first[OF assms(3)] by blast
  with call_starts show "EventRow (target_event (ses_request s) (ses_seen s)) \<in> ses_locks s" by blast
qed

text \<open>
  C30: The handlers cannot deadlock. In every world that interleaved calls can reach, if the
  identifiers drawn are fresh, a session that holds a lock does not wait for anything, so whenever a
  call is open, some call can go on: the only lock anybody waits for is the first one, that of the event.
\<close>

theorem handlers_do_not_deadlock:
  assumes "system_ok d" "tx_run (handler_step A cr st) (idle d) w" "fresh_draws w"
  shows "(\<forall>i s. sessions w i = Some s \<and> ses_locks s \<noteq> {} \<longrightarrow> \<not> waits i w)
     \<and> ((\<exists>i. sessions w i \<noteq> None) \<longrightarrow> (\<exists>j. sessions w j \<noteq> None \<and> \<not> waits j w))"
proof -
  have ok: "handlers.world_ok A w" by (rule handlers.run_world_ok[OF assms(2) handlers.idle_ok[OF assms(1)]])
  note wok = handlers.world_okD[OF ok]
  let ?e = "\<lambda>s. target_event (ses_request s) (ses_seen s)"
  have loc: "ses_locks s \<union> locks_of (ses_tx s) (ses_writes s) (committed w) \<subseteq> lock_domain (?e s) (ses_request s) (committed w)"
      "ses_locks s \<noteq> {} \<Longrightarrow> EventRow (?e s) \<in> ses_locks s" if "sessions w i = Some s" for i s
  proof -
    have "call_ready (ses_request s) (ses_seen s) (committed w)"
      "reached (committed w) (open_call (ses_request s) (ses_seen s)) id {} (ses_tx s) (ses_writes s) (ses_locks s)"
      using wok(2)[OF that] unfolding handlers.session_ok_def by blast+
    note sl = session_locks[OF wok(1) this]
    show "ses_locks s \<union> locks_of (ses_tx s) (ses_writes s) (committed w) \<subseteq> lock_domain (?e s) (ses_request s) (committed w)"
      by (rule sl(1))
    show "EventRow (?e s) \<in> ses_locks s" if "ses_locks s \<noteq> {}" using that by (rule sl(2))
  qed
  have holder: "\<not> waits i w" if s: "sessions w i = Some s" "ses_locks s \<noteq> {}" for i s
  proof
    assume "waits i w"
    then obtain L u k where tx: "ses_tx s = Stmt L u k" and "\<not> unlocked i L w" using s(1) by (auto simp: waits_def)
    then obtain j t x where t: "j \<noteq> i" "sessions w j = Some t" and x: "x \<in> L" "x \<in> ses_locks t"
      unfolding unlocked_def by blast
    have "EventRow (?e s) \<in> ses_locks s" "EventRow (?e t) \<in> ses_locks t" using loc(2)[OF s(1) s(2)] loc(2)[OF t(2)] x(2) by auto
    then have "?e s \<noteq> ?e t" using wok(3)[OF t(1) t(2) s(1)] by auto
    then have "lock_domain (?e s) (ses_request s) (committed w) \<inter> lock_domain (?e t) (ses_request t) (committed w) = {}"
      using wok(1) fresh_drawsD[OF assms(3) t(1) s(1) t(2)] by (intro lock_domains_disjoint) (simp_all add: system_ok_def)
    moreover have "x \<in> lock_domain (?e s) (ses_request s) (committed w)" using loc(1)[OF s(1)] x(1) tx by auto
    moreover have "x \<in> lock_domain (?e t) (ses_request t) (committed w)" using loc(1)[OF t(2)] x(2) by auto
    ultimately show False by blast
  qed
  have "\<exists>j. sessions w j \<noteq> None \<and> \<not> waits j w" if "sessions w i = Some s" for i s
  proof (cases "waits i w")
    case True
    then obtain j t where "sessions w j = Some t" "ses_locks t \<noteq> {}" by (auto simp: waits_def unlocked_def)
    with holder show ?thesis by blast
  qed (use that in blast)
  with holder show ?thesis by blast
qed

text \<open>The second student waits for the first one, who holds the lock of the event and can go on.\<close>

theorem handlers_do_not_deadlock_witness:
  "\<exists>w. tx_run (handler_step (\<lambda>r. True) sample_crypto sample_auth) (idle sample_db) w \<and> fresh_draws w
     \<and> waits 1 w \<and> sessions w 0 \<noteq> None \<and> \<not> waits 0 w"
proof -
  let ?A = "\<lambda>r::service_call. True"
  let ?step = "handler_step ?A sample_crypto sample_auth" and ?w0 = "idle sample_db :: (lock, db, answer, service_call) world"
  let ?wa = "ask 0 call_2 sample_db ?w0"
  let ?wb = "ask 1 call_3 sample_db ?wa"
  let ?s = "new_session open_call call_2 sample_db"
  have com: "committed ?w0 = sample_db" "sessions ?w0 j = None" for j by (simp_all add: idle_def)
  have adm: "admitted call_2 sample_db" "admitted call_3 sample_db"
    by (simp_all add: call_2_def call_3_def sample_defs has_user_def)
  have a: "?step ?w0 None ?wa" using t_open[of ?w0 0 "\<lambda>r d. ?A r \<and> admitted r d" call_2] adm com by (simp add: ask_def)
  have b: "?step ?wa None ?wb" using t_open[of ?wa 1 "\<lambda>r d. ?A r \<and> admitted r d" call_3] adm com by (simp add: ask_def)
  obtain k where tx: "ses_tx ?s = Stmt {EventRow 10} no_write k" and go: "\<not> is_Rollback (k sample_db)"
    by (simp add: new_session_def call_2_def register_tx_def select_stmt_def)
      (simp add: sample_defs event_by_id_def select_stmt_def)
  let ?t = "advance {EventRow 10} no_write k sample_db ?s"
  let ?wc = "put_session 0 (Some ?t) ?wb"
  have s0: "sessions ?wb 0 = Some ?s" "committed ?wb = sample_db" "ses_writes ?s = id"
    using com by (auto simp: ask_def new_session_def)
  have "unlocked 0 {EventRow 10} ?wb" using com by (auto simp: unlocked_def ask_def new_session_def split: if_splits)
  then have c: "?step ?wb None ?wc" using t_stmt[OF s0(1) tx] go s0 by simp
  have run: "tx_run ?step ?w0 ?wc"
    by (rule run_trans[OF run_one[where step = ?step, OF c] run_trans[OF run_one[where step = ?step, OF b] run_one[where step = ?step, OF a]]])
  have t0: "sessions ?wc 0 = Some ?t" "ses_locks ?t = {EventRow 10}" by (simp_all add: advance_def Let_def new_session_def)
  have t1: "sessions ?wc 1 = Some (new_session open_call call_3 sample_db)" by (simp add: ask_def)
  have fresh: "fresh_draws ?wc"
    using com by (auto simp: fresh_draws_def ask_def new_session_def advance_def Let_def call_2_def call_3_def sample_defs split: if_splits)
  obtain k' where "ses_tx (new_session open_call call_3 sample_db) = Stmt {EventRow 10} no_write k'"
    by (simp add: new_session_def call_3_def register_tx_def select_stmt_def)
  moreover have "\<not> unlocked 1 {EventRow 10} ?wc"
  proof
    assume "unlocked 1 {EventRow 10} ?wc"
    then have "{EventRow 10} \<inter> ses_locks ?t = {}" using t0(1) unfolding unlocked_def by (metis zero_neq_one)
    with t0(2) show False by simp
  qed
  ultimately have "waits 1 ?wc" unfolding waits_def using t1 by blast
  moreover have "\<not> waits 0 ?wc"
    using handlers_do_not_deadlock[OF sample_db_system_ok run fresh] t0 by (metis insert_not_empty)
  ultimately show ?thesis using run fresh t0(1) by (intro exI[where x = ?wc]) simp
qed

end
