(* ===== verification/Token_Interleaving.thy ===== *)
theory Token_Interleaving
  imports Transactions Auth_Properties
begin

text \<open>
  Concurrent refreshes: \<open>rotate_refresh_token\<close> of \<open>services/auth.py\<close> statement by statement, the row
  of the presented token locked by \<open>SELECT ... FOR UPDATE\<close>, a second interpretation of \<open>locking\<close>. The
  other writers of tokens (login, logout, revoking everything) write with single statements, which
  wait for the rows they change.
\<close>

section \<open>The transaction\<close>

text \<open>A row of the table or its place in the unique index of the hashes; a primary key.\<close>

datatype token_lock = TokenHash string | TokenKey uuid

datatype rotation = Rotate string refresh_client string uuid instant

type_synonym rotation_tx = "(token_lock, db, string \<times> string \<times> refresh_client) tx"

definition token_by_hash :: "string \<Rightarrow> db \<Rightarrow> refresh_token option" where
  "token_by_hash h d = get_or_none (\<lambda>t. tok_token_hash t = h) (refresh_tokens d)"

definition insert_token_tx :: "crypto \<Rightarrow> auth_settings \<Rightarrow> user \<Rightarrow> refresh_client \<Rightarrow> string \<Rightarrow> uuid \<Rightarrow> instant \<Rightarrow> rotation_tx" where
  "insert_token_tx cr st user client raw new_id now =
     (let t = \<lparr>tok_id = new_id, tok_user_id = usr_id user, tok_token_hash = hash_token cr raw,
              tok_client = client, tok_expires_at = now + days (as_refresh_token_expire_days st),
              tok_revoked_at = None, tok_created_at = now\<rparr>
      in Stmt {TokenKey new_id, TokenHash (hash_token cr raw)}
           (\<lambda>v d. case fst (create_refresh_token t v) of Inl e \<Rightarrow> d | Inr _ \<Rightarrow> d\<lparr>refresh_tokens := refresh_tokens d @ [t]\<rparr>)
           (\<lambda>v. case fst (create_refresh_token t v) of
              Inl e \<Rightarrow> Rollback e | Inr _ \<Rightarrow> Commit (create_access_token cr st user now, raw, client)))"

text \<open>
  After the revocation of a family the transaction is rolled back; the locks of the rows it has
  changed by then are left out.
\<close>

fun rotate_tx :: "crypto \<Rightarrow> auth_settings \<Rightarrow> rotation \<Rightarrow> rotation_tx" where
  "rotate_tx cr st (Rotate raw_token presented_client new_raw new_id now) =
     (let h = hash_token cr raw_token
      in select_stmt {TokenHash h} (\<lambda>v. case token_by_hash h v of
           None \<Rightarrow> Rollback (ValueError ''refresh token not found'')
         | Some record \<Rightarrow>
             if tok_expires_at record < now \<and> tok_revoked_at record = None
             then Rollback (ValueError ''refresh token expired'')
             else if tok_revoked_at record \<noteq> None
             then update_stmt {}
                    (save_tokens (\<lambda>t. tok_user_id t = tok_user_id record \<and> tok_revoked_at t = None) (\<lambda>t. t\<lparr>tok_revoked_at := Some now\<rparr>))
                    (Rollback (PermissionError ''token_reuse_detected''))
             else if tok_client record \<noteq> presented_client then Rollback (ValueError ''client mismatch'')
             else update_stmt {TokenHash h} (save_tokens (\<lambda>t. tok_id t = tok_id record) (\<lambda>t. t\<lparr>tok_revoked_at := Some now\<rparr>))
                    (select_stmt {} (\<lambda>v. case user_by_id (tok_user_id record) v of
                       None \<Rightarrow> Rollback DoesNotExist
                     | Some user \<Rightarrow> insert_token_tx cr st user (tok_client record) new_raw new_id now))))"

fun rotate :: "crypto \<Rightarrow> auth_settings \<Rightarrow> rotation \<Rightarrow> (db, string \<times> string \<times> refresh_client) prog" where
  "rotate cr st (Rotate raw_token presented_client new_raw new_id now) =
     rotate_refresh_token cr st raw_token presented_client new_raw new_id now"

lemma run_insert_token:
  "run_tx (insert_token_tx cr st user client raw i now) w d =
     (case issue_refresh_token cr st user client raw i now (w d) of
        (Inl e, d') \<Rightarrow> (Inl e, d) | (Inr x, d') \<Rightarrow> (Inr (create_access_token cr st user now, x, client), d'))"
  by (simp add: insert_token_tx_def issue_refresh_token_def and_then_def create_refresh_token_def ret_def Let_def)

lemma run_rotate: "run_tx (rotate_tx cr st r) id d = rotate cr st r d"
  by (cases r) (simp add: select_stmt_def update_stmt_def no_write_def run_insert_token rotate_refresh_token_def token_by_hash_def
      in_transaction_def raise_def ret_def and_then_def Let_def split: option.split prod.split sum.split)

section \<open>The protocol\<close>

text \<open>
  The lock of a hash protects the token with it or that there is none. No account is deleted or
  given another role by the application.
\<close>

definition same_accounts :: "db \<Rightarrow> db \<Rightarrow> bool" where
  "same_accounts d d' \<longleftrightarrow> (\<forall>i u. user_by_id i d = Some u \<longrightarrow> (\<exists>u'. user_by_id i d' = Some u' \<and> usr_role u' = usr_role u))"

definition spared :: "token_lock set \<Rightarrow> db \<Rightarrow> db \<Rightarrow> bool" where
  "spared L d d' \<longleftrightarrow> same_accounts d d' \<and> (\<forall>h. TokenHash h \<in> L \<longrightarrow> token_by_hash h d' = token_by_hash h d)
     \<and> (\<forall>i. TokenKey i \<in> L \<longrightarrow> (i \<in> tok_id ` set (refresh_tokens d') \<longleftrightarrow> i \<in> tok_id ` set (refresh_tokens d)))"

definition other_token_write :: "db \<Rightarrow> db \<Rightarrow> bool" where
  "other_token_write d d' \<longleftrightarrow> token_step d d' \<or> refresh_tokens d' = refresh_tokens d"

abbreviation rotation_step where
  "rotation_step cr st \<equiv> tx_step (\<lambda>r seen. rotate_tx cr st r) (\<lambda>r d. True) spared other_token_write"

lemma spared_same: "users d' = users d \<Longrightarrow> same_accounts d d'"
  by (simp add: same_accounts_def user_by_id_def)

lemma insert_token_cong:
  assumes "usr_id u' = usr_id u" "usr_role u' = usr_role u"
  shows "insert_token_tx cr st u' client raw i now = insert_token_tx cr st u client raw i now"
proof -
  have access: "create_access_token cr st u' now = create_access_token cr st u now" using assms by (simp add: create_access_token_def)
  show ?thesis unfolding insert_token_tx_def assms(1) access ..
qed

lemma taken_hash: "h \<in> tok_token_hash ` set (refresh_tokens d) \<longleftrightarrow> token_by_hash h d \<noteq> None"
  by (auto simp: token_by_hash_def get_or_none_None)

lemma revoke_elsewhere:
  assumes "\<And>t. t \<in> set (refresh_tokens d) \<Longrightarrow> P t \<Longrightarrow> tok_token_hash t = h" "h' \<noteq> h"
  shows "token_by_hash h' (save_tokens P (\<lambda>t. t\<lparr>tok_revoked_at := x\<rparr>) d) = token_by_hash h' d"
proof -
  have "get_or_none (\<lambda>t. tok_token_hash t = h') (update_where P (\<lambda>t. t\<lparr>tok_revoked_at := x\<rparr>) ts) = get_or_none (\<lambda>t. tok_token_hash t = h') ts"
    if "\<And>t. t \<in> set ts \<Longrightarrow> P t \<Longrightarrow> tok_token_hash t = h" for ts
    using that assms(2) by (induction ts) auto
  with assms(1) show ?thesis by (simp add: token_by_hash_def)
qed

lemma spared_refl: "spared L d d"
  by (simp add: spared_def same_accounts_def)

abbreviation follows_rotation :: "rotation_tx \<Rightarrow> (db \<Rightarrow> db) \<Rightarrow> token_lock set \<Rightarrow> db \<Rightarrow> bool" where
  "follows_rotation \<equiv> obeys tokens_ok spared"

lemma same_account:
  assumes "spared L d d'" "user_by_id i d = Some u"
  obtains u' where "user_by_id i d' = Some u'" "usr_role u' = usr_role u"
proof -
  have "same_accounts d d'" using assms(1) by (simp add: spared_def)
  with assms(2) show thesis using that unfolding same_accounts_def by meson
qed

lemma follows_insert:
  assumes w: "\<And>x. users (w x) = users x" "\<And>x. tok_id ` set (refresh_tokens (w x)) = tok_id ` set (refresh_tokens x)"
      "\<And>x. tok_token_hash ` set (refresh_tokens (w x)) = tok_token_hash ` set (refresh_tokens x)"
  shows "follows_rotation (insert_token_tx cr st u client raw i now) w L d"
proof -
  let ?h = "hash_token cr raw" and ?L = "L \<union> {TokenKey i, TokenHash (hash_token cr raw)}"
  define t where "t = \<lparr>tok_id = i, tok_user_id = usr_id u, tok_token_hash = ?h, tok_client = client,
     tok_expires_at = now + days (as_refresh_token_expire_days st), tok_revoked_at = None, tok_created_at = now\<rparr>"
  have t: "tok_id t = i" "tok_token_hash t = ?h" by (simp_all add: t_def)
  have user: "has_user s (w x) = has_user s x" for s x by (simp add: has_user_def w)
  have same: "fst (create_refresh_token t (w d')) = fst (create_refresh_token t (w d))"
    if "spared ?L d d'" "fst (create_refresh_token t (w d)) = Inr y" for d' y
  proof -
    from that(2) have "has_user (tok_user_id t) d"
      by (cases "has_user (tok_user_id t) d") (simp_all add: create_refresh_token_def user)
    then obtain v where "user_by_id (tok_user_id t) d = Some v" unfolding has_user_iff not_None_eq by blast
    from same_account[OF that(1) this] have "has_user (tok_user_id t) d'" unfolding has_user_iff not_None_eq by blast
    moreover have "i \<in> tok_id ` set (refresh_tokens d') \<longleftrightarrow> i \<in> tok_id ` set (refresh_tokens d)"
      "?h \<in> tok_token_hash ` set (refresh_tokens d') \<longleftrightarrow> ?h \<in> tok_token_hash ` set (refresh_tokens d)"
      using that(1) by (simp_all add: spared_def taken_hash)
    ultimately show ?thesis using that(2) by (simp add: create_refresh_token_def user w t split: if_splits)
  qed
  have "spared (- ?L) x (x\<lparr>refresh_tokens := refresh_tokens x @ [t]\<rparr>)" for x
    using t by (auto simp: spared_def token_by_hash_def get_or_none_append intro: spared_same split: option.split)
  with same show ?thesis unfolding obeys_def insert_token_tx_def t_def[symmetric] Let_def
    by (cases "fst (create_refresh_token t (w d))") simp_all
qed

lemma follows_rotate:
  assumes "tokens_ok d"
  shows "follows_rotation (rotate_tx cr st r) id {} d"
proof (cases r)
  case (Rotate raw client new_raw i now)
  let ?h = "hash_token cr raw"
  let ?L = "{} \<union> {TokenHash ?h}"
  have rotation: "follows_rotation (update_stmt {TokenHash ?h} (save_tokens (\<lambda>t. tok_id t = tok_id rec) (\<lambda>t. t\<lparr>tok_revoked_at := Some now\<rparr>))
      (select_stmt {} (\<lambda>v. case user_by_id (tok_user_id rec) v of None \<Rightarrow> Rollback DoesNotExist
         | Some user \<Rightarrow> insert_token_tx cr st user (tok_client rec) new_raw i now))) id ?L d"
    if rec: "token_by_hash ?h d = Some rec" for rec
  proof -
    define w where "w = save_tokens (\<lambda>t. tok_id t = tok_id rec) (\<lambda>t. t\<lparr>tok_revoked_at := Some now\<rparr>)"
    let ?k = "\<lambda>v. case user_by_id (tok_user_id rec) v of None \<Rightarrow> Rollback DoesNotExist
         | Some user \<Rightarrow> insert_token_tx cr st user (tok_client rec) new_raw i now"
    have mem: "rec \<in> set (refresh_tokens d)" "tok_token_hash rec = ?h"
      using rec unfolding token_by_hash_def by (blast dest: get_or_none_Some)+
    have "tok_token_hash t = ?h" if "t \<in> set (refresh_tokens d)" "tok_id t = tok_id rec" for t
      using pk_unique[OF _ mem(1) that(1), of tok_id] that(2) assms mem(2) by (simp add: tokens_ok_def)
    then have "token_by_hash h' (w d) = token_by_hash h' d" if "h' \<noteq> ?h" for h'
      using that unfolding w_def by (intro revoke_elsewhere) auto
    then have guard: "spared (- ?L) d (w d)"
      by (auto simp: spared_def w_def image_update_where intro: spared_same)
    have look: "user_by_id s (w x) = user_by_id s x" for s x by (simp add: w_def)
    have again: "?k (w d') = ?k (w d)" if "spared ?L d d'" "\<not> is_Rollback (?k (w d))" for d'
    proof (cases "user_by_id (tok_user_id rec) d")
      case (Some u)
      from same_account[OF that(1) this] obtain u' where u': "user_by_id (tok_user_id rec) d' = Some u'" "usr_role u' = usr_role u" .
      have "usr_id u' = usr_id u" using user_by_id_Some[OF Some] user_by_id_Some[OF u'(1)] by simp
      from insert_token_cong[OF this u'(2)] Some u'(1) show ?thesis by (simp add: look)
    qed (use that(2) in \<open>simp add: look\<close>)
    show ?thesis unfolding w_def[symmetric]
    proof (rule obeys_update)
      show "spared (- (?L \<union> {TokenHash ?h})) (id d) (w (id d))" using guard by simp
      show "follows_rotation (select_stmt {} ?k) (\<lambda>x. w (id x)) (?L \<union> {TokenHash ?h}) d"
      proof (rule obeys_select[OF _ _ spared_refl])
        show "?k (w (id d')) = ?k (w (id d))" if "\<not> is_Rollback (?k (w (id d)))" "spared (?L \<union> {TokenHash ?h} \<union> {}) d d'" for d'
          using again that by simp
        have "follows_rotation (insert_token_tx cr st u (tok_client rec) new_raw i now) (\<lambda>x. w (id x)) K d" for u K
          by (rule follows_insert) (simp_all add: w_def image_update_where)
        then show "follows_rotation (?k (w (id d))) (\<lambda>x. w (id x)) (?L \<union> {TokenHash ?h} \<union> {}) d" by (simp split: option.split)
      qed
    qed
  qed
  have same: "token_by_hash ?h d' = token_by_hash ?h d" if "spared ?L d d'" for d' using that by (simp add: spared_def)
  have reuse: "follows_rotation (update_stmt {} f (Rollback e)) id L d" for f e L by (rule obeys_update) simp_all
  show ?thesis unfolding Rotate rotate_tx.simps Let_def
    by (rule obeys_select[OF _ _ spared_refl]) (use same rotation reuse in \<open>simp_all split: option.split\<close>)
qed

lemma other_token_write_kept: "tokens_ok d \<Longrightarrow> other_token_write d d' \<Longrightarrow> tokens_kept d d'"
proof -
  assume "tokens_ok d" "other_token_write d d'"
  then consider "token_step d d'" | "refresh_tokens d' = refresh_tokens d" by (auto simp: other_token_write_def)
  then show ?thesis
  proof cases
    case 1
    with \<open>tokens_ok d\<close> show ?thesis by (rule token_step_kept)
  next
    case 2
    then show ?thesis using tokens_kept_refl[of d] by (simp add: tokens_kept_def tokens_ok_def)
  qed
qed

lemma rotate_tokens_kept: "rotate cr st r d = (res, d') \<Longrightarrow> tokens_ok d \<Longrightarrow> tokens_kept d d'"
  by (cases r) (simp add: rotate_kept)

interpretation rotations: locking "\<lambda>r seen. rotate_tx cr st r" "\<lambda>r seen. rotate cr st r" "\<lambda>r d. True" "\<lambda>r seen d. True"
  tokens_ok spared other_token_write for cr st
proof (unfold_locales, goal_cases)
  case (1 A B d d')
  then show ?case unfolding spared_def by (elim conjE, intro conjI) (assumption | meson subsetD)+
next
  case (2 L d)
  show ?case by (rule spared_refl)
next
  case (3 L a b c)
  then show ?case unfolding spared_def same_accounts_def by (elim conjE, intro conjI) (metis, simp_all)
next
  case (6 d r s)
  show ?case by (rule run_rotate)
next
  case (7 d r s)
  then show ?case using follows_rotate by (simp add: obeys_def)
next
  case (8 d r s)
  then show ?case using follows_rotate by (simp add: obeys_def)
next
  case (9 d r s x d')
  from 9(1,3) have "tokens_kept d d'" by (rule rotate_tokens_kept[rotated])
  with 9(1) show ?case by (auto simp: tokens_kept_def)
next
  case (10 d d')
  then show ?case using other_token_write_kept by (auto simp: tokens_kept_def)
qed simp_all

section \<open>A token is redeemed once\<close>

definition spent :: "string \<Rightarrow> db \<Rightarrow> bool" where
  "spent h d \<longleftrightarrow> (\<exists>t\<in>set (refresh_tokens d). tok_token_hash t = h \<and> \<not> token_active t)"

lemma spent_kept: "tokens_kept d d' \<Longrightarrow> spent h d \<Longrightarrow> spent h d'"
  by (force simp: tokens_kept_def spent_def token_kept_def)

lemma rotate_spends:
  assumes "rotate cr st (Rotate raw client new_raw i now) d = (Inr x, d')"
  shows "spent (hash_token cr raw) d'"
proof -
  obtain acc new cl where "x = (acc, new, cl)" by (cases x)
  with assms have "rotate_refresh_token cr st raw client new_raw i now d = (Inr (acc, new, cl), d')" by simp
  then show ?thesis
  proof (rule rotate_Inr)
    fix rec u t
    assume rec: "get_or_none (\<lambda>t. tok_token_hash t = hash_token cr raw) (refresh_tokens d) = Some rec"
      and rows: "refresh_tokens d' = update_where (\<lambda>t. tok_id t = tok_id rec) (\<lambda>t. t\<lparr>tok_revoked_at := Some now\<rparr>) (refresh_tokens d)
       @ [\<lparr>tok_id = i, tok_user_id = tok_user_id rec, tok_token_hash = hash_token cr new_raw, tok_client = client,
           tok_expires_at = now + days (as_refresh_token_expire_days st), tok_revoked_at = None, tok_created_at = now\<rparr>]"
    note mem = get_or_none_Some[OF rec]
    then have "rec\<lparr>tok_revoked_at := Some now\<rparr> \<in> set (refresh_tokens d')"
      by (auto simp: rows set_update_where image_iff intro!: bexI[where x = rec])
    with mem show ?thesis unfolding spent_def by (intro bexI) (simp_all add: token_active_def)
  qed
qed

lemma spent_refused:
  assumes "tokens_ok d" "spent (hash_token cr raw) d"
  shows "rotate cr st (Rotate raw client new_raw i now) d = (Inl (PermissionError ''token_reuse_detected''), d)"
proof -
  from assms(2) obtain t where t: "t \<in> set (refresh_tokens d)" "tok_token_hash t = hash_token cr raw" "\<not> token_active t"
    by (auto simp: spent_def)
  have "get_or_none (\<lambda>x. tok_token_hash x = hash_token cr raw) (refresh_tokens d) = Some t"
    using get_or_none_pk[of tok_token_hash, OF _ t(1)] assms(1) t(2) by (simp add: tokens_ok_def)
  with t(3) show ?thesis by (simp add: rotate_refresh_token_def in_transaction_def raise_def token_active_def)
qed

text \<open>
  C27: A refresh token is redeemed at most once, also by requests that race for it. However the
  statements of any number of refreshes interleave with each other and with everything else that
  writes tokens: once a refresh with a token has succeeded, every other one with the same token that
  ends later, though it may have begun before, is refused as reuse and changes nothing.
\<close>

theorem racing_refreshes_redeem_once:
  assumes "tokens_ok d" "tx_run (rotation_step cr st) (idle d) w"
    and "rotation_step cr st w (Some (Rotate raw client new_raw i now, seen, Inr x)) w1" "tx_run (rotation_step cr st) w1 w2"
    and "rotation_step cr st w2 (Some (Rotate raw client' new_raw' i' now', seen', res)) w3"
  shows "res = Inl (PermissionError ''token_reuse_detected'') \<and> committed w3 = committed w2"
proof -
  have ok: "rotations.world_ok cr st w" by (rule rotations.run_world_ok[OF assms(2) rotations.idle_ok[OF assms(1)]])
  note ok1 = rotations.step_world_ok[OF assms(3) ok]
  note ok2 = rotations.run_world_ok[OF assms(4) ok1]
  have "spent (hash_token cr raw) (committed w1)"
    by (rule rotate_spends) (rule conjunct1[OF rotations.ends_as_one_step[OF assms(3) ok]])
  then have "spent (hash_token cr raw) (committed w2)"
    by (rule rotations.world_invariant[OF assms(4) ok1]) (blast intro: spent_kept rotate_tokens_kept other_token_write_kept)+
  from spent_refused[OF rotations.world_okD(1)[OF ok2] this] rotations.ends_as_one_step[OF assms(5) ok2]
  show ?thesis by simp
qed

text \<open>Two requests with the same token have both begun when the first one takes the lock.\<close>

theorem racing_refreshes_redeem_once_witness:
  "\<exists>w w1 w2 w3 x. tx_run (rotation_step sample_crypto sample_auth) (idle token_db) w
     \<and> sessions w 1 \<noteq> None
     \<and> rotation_step sample_crypto sample_auth w (Some (Rotate ''r1'' Web ''r2'' 61 100, token_db, Inr x)) w1
     \<and> tx_run (rotation_step sample_crypto sample_auth) w1 w2
     \<and> rotation_step sample_crypto sample_auth w2
          (Some (Rotate ''r1'' Web ''r3'' 62 100, token_db, Inl (PermissionError ''token_reuse_detected''))) w3
     \<and> committed w3 = committed w2"
proof -
  let ?op = "\<lambda>r (seen::db). rotate_tx sample_crypto sample_auth r"
  let ?step = "rotation_step sample_crypto sample_auth" and ?w0 = "idle token_db :: (token_lock, db, string \<times> string \<times> refresh_client, rotation) world"
  let ?s = "new_session ?op (Rotate ''r1'' Web ''r2'' 61 100) token_db" and ?t = "new_session ?op (Rotate ''r1'' Web ''r3'' 62 100) token_db"
  let ?wa = "put_session 0 (Some ?s) ?w0"
  let ?wb = "put_session 1 (Some ?t) ?wa"
  let ?x = "(create_access_token sample_crypto sample_auth student2 100, ''r2'', Web)"
  let ?wc = "put_session 0 None (?wb\<lparr>committed := rotated_db\<rparr>)"
  have com: "committed ?w0 = token_db" "sessions ?w0 j = None" for j by (simp_all add: idle_def)
  have a: "?step ?w0 None ?wa" using t_open[of ?w0 0 "\<lambda>r d. True" "Rotate ''r1'' Web ''r2'' 61 100" ?op] com by simp
  have b: "?step ?wa None ?wb" using t_open[of ?wa 1 "\<lambda>r d. True" "Rotate ''r1'' Web ''r3'' 62 100" ?op] com by simp
  have s0: "sessions ?wb 0 = Some ?s" "committed ?wb = token_db"
    and s1: "\<And>j t. j \<noteq> 0 \<Longrightarrow> sessions ?wb j = Some t \<Longrightarrow> ses_locks t = {}"
    using com by (auto simp: new_session_def split: if_splits)
  let ?x = "(create_access_token sample_crypto sample_auth student2 100, ''r2'', Web)"
  have "run_tx (ses_tx ?s) (ses_writes ?s) (committed ?wb) = (Inr ?x, rotated_db)"
    using s0(2) token_db_rotates by (simp add: new_session_def run_rotate del: rotate_tx.simps)
  from run_alone[OF s0(1) _ this, of ?op "\<lambda>r d. True" spared other_token_write] s1
  obtain w where w: "tx_run ?step ?wb w" "?step w (Some (Rotate ''r1'' Web ''r2'' 61 100, token_db, Inr ?x)) ?wc"
    and waiting: "sessions w 1 = sessions ?wb 1"
    by (auto simp: new_session_def simp del: rotate_tx.simps)
  have run: "tx_run ?step ?w0 w"
    by (rule run_trans[OF w(1) run_trans[OF run_one[where step = ?step, OF b] run_one[where step = ?step, OF a]]])
  have t0: "sessions ?wc 1 = Some ?t" "committed ?wc = rotated_db"
    and t1: "\<And>j t. j \<noteq> 1 \<Longrightarrow> sessions ?wc j = Some t \<Longrightarrow> ses_locks t = {}"
    using com by (auto simp: put_session_def idle_def simp del: rotate_tx.simps split: if_splits)
  obtain res d' where fin: "run_tx (ses_tx ?t) (ses_writes ?t) (committed ?wc) = (res, d')" by fastforce
  let ?wd = "put_session 1 None (?wc\<lparr>committed := d'\<rparr>)"
  from run_alone[OF t0(1) _ fin, of ?op "\<lambda>r d. True" spared other_token_write] t1
  obtain v where v: "tx_run ?step ?wc v" "?step v (Some (Rotate ''r1'' Web ''r3'' 62 100, token_db, res)) ?wd"
    by (auto simp: new_session_def simp del: rotate_tx.simps)
  from racing_refreshes_redeem_once[OF token_db_ok run w(2) v]
  have refused: "res = Inl (PermissionError ''token_reuse_detected'')" "committed ?wd = committed v" by (rule conjunct1, rule conjunct2)
  have "sessions w 1 \<noteq> None" using waiting by simp
  with run w(2) v refused show ?thesis
    by (intro exI[where x = w] exI[where x = ?wc] exI[where x = v] exI[where x = ?wd] exI[where x = ?x] conjI) (simp_all only: simp_thms)
qed

end
