(* ===== verification/Responses.thy ===== *)
theory Responses
  imports Auth_Requests Devices
begin

text \<open>
  The response models of \<open>hefest/schemas\<close> and the bodies of the GET requests, and what a caller can
  learn from them: a response depends only on the part of the database the caller may see
  (\<open>caller_view\<close>). Passwords, tokens, identities and devices are no part of it, nor are the drafts of
  others, nor who else is registered for an event that is not one's own.
\<close>

section \<open>Response models\<close>

record event_response =
  er_id :: uuid
  er_organizer_id :: uuid
  er_title :: string
  er_description :: string
  er_starts_at :: datetime
  er_ends_at :: "datetime option"
  er_location :: string
  er_capacity :: int
  er_confirmed_count :: nat
  er_status :: event_status
  er_created_at :: instant
  er_updated_at :: instant

text \<open>
  \<open>from_attributes\<close>: a row of the list query carries the annotation \<open>confirmed_count\<close>, a plain row does
  not, and the field takes its default.
\<close>

definition event_response_of :: "nat option \<Rightarrow> event \<Rightarrow> event_response" where
  "event_response_of annotation e =
     \<lparr>er_id = evt_id e, er_organizer_id = evt_organizer_id e, er_title = evt_title e, er_description = evt_description e,
      er_starts_at = evt_starts_at e, er_ends_at = evt_ends_at e, er_location = evt_location e, er_capacity = evt_capacity e,
      er_confirmed_count = (case annotation of None \<Rightarrow> 0 | Some n \<Rightarrow> n), er_status = evt_status e,
      er_created_at = evt_created_at e, er_updated_at = evt_updated_at e\<rparr>"

record event_detail = event_response +
  ed_waitlist_count :: nat
  ed_organizer_name :: string

definition event_detail_of :: "event_detail_response \<Rightarrow> event_detail" where
  "event_detail_of r = event_response.extend (event_response_of (Some (edr_confirmed_count r)) (edr_event r))
     (event_detail.fields (edr_waitlist_count r) (edr_organizer_name r))"

record job_response =
  jr_id :: uuid
  jr_event_id :: "uuid option"
  jr_event_type :: string
  jr_payload :: payload
  jr_status :: job_status
  jr_idempotency_key :: string
  jr_created_at :: instant
  jr_updated_at :: instant

record job_detail = job_response +
  jd_last_error :: "string option"

definition job_response_of :: "notification_job \<Rightarrow> job_response" where
  "job_response_of j = \<lparr>jr_id = job_id j, jr_event_id = job_event_id j, jr_event_type = job_event_type j,
     jr_payload = job_payload j, jr_status = job_status_of j, jr_idempotency_key = job_idempotency_key j,
     jr_created_at = job_created_at j, jr_updated_at = job_updated_at j\<rparr>"

definition job_detail_of :: "notification_job \<Rightarrow> job_detail" where
  "job_detail_of j = job_response.extend (job_response_of j) (job_detail.fields (job_last_error j))"

record device_response =
  dr_id :: uuid
  dr_expo_push_token :: string
  dr_platform :: device_platform
  dr_created_at :: instant
  dr_updated_at :: instant

definition device_response_of :: "device \<Rightarrow> device_response" where
  "device_response_of x = \<lparr>dr_id = dev_id x, dr_expo_push_token = dev_expo_push_token x, dr_platform = dev_platform x,
     dr_created_at = dev_created_at x, dr_updated_at = dev_updated_at x\<rparr>"

section \<open>The bodies of the requests\<close>

datatype read_request =
    ReadMe
  | ReadEvents int int
  | ReadEvent uuid
  | ReadMyRegistrations
  | ReadRegistrations uuid int int
  | ReadWaitlist uuid int int
  | ReadStats
  | ReadJobs "uuid option" int int
  | ReadJob uuid

datatype body =
    Me user_me_response
  | EventList "event_response list"
  | EventDetail event_detail
  | MyRegistrations "my_registration list"
  | Summaries "registration_summary list"
  | Stats organizer_stats
  | JobList "job_response list"
  | JobDetail job_detail

fun read_body :: "exc + user \<Rightarrow> instant \<Rightarrow> read_request \<Rightarrow> (db, body) prog" where
  "read_body caller now ReadMe = answering Me (get_users_me caller)"
| "read_body caller now (ReadEvents limit offset) =
     answering (\<lambda>es. EventList (map (\<lambda>(e, n). event_response_of (Some n) e) es)) (get_events caller limit offset)"
| "read_body caller now (ReadEvent i) = answering (\<lambda>r. EventDetail (event_detail_of r)) (get_event caller i)"
| "read_body caller now ReadMyRegistrations = answering MyRegistrations (my_registrations caller)"
| "read_body caller now (ReadRegistrations i limit offset) = answering Summaries (event_registrations caller i limit offset)"
| "read_body caller now (ReadWaitlist i limit offset) = answering Summaries (event_waitlist caller i limit offset)"
| "read_body caller now ReadStats = answering Stats (get_stats caller now)"
| "read_body caller now (ReadJobs i limit offset) = answering (\<lambda>js. JobList (map job_response_of js))
     (depends (require_organizer caller) (\<lambda>organizer. validated (page 500 limit offset)
       (\<lambda>(l, o') d. ret (list_notification_jobs i l o' organizer d) d)))"
| "read_body caller now (ReadJob i) = answering (\<lambda>j. JobDetail (job_detail_of j))
     (depends (require_organizer caller) (\<lambda>organizer d. (get_notification_job i organizer d, d)))"

definition read_response ::
  "crypto \<Rightarrow> auth_settings \<Rightarrow> exc + string \<Rightarrow> instant \<Rightarrow> read_request \<Rightarrow> db \<Rightarrow> exc + body" where
  "read_response cr st cred now r d = fst (read_body (current_user cr st cred now d) now r d)"

definition post_event_body where
  "post_event_body caller b new_id now = answering (event_response_of None) (post_event caller b new_id now)"

definition put_event_body where
  "put_event_body lock_hours caller i b now snapshot = answering (event_response_of None) (put_event lock_hours caller i b now snapshot)"

definition post_publish_body where
  "post_publish_body caller i now snapshot = answering (event_response_of None) (post_publish caller i now snapshot)"

definition post_cancel_body where
  "post_cancel_body caller i new_id now save_now job_now =
     answering (event_response_of None) (post_cancel caller i new_id now save_now job_now)"

definition register_device_body where
  "register_device_body token platform user new_id now =
     answering device_response_of (register_device_endpoint token platform user new_id now)"

section \<open>What a caller may see\<close>

definition open_event :: "uuid \<Rightarrow> event \<Rightarrow> bool" where
  "open_event uid e \<longleftrightarrow> evt_status e = Published \<or> evt_organizer_id e = uid"

definition owns :: "uuid \<Rightarrow> db \<Rightarrow> uuid \<Rightarrow> bool" where
  "owns uid d i \<longleftrightarrow> (\<exists>e\<in>set (events d). evt_id e = i \<and> evt_organizer_id e = uid)"

definition attends :: "uuid \<Rightarrow> db \<Rightarrow> uuid \<Rightarrow> bool" where
  "attends uid d i \<longleftrightarrow> (\<exists>r\<in>set (registrations d). active r \<and> reg_event_id r = i \<and> reg_student_id r = uid)"

definition near_event :: "uuid \<Rightarrow> db \<Rightarrow> uuid \<Rightarrow> bool" where
  "near_event uid d i \<longleftrightarrow> attends uid d i \<or> (\<exists>e\<in>set (events d). evt_id e = i \<and> open_event uid e)"

text \<open>Of a registration of somebody else for an event of somebody else, the student stays hidden.\<close>

record row_view =
  rv_id :: uuid
  rv_event_id :: uuid
  rv_status :: registration_status
  rv_registered_at :: instant
  rv_student :: "(uuid \<times> instant option) option"

definition row_view_of :: "uuid \<Rightarrow> db \<Rightarrow> registration \<Rightarrow> row_view" where
  "row_view_of uid d r = \<lparr>rv_id = reg_id r, rv_event_id = reg_event_id r, rv_status = reg_status r,
     rv_registered_at = reg_registered_at r,
     rv_student = (if reg_student_id r = uid \<or> owns uid d (reg_event_id r)
                   then Some (reg_student_id r, reg_cancelled_at r) else None)\<rparr>"

definition row_views :: "uuid \<Rightarrow> db \<Rightarrow> row_view list" where
  "row_views uid d = map (row_view_of uid d) (filter (\<lambda>r. active r \<and> near_event uid d (reg_event_id r)) (registrations d))"

text \<open>
  Of a user the name is shown to the students of a visible event and to the organizer whose event
  they registered for; the address to that organizer only. Oneself is shown always.
\<close>

definition registrant :: "uuid \<Rightarrow> db \<Rightarrow> uuid \<Rightarrow> bool" where
  "registrant uid d s \<longleftrightarrow> (\<exists>r\<in>set (registrations d). active r \<and> reg_student_id r = s \<and> owns uid d (reg_event_id r))"

definition shown_user :: "uuid \<Rightarrow> db \<Rightarrow> user \<Rightarrow> bool" where
  "shown_user uid d u \<longleftrightarrow> usr_id u = uid \<or> registrant uid d (usr_id u)
     \<or> (\<exists>e\<in>set (events d). open_event uid e \<and> evt_organizer_id e = usr_id u)"

record user_view =
  uv_id :: uuid
  uv_full_name :: string
  uv_email :: "string option"
  uv_role :: "user_role option"

definition user_view_of :: "uuid \<Rightarrow> db \<Rightarrow> user \<Rightarrow> user_view" where
  "user_view_of uid d u = \<lparr>uv_id = usr_id u, uv_full_name = usr_full_name u,
     uv_email = (if usr_id u = uid \<or> registrant uid d (usr_id u) then Some (usr_email u) else None),
     uv_role = (if usr_id u = uid then Some (usr_role u) else None)\<rparr>"

definition user_views :: "uuid \<Rightarrow> db \<Rightarrow> user_view list" where
  "user_views uid d = map (user_view_of uid d) (filter (shown_user uid d) (users d))"

definition job_views :: "uuid \<Rightarrow> db \<Rightarrow> job_detail list" where
  "job_views uid d = map job_detail_of
     (filter (\<lambda>j. case job_event_id j of None \<Rightarrow> False | Some i \<Rightarrow> owns uid d i) (notification_jobs d))"

record caller_view =
  cv_users :: "user_view list"
  cv_events :: "event list"
  cv_registrations :: "row_view list"
  cv_jobs :: "job_detail list"

definition caller_view :: "uuid \<Rightarrow> db \<Rightarrow> caller_view" where
  "caller_view uid d = \<lparr>cv_users = user_views uid d, cv_events = filter (open_event uid) (events d),
     cv_registrations = row_views uid d, cv_jobs = job_views uid d\<rparr>"

section \<open>The view determines the responses\<close>

lemma get_or_none_pk_filter:
  assumes "distinct (map k rows)"
  shows "get_or_none (\<lambda>x. k x = i) (filter Q rows)
    = (case get_or_none (\<lambda>x. k x = i) rows of None \<Rightarrow> None | Some x \<Rightarrow> if Q x then Some x else None)"
  using assms
proof (induction rows)
  case (Cons x rows)
  have "get_or_none (\<lambda>y. k y = k x) (filter Q rows) = None" using Cons.prems by (auto simp: get_or_none_None) (metis image_eqI)
  with Cons show ?case by auto
qed simp

lemma get_or_none_conj: "get_or_none (\<lambda>x. P x \<and> Q x) rows = get_or_none P (filter Q rows)"
  by (induction rows) auto

lemma view_eqD:
  assumes "caller_view uid d = caller_view uid d'"
  shows "filter (open_event uid) (events d) = filter (open_event uid) (events d')"
    and "row_views uid d = row_views uid d'" and "user_views uid d = user_views uid d'" and "job_views uid d = job_views uid d'"
  using assms by (simp_all add: caller_view_def)

lemma owns_view: "owns uid d i \<longleftrightarrow> (\<exists>e\<in>set (filter (open_event uid) (events d)). evt_id e = i \<and> evt_organizer_id e = uid)"
  by (auto simp: owns_def open_event_def)

lemma attends_view: "attends uid d i \<longleftrightarrow> (\<exists>v\<in>set (row_views uid d). rv_event_id v = i \<and> (\<exists>c. rv_student v = Some (uid, c)))"
  by (fastforce simp: attends_def row_views_def row_view_of_def near_event_def split: if_splits)

lemma near_event_view:
  "near_event uid d i \<longleftrightarrow> attends uid d i \<or> (\<exists>e\<in>set (filter (open_event uid) (events d)). evt_id e = i)"
  by (auto simp: near_event_def)

lemma registrant_view:
  "registrant uid d s \<longleftrightarrow> (\<exists>v\<in>set (row_views uid d). owns uid d (rv_event_id v) \<and> (\<exists>c. rv_student v = Some (s, c)))"
proof -
  have "owns uid d i \<Longrightarrow> near_event uid d i" for i by (auto simp: owns_def near_event_def open_event_def)
  then show ?thesis by (fastforce simp: registrant_def row_views_def row_view_of_def)
qed

lemma same_views:
  assumes "caller_view uid d = caller_view uid d'"
  shows "owns uid d = owns uid d'" "near_event uid d = near_event uid d'" "registrant uid d = registrant uid d'"
proof -
  note v = view_eqD[OF assms]
  show o: "owns uid d = owns uid d'" unfolding fun_eq_iff owns_view v(1) by (rule allI) (rule refl)
  show "near_event uid d = near_event uid d'" unfolding fun_eq_iff near_event_view attends_view v(1,2) by (rule allI) (rule refl)
  show "registrant uid d = registrant uid d'" unfolding fun_eq_iff registrant_view v(2) o by (rule allI) (rule refl)
qed

text \<open>Counting the rows is counting their views.\<close>

lemma count_rows:
  assumes "\<And>r. P (row_view_of uid d r) \<Longrightarrow> active r \<and> near_event uid d (reg_event_id r)"
  shows "count_where (\<lambda>r. P (row_view_of uid d r)) (registrations d) = count_where P (row_views uid d)"
proof -
  have "filter (\<lambda>r. P (row_view_of uid d r)) (registrations d)
      = filter (\<lambda>r. P (row_view_of uid d r)) (filter (\<lambda>r. active r \<and> near_event uid d (reg_event_id r)) (registrations d))"
    by (rule filter_filter_keeps[symmetric]) (rule assms)
  then show ?thesis by (simp add: count_where_def row_views_def filter_map o_def)
qed

lemma count_near:
  assumes "near_event uid d i" "st \<noteq> Cancelled"
  shows "count_where (\<lambda>r. has_status i st r \<and> Q (reg_registered_at r) (reg_id r)) (registrations d)
    = count_where (\<lambda>v. rv_event_id v = i \<and> rv_status v = st \<and> Q (rv_registered_at v) (rv_id v)) (row_views uid d)"
proof -
  have "active r" if "reg_status r = st" for r using that assms(2) by (cases st) (simp_all add: active_def)
  with assms(1) show ?thesis
    by (subst count_rows[symmetric]) (auto simp: row_view_of_def has_status_def)
qed

lemma same_counts:
  assumes "caller_view uid d = caller_view uid d'" "near_event uid d i"
  shows "confirmed_count i d = confirmed_count i d'" "waitlist_count i d = waitlist_count i d'"
    and "reg_event_id r = i \<Longrightarrow> waitlist_position_of r d = waitlist_position_of r d'"
proof -
  note near = assms(2) assms(2)[unfolded same_views(2)[OF assms(1)]] and v = view_eqD(2)[OF assms(1)]
  show "confirmed_count i d = confirmed_count i d'" "waitlist_count i d = waitlist_count i d'"
    using count_near[OF near(1), where Q = "\<lambda>_ _. True"] count_near[OF near(2), where Q = "\<lambda>_ _. True"]
    by (simp_all add: confirmed_count_def waitlist_count_def v)
  let ?Q = "\<lambda>t k. t < reg_registered_at r \<or> (t = reg_registered_at r \<and> k \<le> reg_id r)"
  show "waitlist_position_of r d = waitlist_position_of r d'" if "reg_event_id r = i"
    using count_near[OF near(1), where Q = ?Q] count_near[OF near(2), where Q = ?Q] that
    by (simp add: waitlist_position_of_def v)
qed

lemma same_user:
  assumes eq: "caller_view uid d = caller_view uid d'"
    and shown: "i = uid \<or> registrant uid d i \<or> (\<exists>e\<in>set (events d). open_event uid e \<and> evt_organizer_id e = i)"
  shows "map_option (user_view_of uid d) (user_by_id i d) = map_option (user_view_of uid d') (user_by_id i d')"
proof -
  have look: "get_or_none (\<lambda>w. uv_id w = i) (user_views uid x) = map_option (user_view_of uid x) (user_by_id i x)"
    if "i = uid \<or> registrant uid x i \<or> (\<exists>e\<in>set (filter (open_event uid) (events x)). evt_organizer_id e = i)" for x
  proof -
    have "get_or_none (\<lambda>u. usr_id u = i) (filter (shown_user uid x) (users x)) = get_or_none (\<lambda>u. usr_id u = i) (users x)"
      by (rule get_or_none_filter) (use that in \<open>auto simp: shown_user_def\<close>)
    moreover have "get_or_none (\<lambda>w. uv_id w = i) (map (user_view_of uid x) us) = map_option (user_view_of uid x) (get_or_none (\<lambda>u. usr_id u = i) us)" for us
      by (rule get_or_none_map) (simp add: user_view_of_def)
    ultimately show ?thesis by (simp add: user_views_def user_by_id_def)
  qed
  note v = view_eqD[OF eq] and s = same_views[OF eq]
  have "i = uid \<or> registrant uid d i \<or> (\<exists>e\<in>set (filter (open_event uid) (events d)). evt_organizer_id e = i)" using shown by auto
  from look[OF this] look[OF this[unfolded v(1) s(3)]] show ?thesis by (simp add: v(3))
qed

lemma same_event:
  assumes "caller_view uid d = caller_view uid d'" "schema_ok d" "schema_ok d'"
  shows "(case event_by_id i d of None \<Rightarrow> None | Some e \<Rightarrow> if open_event uid e then Some e else None)
    = (case event_by_id i d' of None \<Rightarrow> None | Some e \<Rightarrow> if open_event uid e then Some e else None)"
  using get_or_none_pk_filter[OF schema_ok_D(1)[OF assms(2)], of i "open_event uid"]
    get_or_none_pk_filter[OF schema_ok_D(1)[OF assms(3)], of i "open_event uid"] view_eqD(1)[OF assms(1)]
  by (simp add: event_by_id_def)

text \<open>Both callers are the same account: \<open>read_me\<close> agrees, and with it the identifier and the role.\<close>

lemma same_event_list:
  assumes "caller_view uid d = caller_view uid d'" "usr_id u = uid" "usr_id u' = uid" "usr_role u = usr_role u'"
  shows "list_events u l n d = list_events u' l n d'"
proof -
  let ?P = "\<lambda>u e. if usr_role u = Student then evt_status e = Published else evt_organizer_id e = usr_id u \<or> evt_status e = Published"
  have "filter (?P u) (events x) = filter (?P u) (filter (open_event uid) (events x))" for x
    using assms(2) by (intro filter_filter_keeps[symmetric]) (auto simp: open_event_def split: if_splits)
  from this[of d] this[of d'] have "filter (?P u) (events d) = filter (?P u) (events d')" unfolding view_eqD(1)[OF assms(1)] by (rule trans[OF _ sym])
  then have "filter (?P u) (events d) = filter (?P u') (events d')" unfolding assms(2-4) .
  moreover have "confirmed_count (evt_id e) d = confirmed_count (evt_id e) d'" if "e \<in> set (filter (?P u) (events d))" for e
    using that assms(2) by (intro same_counts(1)[OF assms(1)]) (auto simp: near_event_def open_event_def split: if_splits)
  ultimately have rows: "map (\<lambda>e. (e, confirmed_count (evt_id e) d)) (filter (?P u) (events d))
      = map (\<lambda>e. (e, confirmed_count (evt_id e) d')) (filter (?P u') (events d'))" by simp
  have "list_events w l n x = take l (drop n (sort_key (\<lambda>(e, n). - replace_tzinfo_utc (evt_starts_at e))
      (map (\<lambda>e. (e, confirmed_count (evt_id e) x)) (filter (?P w) (events x)))))" for w x
    by (cases "usr_role w = Student") (simp_all add: list_events_def Let_def)
  then show ?thesis by (simp only: rows)
qed

lemma same_event_detail:
  assumes "caller_view uid d = caller_view uid d'" "schema_ok d" "schema_ok d'"
    and "usr_id u = uid" "usr_id u' = uid" "usr_role u = usr_role u'"
  shows "get_event_detail u i d = get_event_detail u' i d'"
proof -
  let ?open = "\<lambda>x. case event_by_id i x of None \<Rightarrow> None | Some e \<Rightarrow> if open_event uid e then Some e else None"
  have hidden: "get_event_detail w i x = Inl event_not_found" if "?open x = None" "usr_id w = uid" for w x
    using that by (auto simp: get_event_detail_def assert_visible_def open_event_def split: option.splits if_splits)
  note same = same_event[OF assms(1-3), of i]
  show ?thesis
  proof (cases "?open d")
    case None
    with same show ?thesis using hidden[OF None assms(4)] hidden[of d' u'] assms(5) by simp
  next
    case (Some e)
    with same have "?open d' = Some e" by simp
    with Some have e: "event_by_id i d = Some e" "event_by_id i d' = Some e" "open_event uid e"
      by (auto split: option.splits if_splits)
    then have mem: "e \<in> set (events d)" "evt_id e = i" using event_by_id_Some by blast+
    have "assert_visible u e = assert_visible u' e" using assms(4-6) by (simp add: assert_visible_def)
    moreover have "map_option usr_full_name (user_by_id (evt_organizer_id e) d) = map_option usr_full_name (user_by_id (evt_organizer_id e) d')"
      using arg_cong[OF same_user[OF assms(1), of "evt_organizer_id e"], of "map_option uv_full_name"] mem e(3)
      by (auto simp: option.map_comp o_def user_view_of_def)
    moreover have "near_event uid d i" using mem e(3) by (auto simp: near_event_def)
    ultimately show ?thesis using e same_counts(1,2)[OF assms(1), of i]
      by (auto simp: get_event_detail_def split: sum.splits option.splits)
  qed
qed

lemma same_my_registrations:
  assumes eq: "caller_view uid d = caller_view uid d'" and ok: "schema_ok d" "schema_ok d'" and u: "usr_id u = uid" "usr_id u' = uid"
  shows "list_my_registrations u d = list_my_registrations u' d'"
proof -
  let ?own = "\<lambda>v. \<exists>c. rv_student v = Some (uid, c)"
  let ?count = "\<lambda>vs v. count_where (\<lambda>w. rv_event_id w = rv_event_id v \<and> rv_status w = Waitlisted
      \<and> (rv_registered_at w < rv_registered_at v \<or> (rv_registered_at w = rv_registered_at v \<and> rv_id w \<le> rv_id v))) vs"
  let ?entry = "\<lambda>vs v. \<lparr>my_id = rv_id v, my_event_id = rv_event_id v, my_status = rv_status v, my_registered_at = rv_registered_at v,
      my_cancelled_at = snd (the (rv_student v)), my_waitlist_position = (if rv_status v = Waitlisted then Some (int (?count vs v)) else None)\<rparr>"
  have "list_my_registrations w x = map (?entry (row_views uid x)) (filter ?own (row_views uid x))" if "schema_ok x" "usr_id w = uid" for w x
  proof -
    have near: "near_event uid x (reg_event_id r)" if "r \<in> set (registrations x)" "active r" "reg_student_id r = uid" for r
      using that by (auto simp: near_event_def attends_def)
    have act: "reg_status r \<noteq> Cancelled \<longleftrightarrow> active r" for r by (cases "reg_status r") (simp_all add: active_def)
    have rows: "filter ?own (row_views uid x) = map (row_view_of uid x) (filter (\<lambda>r. reg_student_id r = uid \<and> reg_status r \<noteq> Cancelled) (registrations x))"
      unfolding row_views_def filter_map by (rule arg_cong[where f = "map _"], simp add: o_def, rule filter_cong[OF refl])
        (use near act in \<open>auto simp: row_view_of_def\<close>)
    have "waitlist_position_of r x = int (?count (row_views uid x) (row_view_of uid x r))"
      if "r \<in> set (registrations x)" "active r" "reg_student_id r = uid" for r
      using count_near[OF near[OF that], where st = Waitlisted and Q = "\<lambda>t k. t < reg_registered_at r \<or> (t = reg_registered_at r \<and> k \<le> reg_id r)"]
      by (simp add: waitlist_position_of_def row_view_of_def)
    then show ?thesis unfolding list_my_registrations_entries[OF \<open>schema_ok x\<close>] rows using act \<open>usr_id w = uid\<close>
      by (auto simp: row_view_of_def)
  qed
  with ok u view_eqD(2)[OF eq] show ?thesis by simp
qed

definition summary_of :: "registration \<times> user \<Rightarrow> registration_summary" where
  "summary_of = (\<lambda>(r, u). \<lparr>sum_id = reg_id r, sum_student_id = reg_student_id r, sum_student_name = usr_full_name u,
     sum_student_email = usr_email u, sum_status = reg_status r, sum_registered_at = reg_registered_at r\<rparr>)"

definition view_summary :: "row_view \<Rightarrow> user_view \<Rightarrow> registration_summary" where
  "view_summary v w = \<lparr>sum_id = rv_id v, sum_student_id = fst (the (rv_student v)), sum_student_name = uv_full_name w,
     sum_student_email = the (uv_email w), sum_status = rv_status v, sum_registered_at = rv_registered_at v\<rparr>"

lemma joined_summaries:
  assumes "owns uid d i" "st \<noteq> Cancelled"
  shows "map summary_of (join_students (filter (has_status i st) (registrations d)) d)
    = concat (map (\<lambda>v. map (view_summary v) (filter (\<lambda>w. uv_id w = fst (the (rv_student v))) (user_views uid d)))
        (filter (\<lambda>v. rv_event_id v = i \<and> rv_status v = st) (row_views uid d)))"
proof -
  have near: "near_event uid d i" using assms(1) by (auto simp: owns_def near_event_def open_event_def)
  have act: "active r" if "reg_status r = st" for r using that assms(2) by (cases st) (simp_all add: active_def)
  have rows: "filter (\<lambda>v. rv_event_id v = i \<and> rv_status v = st) (row_views uid d)
      = map (row_view_of uid d) (filter (has_status i st) (registrations d))"
    unfolding row_views_def filter_map by (rule arg_cong[where f = "map _"], simp add: o_def, rule filter_cong[OF refl])
      (use near act in \<open>auto simp: row_view_of_def has_status_def\<close>)
  have "map (\<lambda>u. summary_of (r, u)) (filter (\<lambda>u. usr_id u = reg_student_id r) (users d))
      = map (view_summary (row_view_of uid d r)) (filter (\<lambda>w. uv_id w = fst (the (rv_student (row_view_of uid d r)))) (user_views uid d))"
    if r: "r \<in> set (filter (has_status i st) (registrations d))" for r
  proof -
    have reg: "registrant uid d (reg_student_id r)" and own: "owns uid d (reg_event_id r)"
      using r act assms(1) by (auto simp: registrant_def has_status_def)
    have "filter (\<lambda>w. uv_id w = reg_student_id r) (user_views uid d)
        = map (user_view_of uid d) (filter (\<lambda>u. usr_id u = reg_student_id r) (users d))"
      unfolding user_views_def filter_map by (rule arg_cong[where f = "map _"], simp add: o_def, rule filter_cong[OF refl])
        (use reg in \<open>auto simp: user_view_of_def shown_user_def\<close>)
    with own reg show ?thesis
      by (auto simp: row_view_of_def view_summary_def summary_of_def user_view_of_def)
  qed
  then have c: "map (\<lambda>r. map (\<lambda>u. summary_of (r, u)) (filter (\<lambda>u. usr_id u = reg_student_id r) (users d))) (filter (has_status i st) (registrations d))
      = map (\<lambda>r. map (view_summary (row_view_of uid d r)) (filter (\<lambda>w. uv_id w = fst (the (rv_student (row_view_of uid d r)))) (user_views uid d)))
          (filter (has_status i st) (registrations d))" by (rule map_cong[OF refl])
  have "map summary_of (join_students rs d)
      = concat (map (\<lambda>r. map (\<lambda>u. summary_of (r, u)) (filter (\<lambda>u. usr_id u = reg_student_id r) (users d))) rs)" for rs
    by (simp add: join_students_def map_concat o_def)
  then show ?thesis by (simp only: c rows map_map o_def)
qed

lemma same_event_registrations:
  assumes eq: "caller_view uid d = caller_view uid d'" and ok: "schema_ok d" "schema_ok d'" and u: "usr_id u = uid" "usr_id u' = uid"
  shows "list_event_registrations u i waitlist l n d = list_event_registrations u' i waitlist l n d'"
proof -
  let ?open = "\<lambda>x. case event_by_id i x of None \<Rightarrow> None | Some e \<Rightarrow> if open_event uid e then Some e else None"
  let ?st = "if waitlist then Waitlisted else Confirmed"
  let ?key = "\<lambda>s. FifoKey (sum_registered_at s) (sum_id s)"
  let ?rows = "\<lambda>x. map summary_of (join_students (filter (has_status i ?st) (registrations x)) x)"
  have list: "list_event_registrations w i waitlist l n x = (case ?open x of None \<Rightarrow> Inl event_not_found
      | Some e \<Rightarrow> if evt_organizer_id e \<noteq> uid then Inl event_not_found else Inr (take l (drop n (sort_key ?key (?rows x)))))"
    if "usr_id w = uid" for w x
  proof -
    have "map summary_of (sort_key (\<lambda>(r, u). fifo r) xs) = sort_key ?key (map summary_of xs)" for xs
      by (rule map_sort_key) (auto simp: summary_of_def fifo_def)
    then show ?thesis using that unfolding list_event_registrations_def summary_of_def[symmetric] Let_def
      by (auto simp: take_map[symmetric] drop_map[symmetric] open_event_def split: option.splits)
  qed
  have "?rows d = ?rows d'" if "owns uid d i"
    using joined_summaries[OF that, of ?st] joined_summaries[OF that[unfolded same_views(1)[OF eq]], of ?st] view_eqD(2,3)[OF eq] by simp
  moreover have "owns uid d i" if "?open d = Some e" "evt_organizer_id e = uid" for e
    using that event_by_id_Some by (fastforce simp: owns_def split: option.splits if_splits)
  ultimately show ?thesis unfolding list[OF u(1)] list[OF u(2)] same_event[OF eq ok, symmetric] by (auto split: option.splits)
qed

lemma same_stats:
  assumes eq: "caller_view uid d = caller_view uid d'" and u: "usr_id u = uid" "usr_id u' = uid"
  shows "compute_organizer_stats u now d = compute_organizer_stats u' now d'"
proof -
  note v = view_eqD[OF eq] and s = same_views[OF eq]
  have own: "own_registration uid x r \<longleftrightarrow> owns uid x (reg_event_id r)" for x r
    by (auto simp: own_registration_def owns_def own_event_def)
  have evs: "filter (\<lambda>e. own_event uid e \<and> P e) (events x) = filter (\<lambda>e. own_event uid e \<and> P e) (filter (open_event uid) (events x))" for P x
    by (rule filter_filter_keeps[symmetric]) (simp add: own_event_def open_event_def)
  have events: "filter (\<lambda>e. own_event uid e \<and> P e) (events d) = filter (\<lambda>e. own_event uid e \<and> P e) (events d')" for P
    unfolding evs[of P d] evs[of P d'] v(1) ..
  have near: "owns uid d i \<Longrightarrow> near_event uid d i" "owns uid d' i \<Longrightarrow> near_event uid d' i" for i
    by (auto simp: owns_def near_event_def open_event_def)
  have rows: "count_where (\<lambda>r. owns uid d (reg_event_id r) \<and> reg_status r = st \<and> Q (reg_registered_at r)) (registrations d)
      = count_where (\<lambda>r. owns uid d' (reg_event_id r) \<and> reg_status r = st \<and> Q (reg_registered_at r)) (registrations d')"
    if "st \<noteq> Cancelled" for st Q
  proof -
    have act: "active r" if "reg_status r = st" for r using that \<open>st \<noteq> Cancelled\<close> by (cases st) (simp_all add: active_def)
    let ?P = "\<lambda>x w. owns uid x (rv_event_id w) \<and> rv_status w = st \<and> Q (rv_registered_at w)"
    have "count_where (\<lambda>r. ?P x (row_view_of uid x r)) (registrations x) = count_where (?P x) (row_views uid x)" if "x = d \<or> x = d'" for x
      using that near act by (intro count_rows) (auto simp: row_view_of_def)
    from this[of d] this[of d'] show ?thesis by (simp add: row_view_of_def v(2) s(1))
  qed
  show ?thesis unfolding compute_organizer_stats_def Let_def sum_published_capacity_def u own
    using events[of "\<lambda>e. True"] events[of "\<lambda>e. evt_status e = Draft"] events[of "\<lambda>e. evt_status e = Published"]
      events[of "\<lambda>e. evt_status e = Published \<and> now < replace_tzinfo_utc (evt_starts_at e)"]
      rows[of Confirmed "\<lambda>_. True"] rows[of Waitlisted "\<lambda>_. True"] rows[of Confirmed "\<lambda>t. now - new_registration_window \<le> t"]
    by (simp add: count_where_def)
qed

lemma same_jobs:
  assumes eq: "caller_view uid d = caller_view uid d'" and u: "usr_id u = uid" "usr_id u' = uid"
  shows "map job_response_of (list_notification_jobs i l n u d) = map job_response_of (list_notification_jobs i l n u' d')"
    and "map_sum id job_detail_of (get_notification_job k u d) = map_sum id job_detail_of (get_notification_job k u' d')"
proof -
  have own: "own_job w x = (\<lambda>j. case job_event_id j of None \<Rightarrow> False | Some i \<Rightarrow> owns uid x i)" if "usr_id w = uid" for w x
    using that by (auto simp: own_job_def owns_def fun_eq_iff split: option.splits)
  have resp: "job_response_of j = job_response.truncate (job_detail_of j)" for j
    by (simp add: job_detail_of_def job_response_of_def job_response.defs job_detail.defs)
  have jid: "jr_id (job_detail_of j) = job_id j" "jr_event_id (job_detail_of j) = job_event_id j" for j
    by (simp_all add: job_detail_of_def job_response_of_def job_response.defs job_detail.defs)
  let ?sel = "\<lambda>js. case i of None \<Rightarrow> js | Some i \<Rightarrow> filter (\<lambda>j. jr_event_id j = Some i) js"
  have "map job_response_of (list_notification_jobs i l n w x)
      = take l (drop n (sort_key (\<lambda>j. - jr_created_at j) (map job_response.truncate (?sel (job_views uid x)))))" if "usr_id w = uid" for w x
  proof -
    have srt: "map job_response_of (sort_key (\<lambda>j. - job_created_at j) js) = sort_key (\<lambda>j. - jr_created_at j) (map job_response_of js)" for js
      by (rule map_sort_key) (simp add: job_response_of_def)
    have "map job_response_of (case i of None \<Rightarrow> js | Some i \<Rightarrow> filter (\<lambda>j. job_event_id j = Some i) js)
        = map job_response.truncate (?sel (map job_detail_of js))" for js
      by (cases i) (simp_all add: resp filter_map o_def jid)
    then show ?thesis unfolding list_notification_jobs_def Let_def job_views_def own[OF that, symmetric]
      by (simp add: take_map[symmetric] drop_map[symmetric] srt)
  qed
  from this[OF u(1), of d] this[OF u(2), of d']
  show "map job_response_of (list_notification_jobs i l n u d) = map job_response_of (list_notification_jobs i l n u' d')"
    unfolding view_eqD(4)[OF eq] by (rule trans[OF _ sym])
  have "map_option job_detail_of (get_or_none (\<lambda>j. job_id j = k \<and> own_job w x j) (notification_jobs x))
      = get_or_none (\<lambda>v. jr_id v = k) (job_views uid x)" if "usr_id w = uid" for w x
    unfolding job_views_def own[OF that, symmetric] get_or_none_conj by (rule get_or_none_map[symmetric]) (simp add: jid)
  from this[OF u(1), of d] this[OF u(2), of d'] view_eqD(4)[OF eq]
  have "map_option job_detail_of (get_or_none (\<lambda>j. job_id j = k \<and> own_job u d j) (notification_jobs d))
      = map_option job_detail_of (get_or_none (\<lambda>j. job_id j = k \<and> own_job u' d' j) (notification_jobs d'))" by simp
  moreover have "map_sum id job_detail_of (get_notification_job k w x)
      = (case map_option job_detail_of (get_or_none (\<lambda>j. job_id j = k \<and> own_job w x j) (notification_jobs x)) of
          None \<Rightarrow> Inl job_not_found | Some v \<Rightarrow> Inr v)" for w x
    by (simp add: get_notification_job_def split: option.split)
  ultimately show "map_sum id job_detail_of (get_notification_job k u d) = map_sum id job_detail_of (get_notification_job k u' d')"
    by (simp only:)
qed

section \<open>Requests\<close>

text \<open>The token names the same account in both databases, or is refused in both.\<close>

lemma same_caller:
  assumes eq: "caller_view uid d = caller_view uid d'"
    and id: "\<And>u. current_user cr st cred now d = Inr u \<or> current_user cr st cred now d' = Inr u \<Longrightarrow> usr_id u = uid"
  obtains ex where "current_user cr st cred now d = Inl ex" "current_user cr st cred now d' = Inl ex"
    | u u' where "current_user cr st cred now d = Inr u" "current_user cr st cred now d' = Inr u'" "usr_id u = uid" "get_me u = get_me u'"
proof -
  have same: "map_option (user_view_of uid d) (user_by_id uid d) = map_option (user_view_of uid d') (user_by_id uid d')"
    by (rule same_user[OF eq]) simp
  let ?find = "\<lambda>i x. case user_by_id i x of None \<Rightarrow> Inl credentials_exc | Some user \<Rightarrow> Inr user"
  let ?subject = "case cred of Inl ex \<Rightarrow> Inl ex | Inr token \<Rightarrow> (case jwt_decode cr (Some (as_jwt_audience st)) now token of
      None \<Rightarrow> Inl credentials_exc
    | Some payload \<Rightarrow> if claim_type payload \<noteq> Some ''access'' then Inl credentials_exc
        else (case claim_sub payload of None \<Rightarrow> Inl credentials_exc | Some sub \<Rightarrow> uuid_filter sub))"
  have "current_user cr st cred now x = (case ?subject of Inl ex \<Rightarrow> Inl ex | Inr i \<Rightarrow> ?find i x)" for x
    by (simp add: current_user_def get_current_user_def split: sum.split option.split)
  then consider ex where "\<And>x. current_user cr st cred now x = Inl ex" | i where "\<And>x. current_user cr st cred now x = ?find i x"
    by (cases ?subject) auto
  then show thesis
  proof cases
    case (2 i)
    show thesis
    proof (cases "user_by_id i d = None \<and> user_by_id i d' = None")
      case True
      with 2 that(1) show thesis by simp
    next
      case False
      then obtain u where "user_by_id i d = Some u \<or> user_by_id i d' = Some u" by auto
      then have "usr_id u = uid" "usr_id u = i" using id[of u] 2[of d] 2[of d'] user_by_id_Some by (elim disjE; fastforce)+
      then have i: "i = uid" by simp
      with False same obtain u u' where u: "user_by_id uid d = Some u" "user_by_id uid d' = Some u'"
        by (cases "user_by_id uid d"; cases "user_by_id uid d'") simp_all
      then have ids: "usr_id u = uid" "usr_id u' = uid" using user_by_id_Some by blast+
      from same u have "user_view_of uid d u = user_view_of uid d' u'" by simp
      with ids have "get_me u = get_me u'" by (simp add: user_view_of_def get_me_def)
      with that(2)[of u u'] 2 u i ids show thesis by simp
    qed
  qed (use that(1) in blast)
qed

lemma fst_depends: "fst (answering f (depends (Inr u) h) d) = map_sum id f (fst (h u d))"
  by (simp add: answering_def depends_def case_prod_beta)

lemma fst_depends_role:
  "fst (answering f (depends (require_role roles (Inr u)) h) d) = map_sum id f
     (if usr_role u \<in> set roles then fst (h u d) else Inl (HTTPException 403 ''insufficient permissions'' []))"
  by (simp add: answering_def depends_def require_role_def raise_def case_prod_beta)

lemma fst_validated: "fst (validated b h d) = (case b of Inl ex \<Rightarrow> Inl ex | Inr x \<Rightarrow> fst (h x d))"
  by (cases b) (simp_all add: validated_def raise_def)

lemma same_body:
  assumes eq: "caller_view uid d = caller_view uid d'" and ok: "schema_ok d" "schema_ok d'"
    and u: "usr_id u = uid" "get_me u = get_me u'"
  shows "fst (read_body (Inr u) now r d) = fst (read_body (Inr u') now r d')"
proof -
  have u': "usr_id u' = uid" and role: "usr_role u = usr_role u'" using u by (auto simp: get_me_def)
  note same = same_event_list[OF eq u(1) u' role] same_event_detail[OF eq ok u(1) u' role]
    same_my_registrations[OF eq ok u(1) u'] same_event_registrations[OF eq ok u(1) u'] same_stats[OF eq u(1) u'] same_jobs[OF eq u(1) u']
  note ends = fst_depends fst_depends_role fst_validated require_organizer_def require_student_def ret_def case_prod_beta
    get_users_me_def get_events_def get_event_def my_registrations_def event_registrations_def event_waitlist_def get_stats_def
  show ?thesis
  proof (cases r)
    case (ReadJobs i limit offset)
    then show ?thesis using same(6)[of i] by (auto simp: ends role split: sum.split)
  next
    case (ReadJob k)
    have body: "map_sum id (\<lambda>j. JobDetail (job_detail_of j)) x = map_sum id JobDetail (map_sum id job_detail_of x)" for x :: "exc + notification_job"
      by (cases x) simp_all
    show ?thesis using same(7)[of k] by (simp add: ReadJob ends role body)
  qed (simp_all add: ends same role u(2) cong: sum.case_cong)
qed

text \<open>
  C31: What a response reveals. Two databases that agree on what the owner of the token may see (the
  published events and their own, the seats of these, the registrants of their own events and what
  they were sent about, and the registrations of others only without the student) get the same
  response to every GET request: nothing else, in particular no password, token, foreign draft or
  fellow registrant, can be read through the API.
\<close>

theorem responses_reveal_only_the_view:
  assumes "caller_view uid d = caller_view uid d'" "schema_ok d" "schema_ok d'"
    and "\<And>u. current_user cr st cred now d = Inr u \<or> current_user cr st cred now d' = Inr u \<Longrightarrow> usr_id u = uid"
  shows "read_response cr st cred now r d = read_response cr st cred now r d'"
proof (rule same_caller[OF assms(1,4)])
  fix ex assume "current_user cr st cred now d = Inl ex" "current_user cr st cred now d' = Inl ex"
  then show ?thesis
    by (cases r) (simp_all add: read_response_def answering_def depends_def require_organizer_def require_student_def require_role_def
        raise_def get_users_me_def get_events_def get_event_def my_registrations_def event_registrations_def event_waitlist_def get_stats_def)
next
  fix u u' assume "current_user cr st cred now d = Inr u" "current_user cr st cred now d' = Inr u'" "usr_id u = uid" "get_me u = get_me u'"
  with same_body[OF assms(1-3)] show ?thesis by (simp add: read_response_def)
qed

text \<open>
  The student asks for the event while its waitlist holds one or the other fellow student, whose
  password is a different one, too: the answer is the same.
\<close>

definition other_db :: db where
  "other_db = waiting_db\<lparr>users := [organizer1, student2, student3\<lparr>usr_password_hash := Some ''h''\<rparr>, student4, student5],
     registrations := [sample_reg 20 2 Confirmed 100, sample_reg 21 4 Waitlisted 200]\<rparr>"

theorem responses_reveal_only_the_view_witness:
  "\<exists>b. read_response sample_crypto sample_auth (Inr (create_access_token sample_crypto sample_auth student2 0)) 1 (ReadEvent 10) waiting_db
       = Inr (EventDetail b) \<and> ed_waitlist_count b = 1
     \<and> read_response sample_crypto sample_auth (Inr (create_access_token sample_crypto sample_auth student2 0)) 1 (ReadEvent 10) other_db
       = Inr (EventDetail b)"
proof -
  let ?cred = "Inr (create_access_token sample_crypto sample_auth student2 0)"
  have expiry: "1 < whole_seconds (0 + seconds (as_jwt_expire_minutes sample_auth * 60))"
    by (simp add: sample_auth_def whole_seconds_def seconds_def)
  have caller: "current_user sample_crypto sample_auth ?cred 1 d = Inr student2" if "user_by_id 2 d = Some student2" for d
    using that expiry sample_crypto_laws(1)
    by (simp add: jwt_laws_def current_user_def get_current_user_def create_access_token_def uuid_filter_def uuid_of_str_uuid sample_defs)
  have found: "current_user sample_crypto sample_auth ?cred 1 waiting_db = Inr student2"
    "current_user sample_crypto sample_auth ?cred 1 other_db = Inr student2"
    by (rule caller, simp add: other_db_def run_defs user_by_id_def)+
  have ok: "schema_ok waiting_db" "schema_ok other_db"
    by (simp_all add: other_db_def run_defs schema_ok_def has_event_def has_user_def active_def)
  have "caller_view 2 waiting_db = caller_view 2 other_db"
    by (simp add: caller_view_def user_views_def row_views_def job_views_def user_view_of_def row_view_of_def shown_user_def registrant_def
        owns_def near_event_def attends_def open_event_def active_def other_db_def run_defs)
  note same = responses_reveal_only_the_view[OF this ok, of sample_crypto sample_auth ?cred 1 "ReadEvent 10"]
  have "\<exists>b. read_response sample_crypto sample_auth ?cred 1 (ReadEvent 10) waiting_db = Inr (EventDetail b) \<and> ed_waitlist_count b = 1"
    unfolding read_response_def found
    by (simp add: get_event_def fst_depends get_event_detail_def assert_visible_def event_detail_of_def eval_defs run_defs
        event_response.defs event_detail.defs)
  moreover have "read_response sample_crypto sample_auth ?cred 1 (ReadEvent 10) waiting_db
      = read_response sample_crypto sample_auth ?cred 1 (ReadEvent 10) other_db"
  proof (rule same)
    fix u assume "current_user sample_crypto sample_auth ?cred 1 waiting_db = Inr u \<or> current_user sample_crypto sample_auth ?cred 1 other_db = Inr u"
    then have "u = student2" unfolding found by auto
    then show "usr_id u = 2" by (simp add: student2_def sample_user_def)
  qed
  ultimately show ?thesis by auto
qed

section \<open>Seats in the answers\<close>

text \<open>
  The rows the services return carry no annotation, so the answer to a change always says that nobody
  is confirmed: here for an event whose only seat is taken.
\<close>

lemma update_reports_no_seats:
  "\<exists>b d'. put_event_body 2 (Inr organizer1) 10 (empty_update\<lparr>eur_title := Some (Some ''New'')\<rparr>) 0 full_db full_db = (Inr b, d')
     \<and> er_title b = ''New'' \<and> er_confirmed_count b = 0 \<and> confirmed_count 10 d' = 1"
  by (simp add: put_event_body_def put_event_def answering_def require_organizer_def require_role_def depends_def validated_def
      validate_update_def update_event_def empty_update_def assert_owner_def update_from_dict_def set_field_def ret_def
      event_response_of_def run_defs eval_defs)

end
