(* ===== verification/Spec2Isabelle.thy ===== *)
theory Spec2Isabelle
  imports Registration_Properties Event_Properties Consumer_Properties Heartbeat Rate_Limit_Properties Wakeup
    Worker_Process Organizer_Views Configuration Endpoints Seeding Drain_Delivery Migration_Properties Application
    Interleaving_Properties Token_Interleaving Responses Settings
begin

text \<open>
  A verification of the Hefest API, the backend of a school event and notification centre
  (\<open>src/hefest\<close>): students register for events with a capacity and a waitlist, organizers publish
  and cancel events, and every change that concerns a student writes a row into an outbox table,
  which worker processes turn into emails and push messages.

  \<^bold>\<open>The parts and how they interact.\<close> A request passes the rate limiter (Redis), is authenticated by
  its access token, checked for the caller's role, and calls a service. Services read and write the
  tables of one PostgreSQL database inside transactions, the outbox included. A trigger notifies the
  workers at commit. A worker reaps stale leases, claims due jobs, sends each one, and writes the
  outcome back under a fence (its identifier in \<open>locked_by\<close>); a heartbeat task renews its leases and
  gives up when the database is out of reach for too long. Requests and workers share nothing but
  the database, so their interleavings are interleavings of the statements of their transactions.

  \<^bold>\<open>How code becomes definitions.\<close> A model class is a record, an enum a datatype, a table the list of
  its rows, the database a record of tables (\<open>Models\<close>). A handler is one definition of type
  \<open>(db, 'a) prog = db \<Rightarrow> (exc + 'a) \<times> db\<close>: every \<open>raise\<close> and every violated constraint is a value
  \<open>Inl\<close>, and \<open>in_transaction\<close> restores the store on it. Clock readings, primary keys, salts and random
  tokens are arguments. Where a handler reads before it holds a lock, it takes the store of that
  read (\<open>snapshot\<close>) next to the store of the write. PyJWT, SHA-256 and bcrypt are the fields of the
  record \<open>crypto\<close>, with their documented behaviour as the hypotheses \<open>jwt_laws\<close> and \<open>bcrypt_laws\<close>; the
  answers of the mail server, the push service and the SSO library are arguments. Identifiers are
  128-bit words, instants are microseconds as integers.

  \<^bold>\<open>Theories.\<close>
  \<^item> \<open>Hefest_Prelude\<close>, \<open>Identifiers\<close>, \<open>Python_Text\<close>: results and transactions, table queries, UUIDs
    with their text form and the keys sorted by, Python text functions. \<open>Sample_Data\<close>: the database
    of the witnesses.
  \<^item> \<open>Models\<close>: \<open>hefest/models\<close>, with the constraints of every insertion and \<open>schema_ok\<close>, which they keep.
  \<^item> \<open>Schema\<close>, \<open>Migrations\<close>, \<open>Migration_Properties\<close>: the migrations of \<open>src/migrations\<close> as data, what SQL
    statements do to the catalogue and to the rows, a check of statements that cannot fail on data, and
    the runs of the migrations: every order ends in the schema of the model classes, and an upgrade
    loses no row. Also the dry run of \<open>scripts/ci_check_migrations.py\<close>.
  \<^item> \<open>Registrations\<close> (\<open>services/registration.py\<close>), \<open>Seat_Spec\<close> (an abstract seat counter with a
    queue and the locale \<open>seat_system\<close> of its implementations), \<open>Registration_Seats\<close> (the simulation),
    \<open>Registration_Properties\<close>: no overbooking, no idle seat while somebody waits, first come first
    served, positions, every outcome of registering and cancelling.
  \<^item> \<open>Events\<close> (\<open>services/event.py\<close>, \<open>schemas/event.py\<close>), \<open>Lifecycle\<close> (the locale of rows whose rank only
    grows), \<open>Event_Properties\<close>: statuses never regress, visibility, frames of updates, one
    notification per student on cancellation, and the stale publish that breaks it.
  \<^item> \<open>Outbox\<close> (the SQL of \<open>worker/claim.py\<close> and the renewal), \<open>Outbox_Properties\<close>: claims are
    exclusive and oldest first, finished jobs are frozen, leases and fences. \<open>fenced_finalizer\<close> is the
    contract the three finalizers share.
  \<^item> \<open>Notifications\<close> (recipients and templates), \<open>Delivery\<close> (mailer pool and push batches), \<open>Consumer\<close>
    (\<open>worker/consumer.py\<close>), \<open>Consumer_Properties\<close>: the drain ends, releases every lease, commits a
    finalizer at most once, and completes a job only if its email was accepted.
  \<^item> \<open>Heartbeat\<close> (\<open>worker/heartbeat.py\<close>), \<open>Wakeup\<close> (the loop of \<open>run\<close> and the LISTEN task as a step
    relation: no wake-up is lost), \<open>Worker_Process\<close> (\<open>worker/__main__.py\<close>: the tasks, signals and flags as
    a step relation, and the exit status), \<open>Logging\<close> (\<open>hefest/logging.py\<close>: every record arrives once).
  \<^item> \<open>Auth\<close> (\<open>services/auth.py\<close>, \<open>schemas/auth.py\<close>), \<open>Auth_Api\<close> (\<open>routers/auth.py\<close>, \<open>routers/sso.py\<close>,
    \<open>routers/deps.py\<close>), \<open>Auth_Properties\<close>, \<open>Account_Properties\<close>: tokens authenticate their user, refresh
    tokens are single use, logging out everywhere, registration to login, stable provider logins.
    \<open>Auth_Requests\<close>: the account routes with their request models.
  \<^item> \<open>Devices\<close> (\<open>services/device.py\<close>), \<open>Organizer_Views\<close> (\<open>services/stats.py\<close>,
    \<open>routers/notification_jobs.py\<close>), \<open>Configuration\<close> (provider endpoints, start-up check, probes), \<open>Settings\<close>
    (\<open>config.py\<close>: every field with its default and the component that reads it), \<open>Seeding\<close>
    (\<open>scripts/seed.py\<close>, \<open>scripts/seed_events.py\<close>).
  \<^item> \<open>Rate_Limit\<close> (\<open>middleware/rate_limit.py\<close>, \<open>routers/internal.py\<close>), \<open>Rate_Limit_Properties\<close>: the limit
    holds in every window, \<open>Retry-After\<close> is exact, keys are independent.
  \<^item> \<open>Endpoints\<close> (\<open>routers/events.py\<close>, \<open>routers/registrations.py\<close>, \<open>routers/stats.py\<close>): access control.
    \<open>Responses\<close> (the response models of \<open>hefest/schemas\<close>): what the bodies of the GET requests depend on,
    so what a caller can learn.
    \<open>Application\<close> (\<open>hefest/main.py\<close>): the route table, which is unambiguous, and the middlewares; a request
    that reaches a guarded handler was counted under the rule for it, so the number of logins from an
    address is bounded whatever requests arrive.
  \<^item> \<open>System\<close>: one step relation for the requests and the workers together, and its invariant: the
    schema, the limits of the columns, the well-formedness of jobs, and a typing of the outbox.
    \<open>Drain_Delivery\<close> and this theory draw the consequences for delivery: a drain of any reachable state
    completes what is due, and what a dead worker left behind; a cancelled event reaches its students.
  \<^item> \<open>Transactions\<close> (transactions as trees of statements with their locks, a world of concurrent
    sessions, and the locale \<open>locking\<close>: a protocol under which every call that ends is one step),
    \<open>Interleaving\<close> (the handlers of the event and registration services statement by statement, each
    equal to its definition as one step when nothing comes in between), \<open>Interleaving_Protocol\<close> (every
    read is protected by a lock held at the time, every write keeps what others have protected),
    \<open>Interleaving_Properties\<close> (the interpretation, and its consequences: interleavings are serial, no
    overbooking, no deadlock). \<open>Token_Interleaving\<close> interprets \<open>locking\<close> a second time, on the rotation
    of refresh tokens: requests that race for a token redeem it once.

  \<^bold>\<open>Bounds and fuel.\<close> \<open>reap_loop\<close> and \<open>claim_loop\<close> carry fuel because the code loops as long as full
  batches come back; \<open>drain_bound\<close> computes, from the attempts left in the table, an amount that is
  always enough (C9). Every other loop is recursion on data. Instants and counters are unbounded
  integers, as in Python. Where a column is narrower the limit is checked on writing: the lengths of
  varchar columns raise \<open>ValidationError\<close>, a capacity beyond 32 bits \<open>DataError\<close>; \<open>columns_ok\<close> is the
  invariant. Text is modelled as a list of one-byte characters, so lengths are those of ASCII text.

  \<^bold>\<open>Not modelled.\<close> The ASGI server, FastAPI's parsing of requests, its documentation pages and the
  lifespan hooks; how the ORM renders an operation of a migration as SQL, and foreign keys on the rows
  of a database that is being migrated; the formatting of log messages; a provider response without an
  email address; and the timing of asyncio beyond the order of tasks. The transactions of the event and
  registration services and the rotation of refresh tokens are interleaved statement by statement under
  their locks; those of the other account endpoints and of the workers are one step each. Of the locks of PostgreSQL the exclusive row locks
  and the keys of unique indexes are modelled, not the share locks of foreign keys nor the lock
  manager's own timeouts: a session may be lost at any moment, which covers a transaction that is aborted.
\<close>

section \<open>From a request to the mail server\<close>

lemma completes_held_job:
  assumes "j \<in> set (notification_jobs d)" "fence (job_id j) w j" "we_faults env (claimed_of j) 1 = NoFault"
  shows "\<exists>d'. finalize env mark_completed (claimed_of j) w (send_push env (claimed_of j) rcp d) = (Inr (), d')
     \<and> (\<exists>j'\<in>set (notification_jobs d'). job_id j' = job_id j \<and> job_status_of j' = Completed)"
proof -
  let ?c = "claimed_of j" and ?d = "send_push env (claimed_of j) rcp d"
  have id: "cj_id ?c = job_id j" by (simp add: claimed_of_def)
  obtain b js where m: "mark_completed (job_id j) w (we_clock env ?c 1) (notification_jobs d) = (b, js)" by fastforce
  then have row: "(\<lambda>x. if fence (job_id j) w x then x\<lparr>job_status_of := Completed, job_updated_at := we_clock env ?c 1\<rparr> else x) j \<in> set js"
    using assms(1) by (auto simp: mark_completed_def update_where_def)
  have "\<exists>j'\<in>set js. job_id j' = job_id j \<and> job_status_of j' = Completed" by (rule bexI[OF _ row]) (simp add: assms(2))
  with finalize_first_commit[OF assms(3), of mark_completed w ?d b js] m id show ?thesis by simp
qed



section \<open>From a cancelled event to the students\<close>


text \<open>The sample event with one confirmed and two waitlisted students is cancelled.\<close>

lemma queued_db_system_ok: "system_ok queued_db"
proof -
  have "system_ok full_db" using serve_call_ok[OF call_effects(1) sample_db_system_ok] by (simp add: call_2_def sample_defs has_user_def)
  then have "system_ok waiting_db" using serve_call_ok[OF call_effects(2)] by (simp add: call_3_def run_defs has_user_def)
  then show ?thesis by (rule service_step_system_ok[OF service_step.s_register[OF run_register_4]])
qed


end
